(* ===== verification/Prelude.thy ===== *)
theory Prelude
  imports Main "HOL-Library.AList" "HOL-Library.List_Lexorder" "HOL-Library.Char_ord"
    "HOL-Library.Multiset" "HOL-Library.Sublist"
begin

text \<open>
  What every component of the development shares: the fallible results of Go functions
  (\<open>(T, error)\<close> pairs, where a non-nil error ends the caller), loops with an early return,
  Go maps as association lists in the order a \<open>range\<close> loop happens to visit them, and the
  generic facts about them, collected in the fact collections \<open>res_simps\<close> (results and
  loops) and \<open>gomap_simps\<close> (maps).
\<close>

named_theorems res_simps \<open>rewriting fallible results and loops with early return\<close>
named_theorems gomap_simps \<open>rewriting Go maps represented by association lists\<close>

section \<open>Fallible results\<close>

text \<open>
  A Go function that returns \<open>(T, error)\<close> is a function into \<open>'e + 'a\<close>: \<open>Inl\<close> is the
  non-nil error, \<open>Inr\<close> the value. \<open>bindR\<close> is the \<open>if err != nil { return err }\<close> idiom.
\<close>

definition bindR :: "'e + 'a \<Rightarrow> ('a \<Rightarrow> 'e + 'b) \<Rightarrow> 'e + 'b" where
  "bindR r f = (case r of Inl e \<Rightarrow> Inl e | Inr x \<Rightarrow> f x)"

definition mapErr :: "('e \<Rightarrow> 'f) \<Rightarrow> 'e + 'a \<Rightarrow> 'f + 'a" where
  "mapErr g r = (case r of Inl e \<Rightarrow> Inl (g e) | Inr x \<Rightarrow> Inr x)"

lemma bindR_simps [simp, res_simps]:
  "bindR (Inl e) f = Inl e"
  "bindR (Inr x) f = f x"
  by (simp_all add: bindR_def)

lemma mapErr_simps [simp, res_simps]:
  "mapErr g (Inl e) = Inl (g e)"
  "mapErr g (Inr x) = Inr x"
  by (simp_all add: mapErr_def)

lemma bindR_eq_Inr [res_simps]: "bindR r f = Inr y \<longleftrightarrow> (\<exists>x. r = Inr x \<and> f x = Inr y)"
  by (cases r) auto

lemma bindR_eq_Inl [res_simps]:
  "bindR r f = Inl e \<longleftrightarrow> r = Inl e \<or> (\<exists>x. r = Inr x \<and> f x = Inl e)"
  by (cases r) auto

lemma mapErr_eq_Inr [res_simps]: "mapErr g r = Inr y \<longleftrightarrow> r = Inr y"
  by (cases r) auto

lemma mapErr_eq_Inl [res_simps]: "mapErr g r = Inl e \<longleftrightarrow> (\<exists>e'. r = Inl e' \<and> e = g e')"
  by (cases r) auto

lemma bindR_cong [fundef_cong]:
  "r = r' \<Longrightarrow> (\<And>x. r' = Inr x \<Longrightarrow> f x = g x) \<Longrightarrow> bindR r f = bindR r' g"
  by (cases r') auto

text \<open>
  A \<open>for ... range\<close> loop whose body may return an error: the first error ends the loop, the
  state is threaded from one element to the next.
\<close>

fun foldE :: "('a \<Rightarrow> 's \<Rightarrow> 'e + 's) \<Rightarrow> 'a list \<Rightarrow> 's \<Rightarrow> 'e + 's" where
  "foldE f [] s = Inr s"
| "foldE f (x # xs) s = bindR (f x s) (foldE f xs)"

lemma foldE_append [res_simps]: "foldE f (xs @ ys) s = bindR (foldE f xs s) (foldE f ys)"
proof (induction xs arbitrary: s)
  case (Cons x xs)
  then show ?case by (cases "f x s") auto
qed simp

lemma foldE_cong [fundef_cong]:
  assumes "xs = ys" "s = t" "\<And>x u. x \<in> set ys \<Longrightarrow> f x u = g x u"
  shows "foldE f xs s = foldE g ys t"
proof -
  have "(\<And>x u. x \<in> set ys \<Longrightarrow> f x u = g x u) \<Longrightarrow> foldE f ys t = foldE g ys t" for t
  proof (induction ys arbitrary: t)
    case (Cons y ys)
    then have "foldE f ys = foldE g ys" by auto
    with Cons.prems show ?case by simp
  qed simp
  with assms show ?thesis by simp
qed

lemma foldE_invariant:
  assumes "foldE f xs s = Inr t" "P s"
    and "\<And>x u v. x \<in> set xs \<Longrightarrow> P u \<Longrightarrow> f x u = Inr v \<Longrightarrow> P v"
  shows "P t"
  using assms
proof (induction xs arbitrary: s)
  case (Cons x xs)
  from Cons.prems(1) obtain u where u: "f x s = Inr u" "foldE f xs u = Inr t"
    by (auto simp: bindR_eq_Inr)
  have "P u" using Cons.prems(2,3) u(1) by auto
  moreover have "\<And>y v w. y \<in> set xs \<Longrightarrow> P v \<Longrightarrow> f y v = Inr w \<Longrightarrow> P w"
    using Cons.prems(3) by auto
  ultimately show ?case using Cons.IH [OF u(2)] by blast
qed simp

text \<open>The first error among a list of results, or all the values.\<close>

fun sequenceR :: "('e + 'a) list \<Rightarrow> 'e + 'a list" where
  "sequenceR [] = Inr []"
| "sequenceR (r # rs) = bindR r (\<lambda>x. bindR (sequenceR rs) (\<lambda>xs. Inr (x # xs)))"

lemma sequenceR_Inr [res_simps]: "sequenceR rs = Inr xs \<longleftrightarrow> rs = map Inr xs"
proof (induction rs arbitrary: xs)
  case (Cons r rs)
  then show ?case by (cases xs; cases r) (auto simp: bindR_eq_Inr)
qed auto

section \<open>Go maps\<close>

text \<open>
  A Go map is an association list with distinct keys. The order of the list is the order in
  which \<open>range\<close> visits the map: Go leaves it unspecified, so a theorem about code that ranges
  over a map holds for every order of the list. \<open>gset\<close> is \<open>m[k] = v\<close>, \<open>gdel\<close> is
  \<open>delete(m, k)\<close>, \<open>map_of m k\<close> is \<open>v, ok := m[k]\<close>.
\<close>

type_synonym ('k, 'v) gmap = "('k \<times> 'v) list"

abbreviation gkeys :: "('k, 'v) gmap \<Rightarrow> 'k list" where
  "gkeys m \<equiv> map fst m"

definition gset :: "'k \<Rightarrow> 'v \<Rightarrow> ('k, 'v) gmap \<Rightarrow> ('k, 'v) gmap" where
  "gset k v m = AList.update k v m"

definition gdel :: "'k \<Rightarrow> ('k, 'v) gmap \<Rightarrow> ('k, 'v) gmap" where
  "gdel k m = AList.delete k m"

definition gmap_ok :: "('k, 'v) gmap \<Rightarrow> bool" where
  "gmap_ok m \<longleftrightarrow> distinct (gkeys m)"

lemma map_of_gset [simp, gomap_simps]: "map_of (gset k v m) = (map_of m)(k \<mapsto> v)"
  by (simp add: gset_def update_conv')

lemma map_of_gdel [simp, gomap_simps]: "map_of (gdel k m) = (map_of m)(k := None)"
  by (simp add: gdel_def delete_conv')

lemma gmap_ok_gset [simp, gomap_simps]: "gmap_ok m \<Longrightarrow> gmap_ok (gset k v m)"
  by (simp add: gmap_ok_def gset_def distinct_update)

lemma gmap_ok_gdel [simp, gomap_simps]: "gmap_ok m \<Longrightarrow> gmap_ok (gdel k m)"
  by (simp add: gmap_ok_def gdel_def distinct_delete)

lemma gmap_ok_Nil [simp, gomap_simps]: "gmap_ok []"
  by (simp add: gmap_ok_def)

lemma gset_not_Nil [simp, gomap_simps]: "gset k v m \<noteq> []"
  by (cases m) (auto simp: gset_def)

text \<open>Two listings of one map: the same entries in another order.\<close>

lemma map_of_perm:
  assumes "mset m = mset m'" "gmap_ok m"
  shows "map_of m = map_of m'"
proof -
  have "mset (gkeys m) = mset (gkeys m')" using assms(1) by (metis mset_map)
  then have "distinct (gkeys m')"
    using assms(2) unfolding gmap_ok_def by (metis mset_eq_imp_distinct_iff)
  moreover have "set m = set m'" using assms(1) by (rule mset_eq_setD)
  ultimately show ?thesis
    using assms(2) unfolding gmap_ok_def by (metis map_of_inject_set)
qed

text \<open>Sorting by key makes the listing of a map irrelevant.\<close>

lemma sort_key_fst_perm:
  fixes m m' :: "('k::linorder, 'v) gmap"
  assumes "mset m = mset m'" "gmap_ok m"
  shows "sort_key fst m = sort_key fst m'"
proof (rule sort_key_inj_key_eq)
  show "mset m = mset (sort_key fst m')" using assms(1) by simp
  show "inj_on fst (set m)" using assms(2) by (simp add: gmap_ok_def distinct_map)
qed simp

end
