(* ===== verification/GoStrings.thy ===== *)
theory GoStrings
  imports Prelude
begin

text \<open>
  The parts of the Go standard library that the program applies to strings. A Go string is a
  sequence of bytes, so it is a \<open>string\<close> (a list of 8-bit characters); runes are decoded from
  it as \<open>unicode/utf8\<close> does, with width 0 standing for an invalid encoding here. Modelled are
  \<open>strconv.Itoa\<close> and \<open>strconv.Atoi\<close>, \<open>strings.HasPrefix\<close>, \<open>strings.TrimSpace\<close>,
  \<open>strings.Cut\<close>, \<open>strings.Split\<close>, \<open>bufio.Scanner\<close> on lines, \<open>hex.EncodeToString\<close>,
  \<open>filepath.Clean\<close>, \<open>filepath.Join\<close> and \<open>filepath.Base\<close>.
\<close>

section \<open>Decimal numbers\<close>

abbreviation byte :: "char \<Rightarrow> nat" where
  "byte c \<equiv> of_char c"

definition is_digit :: "char \<Rightarrow> bool" where
  "is_digit c \<longleftrightarrow> 48 \<le> byte c \<and> byte c \<le> 57"

definition digit_char :: "nat \<Rightarrow> char" where
  "digit_char d = char_of (48 + d)"

definition digit_val :: "char \<Rightarrow> nat" where
  "digit_val c = byte c - 48"

fun nat_str :: "nat \<Rightarrow> string" where
  "nat_str n = (if n < 10 then [digit_char n] else nat_str (n div 10) @ [digit_char (n mod 10)])"

declare nat_str.simps [simp del]

definition Itoa :: "int \<Rightarrow> string" where
  "Itoa i = (if i < 0 then CHR ''-'' # nat_str (nat (- i)) else nat_str (nat i))"

definition digits_val :: "string \<Rightarrow> nat" where
  "digits_val s = foldl (\<lambda>a c. 10 * a + digit_val c) 0 s"

definition max_int64 :: int where "max_int64 = 2 ^ 63 - 1"
definition min_int64 :: int where "min_int64 = - (2 ^ 63)"

text \<open>
  \<open>strconv.Atoi\<close>: an optional sign and at least one decimal digit. On a range error Go still
  returns the nearest bound beside the error; \<open>Atoi_val\<close> is the returned number and \<open>Atoi_ok\<close>
  says that the error is nil.
\<close>

definition Atoi_parts :: "string \<Rightarrow> (bool \<times> string) option" where
  "Atoi_parts s =
     (let (neg, ds) = (case s of [] \<Rightarrow> (False, [])
                       | c # cs \<Rightarrow> if c = CHR ''-'' then (True, cs)
                                   else if c = CHR ''+'' then (False, cs) else (False, s))
      in if ds \<noteq> [] \<and> list_all is_digit ds then Some (neg, ds) else None)"

definition Atoi_val :: "string \<Rightarrow> int" where
  "Atoi_val s = (case Atoi_parts s of None \<Rightarrow> 0
     | Some (neg, ds) \<Rightarrow>
         (let n = int (digits_val ds)
          in if neg then max min_int64 (- n) else min max_int64 n))"

definition Atoi_ok :: "string \<Rightarrow> bool" where
  "Atoi_ok s = (case Atoi_parts s of None \<Rightarrow> False
     | Some (neg, ds) \<Rightarrow>
         (let n = int (digits_val ds)
          in if neg then min_int64 \<le> - n else n \<le> max_int64))"

lemma digit_char_props [simp]:
  assumes "d < 10"
  shows "is_digit (digit_char d)" "digit_val (digit_char d) = d"
  using assms by (simp_all add: is_digit_def digit_char_def digit_val_def)

lemma list_all_digit_nat_str [simp]: "list_all is_digit (nat_str n)"
proof (induction n rule: nat_str.induct)
  case (1 n)
  then show ?case by (subst nat_str.simps) auto
qed

lemma nat_str_not_Nil [simp]: "nat_str n \<noteq> []"
  by (subst nat_str.simps) simp

lemma digits_val_nat_str [simp]: "digits_val (nat_str n) = n"
proof (induction n rule: nat_str.induct)
  case (1 n)
  then show ?case
    by (subst nat_str.simps) (auto simp: digits_val_def)
qed

lemma digit_not_sign: "is_digit c \<Longrightarrow> c \<noteq> CHR ''-'' \<and> c \<noteq> CHR ''+''"
  by (auto simp: is_digit_def)

lemma Atoi_parts_nat_str: "Atoi_parts (nat_str n) = Some (False, nat_str n)"
proof -
  obtain c cs where "nat_str n = c # cs" using nat_str_not_Nil [of n] by (cases "nat_str n") auto
  moreover have "list_all is_digit (nat_str n)" by simp
  ultimately show ?thesis by (auto simp: Atoi_parts_def dest: digit_not_sign)
qed

lemma Atoi_parts_neg: "Atoi_parts (CHR ''-'' # nat_str n) = Some (True, nat_str n)"
  by (simp add: Atoi_parts_def)

lemma Atoi_Itoa:
  assumes "min_int64 \<le> i" "i \<le> max_int64"
  shows "Atoi_ok (Itoa i) \<and> Atoi_val (Itoa i) = i"
  using assms
  by (auto simp: Itoa_def Atoi_ok_def Atoi_val_def Atoi_parts_nat_str Atoi_parts_neg)

section \<open>UTF-8\<close>

text \<open>
  \<open>rune_width\<close> is the number of bytes of the valid encoding at the start of the string, and 0
  when there is none (\<open>utf8.DecodeRune\<close> returns \<open>RuneError\<close> with width 1 there).
\<close>

definition cont_byte :: "nat \<Rightarrow> bool" where
  "cont_byte b \<longleftrightarrow> 128 \<le> b \<and> b \<le> 191"

definition rune_width_bytes :: "nat list \<Rightarrow> nat" where
  "rune_width_bytes bytes = (case bytes of
     [] \<Rightarrow> 0
   | b0 # bs \<Rightarrow>
      (if b0 < 128 then 1
       else if 194 \<le> b0 \<and> b0 \<le> 223 then
         (case bs of b1 # _ \<Rightarrow> if cont_byte b1 then 2 else 0 | _ \<Rightarrow> 0)
       else if 224 \<le> b0 \<and> b0 \<le> 239 then
         (case bs of b1 # b2 # _ \<Rightarrow>
            if (if b0 = 224 then 160 else 128) \<le> b1 \<and> b1 \<le> (if b0 = 237 then 159 else 191)
               \<and> cont_byte b2 then 3 else 0
          | _ \<Rightarrow> 0)
       else if 240 \<le> b0 \<and> b0 \<le> 244 then
         (case bs of b1 # b2 # b3 # _ \<Rightarrow>
            if (if b0 = 240 then 144 else 128) \<le> b1 \<and> b1 \<le> (if b0 = 244 then 143 else 191)
               \<and> cont_byte b2 \<and> cont_byte b3 then 4 else 0
          | _ \<Rightarrow> 0)
       else 0))"

definition rune_width :: "string \<Rightarrow> nat" where
  "rune_width s = rune_width_bytes (map byte (take 4 s))"

definition rune_error :: nat where "rune_error = 65533"

text \<open>\<open>utf8.DecodeRuneInString\<close>: the rune and the number of bytes it takes.\<close>

definition decode_rune :: "string \<Rightarrow> nat \<times> nat" where
  "decode_rune s =
     (if s = [] then (rune_error, 0)
      else case map byte (take (rune_width s) s) of
        [b0] \<Rightarrow> (b0, 1)
      | [b0, b1] \<Rightarrow> ((b0 mod 32) * 64 + b1 mod 64, 2)
      | [b0, b1, b2] \<Rightarrow> ((b0 mod 16) * 4096 + (b1 mod 64) * 64 + b2 mod 64, 3)
      | [b0, b1, b2, b3] \<Rightarrow>
          ((b0 mod 8) * 262144 + (b1 mod 64) * 4096 + (b2 mod 64) * 64 + b3 mod 64, 4)
      | _ \<Rightarrow> (rune_error, 1))"

lemma rune_width_ascii [simp]: "byte c < 128 \<Longrightarrow> rune_width (c # cs) = 1"
  by (simp add: rune_width_def rune_width_bytes_def)

lemma rune_width_bytes_le: "rune_width_bytes bs \<le> length bs"
  by (simp add: rune_width_bytes_def split: list.split)

lemma rune_width_le: "rune_width s \<le> length s"
  using rune_width_bytes_le [of "map byte (take 4 s)"] by (simp add: rune_width_def)

section \<open>Prefixes, trimming, cutting and splitting\<close>

definition HasPrefix :: "string \<Rightarrow> string \<Rightarrow> bool" where
  "HasPrefix s p \<longleftrightarrow> take (length p) s = p"

text \<open>The UTF-8 encodings of the runes for which \<open>unicode.IsSpace\<close> holds.\<close>

definition space_runes :: "nat list list" where
  "space_runes = [[9], [10], [11], [12], [13], [32], [194, 133], [194, 160], [225, 154, 128],
     [226, 128, 168], [226, 128, 169], [226, 128, 175], [226, 129, 159], [227, 128, 128]]
     @ map (\<lambda>b. [226, 128, b]) [128..<139]"

definition space_prefix :: "string \<Rightarrow> nat" where
  "space_prefix s =
     (case filter (\<lambda>r. take (length r) (map byte s) = r) space_runes of [] \<Rightarrow> 0 | r # _ \<Rightarrow> length r)"

definition space_suffix :: "string \<Rightarrow> nat" where
  "space_suffix s =
     (case filter (\<lambda>r. take (length r) (map byte (rev s)) = rev r) space_runes of
        [] \<Rightarrow> 0 | r # _ \<Rightarrow> length r)"

function trim_left :: "string \<Rightarrow> string" where
  "trim_left s = (if space_prefix s = 0 \<or> s = [] then s else trim_left (drop (space_prefix s) s))"
  by pat_completeness auto
termination by (relation "measure length") auto

function trim_right :: "string \<Rightarrow> string" where
  "trim_right s =
     (if space_suffix s = 0 \<or> s = [] then s
      else trim_right (take (length s - space_suffix s) s))"
  by pat_completeness auto
termination by (relation "measure length") auto

declare trim_left.simps [simp del] trim_right.simps [simp del]

definition TrimSpace :: "string \<Rightarrow> string" where
  "TrimSpace s = trim_right (trim_left s)"

text \<open>\<open>strings.Cut\<close> at a one-byte separator: the text before and after its first occurrence.\<close>

fun Cut :: "char \<Rightarrow> string \<Rightarrow> (string \<times> string) option" where
  "Cut c [] = None"
| "Cut c (x # xs) =
     (if x = c then Some ([], xs) else map_option (\<lambda>(a, b). (x # a, b)) (Cut c xs))"

text \<open>\<open>strings.Split\<close> at a one-byte separator: \<open>n\<close> occurrences give \<open>n + 1\<close> parts.\<close>

fun Split :: "char \<Rightarrow> string \<Rightarrow> string list" where
  "Split c [] = [[]]"
| "Split c (x # xs) =
     (if x = c then [] # Split c xs
      else (case Split c xs of [] \<Rightarrow> [[x]] | p # ps \<Rightarrow> (x # p) # ps))"

fun Join :: "string list \<Rightarrow> string \<Rightarrow> string" where
  "Join [] sep = []"
| "Join [s] sep = s"
| "Join (s # t # ss) sep = s @ sep @ Join (t # ss) sep"

lemma Split_not_Nil [simp]: "Split c s \<noteq> []"
  by (cases s) (auto split: list.splits)

lemma Join_Split [simp]: "Join (Split c s) [c] = s"
proof (induction s)
  case (Cons x xs)
  obtain p ps where "Split c xs = p # ps" by (meson Split_not_Nil neq_Nil_conv)
  with Cons show ?case by (cases ps) auto
qed simp

lemma Cut_Some:
  "Cut c s = Some (a, b) \<longleftrightarrow> s = a @ c # b \<and> c \<notin> set a"
proof (induction s arbitrary: a)
  case (Cons x xs)
  show ?case
  proof (cases "x = c")
    case False
    then have "Cut c (x # xs) = Some (a, b) \<longleftrightarrow> (\<exists>a'. a = x # a' \<and> Cut c xs = Some (a', b))"
      by auto
    also have "\<dots> \<longleftrightarrow> x # xs = a @ c # b \<and> c \<notin> set a"
      using False by (cases a) (auto simp: Cons.IH)
    finally show ?thesis .
  qed (cases a; auto)
qed simp

lemma Cut_None: "Cut c s = None \<longleftrightarrow> c \<notin> set s"
  by (induction s) auto

lemma HasPrefix_append [simp]: "HasPrefix (p @ s) p"
  by (simp add: HasPrefix_def)

lemma HasPrefix_conv: "HasPrefix s p \<longleftrightarrow> (\<exists>r. s = p @ r)"
proof
  assume "HasPrefix s p"
  then have "p @ drop (length p) s = s"
    using append_take_drop_id [of "length p" s] by (simp add: HasPrefix_def)
  then show "\<exists>r. s = p @ r" by metis
qed auto

text \<open>
  \<open>bufio.Scanner\<close> with \<open>ScanLines\<close>: the lines without their terminator and one trailing
  carriage return; a last line without terminator counts unless it is empty. A line that does
  not fit the buffer of 64 KiB with its terminator ends the scan with an error.
\<close>

definition max_token :: nat where "max_token = 65536"

definition drop_cr :: "string \<Rightarrow> string" where
  "drop_cr s = (if s \<noteq> [] \<and> last s = CHR 13 then butlast s else s)"

definition raw_lines :: "string \<Rightarrow> string list" where
  "raw_lines s = (let ls = Split (CHR 10) s in if last ls = [] then butlast ls else ls)"

fun scan_lines :: "string list \<Rightarrow> string list \<times> bool" where
  "scan_lines [] = ([], True)"
| "scan_lines (l # ls) =
     (if length l < max_token then (let (r, ok) = scan_lines ls in (drop_cr l # r, ok))
      else ([], False))"

section \<open>Hexadecimal\<close>

definition hex_digit :: "nat \<Rightarrow> char" where
  "hex_digit n = (if n < 10 then char_of (48 + n) else char_of (87 + n))"

definition hex_encode :: "string \<Rightarrow> string" where
  "hex_encode s = concat (map (\<lambda>c. [hex_digit (byte c div 16), hex_digit (byte c mod 16)]) s)"

lemma hex_digit_inj: "a < 16 \<Longrightarrow> b < 16 \<Longrightarrow> hex_digit a = hex_digit b \<Longrightarrow> a = b"
proof -
  assume a: "a < 16" "b < 16" "hex_digit a = hex_digit b"
  have *: "byte (hex_digit n) = (if n < 10 then 48 + n else 87 + n)" if "n < 16" for n
    using that by (simp add: hex_digit_def)
  have "byte (hex_digit a) = byte (hex_digit b)" using a(3) by simp
  then show "a = b" unfolding * [OF a(1)] * [OF a(2)] using a(1,2) by (auto split: if_splits)
qed

lemma byte_split_eq:
  "byte c div 16 = byte d div 16 \<Longrightarrow> byte c mod 16 = byte d mod 16 \<Longrightarrow> c = d"
  by (metis div_mult_mod_eq of_char_eq_iff)

lemma byte_less_256 [simp]: "byte c < 256"
  by (rule nat_of_char_less_256)

lemma hex_encode_simps [simp]:
  "hex_encode [] = []"
  "hex_encode (c # s) = hex_digit (byte c div 16) # hex_digit (byte c mod 16) # hex_encode s"
  by (simp_all add: hex_encode_def)

lemma hex_encode_inj: "hex_encode s = hex_encode t \<Longrightarrow> s = t"
proof (induction s arbitrary: t)
  case Nil
  then show ?case by (cases t) auto
next
  case (Cons c s)
  then obtain d t' where t: "t = d # t'" by (cases t) auto
  have lt: "byte c div 16 < 16" "byte d div 16 < 16" by (simp_all add: less_mult_imp_div_less)
  from Cons.prems t have eq: "hex_digit (byte c div 16) = hex_digit (byte d div 16)"
    "hex_digit (byte c mod 16) = hex_digit (byte d mod 16)" "hex_encode s = hex_encode t'"
    by simp_all
  have "byte c div 16 = byte d div 16" using lt eq(1) by (rule hex_digit_inj)
  moreover have "byte c mod 16 = byte d mod 16" using eq(2) by (intro hex_digit_inj) simp_all
  ultimately have "c = d" by (rule byte_split_eq)
  with Cons.IH [OF eq(3)] t show ?case by simp
qed

lemma hex_encode_Nil_iff [simp]: "hex_encode s = [] \<longleftrightarrow> s = []"
  by (cases s) auto

text \<open>Every character of a hexadecimal text is a digit or a letter from a to f.\<close>

definition is_hex :: "char \<Rightarrow> bool" where
  "is_hex c \<longleftrightarrow> 48 \<le> byte c \<and> byte c \<le> 57 \<or> 97 \<le> byte c \<and> byte c \<le> 102"

lemma is_hex_hex_digit: "n < 16 \<Longrightarrow> is_hex (hex_digit n)"
  by (auto simp: is_hex_def hex_digit_def)

lemma is_hex_hex_encode: "list_all is_hex (hex_encode s)"
proof (induction s)
  case (Cons c s)
  have "byte c div 16 < 16" by (simp add: less_mult_imp_div_less)
  then have "is_hex (hex_digit (byte c div 16))" "is_hex (hex_digit (byte c mod 16))"
    by (simp_all add: is_hex_hex_digit)
  with Cons show ?case by simp
qed simp

section \<open>File paths\<close>

text \<open>
  \<open>filepath.Clean\<close> resolves \<open>.\<close> and \<open>..\<close> lexically; \<open>clean_parts\<close> keeps the components
  resolved so far, the last one first.
\<close>

fun clean_parts :: "bool \<Rightarrow> string list \<Rightarrow> string list \<Rightarrow> string list" where
  "clean_parts rooted [] st = rev st"
| "clean_parts rooted (p # ps) st =
     (if p = [] \<or> p = ''.'' then clean_parts rooted ps st
      else if p = ''..'' then
        (case st of [] \<Rightarrow> clean_parts rooted ps (if rooted then [] else [''..''])
         | q # qs \<Rightarrow> clean_parts rooted ps (if q = ''..'' then ''..'' # st else qs))
      else clean_parts rooted ps (p # st))"

definition Clean :: "string \<Rightarrow> string" where
  "Clean path =
     (let rooted = HasPrefix path ''/'';
          out = Join (clean_parts rooted (Split (CHR ''/'') path) []) ''/''
      in if rooted then CHR ''/'' # out else if out = [] then ''.'' else out)"

definition path_Join :: "string list \<Rightarrow> string" where
  "path_Join es = (let es' = dropWhile (\<lambda>e. e = []) es in if es' = [] then [] else Clean (Join es' ''/''))"

definition Base :: "string \<Rightarrow> string" where
  "Base path =
     (if path = [] then ''.''
      else let p = rev (dropWhile (\<lambda>c. c = CHR ''/'') (rev path))
           in if p = [] then ''/'' else rev (takeWhile (\<lambda>c. c \<noteq> CHR ''/'') (rev p)))"

end
