(* ===== verification/Jsonutil.thy ===== *)
theory Jsonutil
  imports Complex_Main GoStrings
begin

text \<open>
  \<^verbatim>\<open>internal/jsonutil/pycompat.go\<close>: the dynamic values (\<open>interface{}\<close>) a manifest is decoded into,
  and \<open>Marshal\<close>, which writes them the way Python's \<open>json.dumps(v, sort_keys=True)\<close> is meant to.
  The bytes it writes are what stage, input, device, mount and source IDs hash, so the lemmas
  here are about the bytes: they do not depend on the order in which maps are visited, a quoted
  string can be cut off the front of a text again, and they agree with Python's bytes exactly
  where the code's comment claims it, up to the characters \<open>encoding/json\<close> escapes and Python does
  not.
\<close>

section \<open>Dynamic values\<close>

text \<open>
  The values the type switch of \<open>marshalValue\<close> tells apart. A \<open>float64\<close> is not a number, an
  infinity, or a rational. \<open>GStringPtr\<close> and \<open>GIntPtr\<close> are \<open>*string\<close> and \<open>*int\<close>.
\<close>

datatype gofloat = FNaN | FInf bool | FFin rat

datatype gval =
    GNil
  | GBool bool
  | GNumber string
  | GInt int
  | GInt64 int
  | GFloat gofloat
  | GString string
  | GMap "(string \<times> gval) list"
  | GSlice "gval list"
  | GStringPtr "string option"
  | GIntPtr "int option"

type_synonym gobject = "(string, gval) gmap"

text \<open>
  The library functions that stay parameters of the model: \<open>crypto/sha256\<close>, the shortest \<open>'g'\<close>
  formatting of \<open>strconv.FormatFloat\<close>, the decoder \<open>json.Unmarshal\<close> into a
  \<open>map[string]interface{}\<close>, and the capacity the runtime gives a full slice to which one element
  is appended. Every theorem holds for every choice of them, unless it names what it needs.
\<close>

record golib =
  sha256 :: "string \<Rightarrow> string"
  formatG :: "rat \<Rightarrow> string"
  json_Unmarshal :: "string \<Rightarrow> gobject option"
  slice_grow :: "nat \<Rightarrow> nat"

text \<open>A library to evaluate examples with: the identity as a digest, doubling capacities.\<close>

definition demo_lib :: golib where
  "demo_lib = \<lparr>sha256 = (\<lambda>s. s), formatG = (\<lambda>q. ''0.5''), json_Unmarshal = (\<lambda>s. None),
     slice_grow = (\<lambda>n. if n = 0 then 1 else 2 * n)\<rparr>"

lemma demo_lib_simps [simp]:
  "sha256 demo_lib s = s" "json_Unmarshal demo_lib s = None"
  "slice_grow demo_lib n = (if n = 0 then 1 else 2 * n)"
  by (simp_all add: demo_lib_def)

text \<open>Type assertions \<open>v, _ := desc[k].(T)\<close>: the zero value when the key or the type is wrong.\<close>

definition get_string :: "gobject \<Rightarrow> string \<Rightarrow> string option" where
  "get_string m k = (case map_of m k of Some (GString s) \<Rightarrow> Some s | _ \<Rightarrow> None)"

definition get_string0 :: "gobject \<Rightarrow> string \<Rightarrow> string" where
  "get_string0 m k = (case get_string m k of Some s \<Rightarrow> s | None \<Rightarrow> [])"

definition get_map :: "gobject \<Rightarrow> string \<Rightarrow> gobject option" where
  "get_map m k = (case map_of m k of Some (GMap o') \<Rightarrow> Some o' | _ \<Rightarrow> None)"

definition get_map0 :: "gobject \<Rightarrow> string \<Rightarrow> gobject" where
  "get_map0 m k = (case get_map m k of Some o' \<Rightarrow> o' | None \<Rightarrow> [])"

definition get_slice :: "gobject \<Rightarrow> string \<Rightarrow> gval list option" where
  "get_slice m k = (case map_of m k of Some (GSlice xs) \<Rightarrow> Some xs | _ \<Rightarrow> None)"

text \<open>
  \<open>int(val)\<close> of a \<open>float64\<close> cuts off the fraction; out of range (where Go leaves the result to
  the implementation) it is the least \<open>int64\<close>, as on amd64.
\<close>

definition float_to_int :: "gofloat \<Rightarrow> int" where
  "float_to_int f =
     (case f of
        FFin q \<Rightarrow> (let i = (if 0 \<le> q then floor q else - floor (- q)) in
                   if min_int64 \<le> i \<and> i \<le> max_int64 then i else min_int64)
      | _ \<Rightarrow> min_int64)"

section \<open>Quoting strings\<close>

text \<open>
  \<open>json.Marshal\<close> of a string: the escapes of \<open>encoding/json\<close> with HTML escaping on, which is
  how \<open>marshalString\<close> calls it. Bytes below 128 are escaped one by one, an invalid UTF-8 byte
  becomes the escape of the replacement character, the line separators U+2028 and U+2029 are
  escaped, every other rune is copied.
\<close>

definition html_safe :: "char \<Rightarrow> bool" where
  "html_safe c \<longleftrightarrow> 32 \<le> byte c \<and> byte c < 128
     \<and> c \<notin> {CHR 0x22, CHR 0x5C, CHR ''<'', CHR ''>'', CHR ''&''}"

definition u_escape :: "nat \<Rightarrow> string" where
  "u_escape b = [CHR 0x5C, CHR ''u'', CHR ''0'', CHR ''0'', hex_digit (b div 16), hex_digit (b mod 16)]"

definition esc_ascii :: "char \<Rightarrow> string" where
  "esc_ascii c =
     (if html_safe c then [c]
      else if c = CHR 0x5C \<or> c = CHR 0x22 then [CHR 0x5C, c]
      else if c = CHR 8 then [CHR 0x5C, CHR ''b'']
      else if c = CHR 12 then [CHR 0x5C, CHR ''f'']
      else if c = CHR 10 then [CHR 0x5C, CHR ''n'']
      else if c = CHR 13 then [CHR 0x5C, CHR ''r'']
      else if c = CHR 9 then [CHR 0x5C, CHR ''t'']
      else u_escape (byte c))"

definition esc_invalid :: string where
  "esc_invalid = [CHR 0x5C, CHR ''u'', CHR ''f'', CHR ''f'', CHR ''f'', CHR ''d'']"

definition esc_rune :: "string \<Rightarrow> string" where
  "esc_rune r =
     (if map byte r = [226, 128, 168]
      then [CHR 0x5C, CHR ''u'', CHR ''2'', CHR ''0'', CHR ''2'', CHR ''8'']
      else if map byte r = [226, 128, 169]
      then [CHR 0x5C, CHR ''u'', CHR ''2'', CHR ''0'', CHR ''2'', CHR ''9'']
      else r)"

function json_esc :: "string \<Rightarrow> string" where
  "json_esc [] = []"
| "json_esc (c # cs) =
     (if byte c < 128 then esc_ascii c @ json_esc cs
      else if rune_width (c # cs) = 0 then esc_invalid @ json_esc cs
      else esc_rune (take (rune_width (c # cs)) (c # cs)) @ json_esc (drop (rune_width (c # cs)) (c # cs)))"
  by pat_completeness auto
termination by (relation "measure length") auto

declare json_esc.simps(2) [simp del]

definition marshalString :: "string \<Rightarrow> string" where
  "marshalString s = CHR 0x22 # json_esc s @ [CHR 0x22]"

section \<open>Marshal\<close>

datatype marshal_err = UnsupportedValue gofloat

definition marshalFloat :: "golib \<Rightarrow> gofloat \<Rightarrow> marshal_err + string" where
  "marshalFloat L f =
     (case f of
        FFin q \<Rightarrow>
          Inr (if of_int (floor q) = q \<and> \<bar>q\<bar> < 10 ^ 18 then Itoa (floor q) else formatG L q)
      | _ \<Rightarrow> Inl (UnsupportedValue f))"

text \<open>The entries of a map by ascending key, the first error in that order ending the loop.\<close>

definition marshalMap :: "(string \<times> (marshal_err + string)) list \<Rightarrow> marshal_err + string" where
  "marshalMap rs =
     bindR (sequenceR (map (\<lambda>(k, r). bindR r (\<lambda>t. Inr (marshalString k @ '': '' @ t))) (sort_key fst rs)))
       (\<lambda>es. Inr (''{'' @ Join es '', '' @ ''}''))"

definition marshalSlice :: "(marshal_err + string) list \<Rightarrow> marshal_err + string" where
  "marshalSlice rs = bindR (sequenceR rs) (\<lambda>es. Inr (''['' @ Join es '', '' @ '']''))"

lemma size_snd_less [termination_simp]:
  "(k, v) \<in> set m \<Longrightarrow> size v < Suc (size_list (size_prod (\<lambda>x. 0) size) m)"
  by (induction m) auto

fun marshalValue :: "golib \<Rightarrow> gval \<Rightarrow> marshal_err + string" where
  "marshalValue L GNil = Inr ''null''"
| "marshalValue L (GBool b) = Inr (if b then ''true'' else ''false'')"
| "marshalValue L (GNumber n) = Inr n"
| "marshalValue L (GInt i) = Inr (Itoa i)"
| "marshalValue L (GInt64 i) = Inr (Itoa i)"
| "marshalValue L (GFloat f) = marshalFloat L f"
| "marshalValue L (GString s) = Inr (marshalString s)"
| "marshalValue L (GMap m) = marshalMap (map (\<lambda>(k, v). (k, marshalValue L v)) m)"
| "marshalValue L (GSlice xs) = marshalSlice (map (marshalValue L) xs)"
| "marshalValue L (GStringPtr p) =
     Inr (case p of None \<Rightarrow> ''null'' | Some s \<Rightarrow> marshalString s)"
| "marshalValue L (GIntPtr p) = Inr (case p of None \<Rightarrow> ''null'' | Some i \<Rightarrow> Itoa i)"

definition Marshal :: "golib \<Rightarrow> gval \<Rightarrow> marshal_err + string" where
  "Marshal L v = marshalValue L v"

text \<open>\<open>b, _ := jsonutil.Marshal(v); h.Write(b)\<close>: on an error nothing is written.\<close>

definition marshal_bytes :: "golib \<Rightarrow> gval \<Rightarrow> string" where
  "marshal_bytes L v = (case Marshal L v of Inl e \<Rightarrow> [] | Inr b \<Rightarrow> b)"

section \<open>Map order does not matter\<close>

text \<open>
  Two values that differ only in the order in which some runtime lists the entries of their
  maps, at any depth.
\<close>

inductive same_value :: "gval \<Rightarrow> gval \<Rightarrow> bool" where
  refl: "same_value v v"
| slice: "list_all2 same_value xs ys \<Longrightarrow> same_value (GSlice xs) (GSlice ys)"
| obj: "gmap_ok m \<Longrightarrow> mset m = mset m'' \<Longrightarrow>
     list_all2 (\<lambda>e e'. fst e = fst e' \<and> same_value (snd e) (snd e')) m'' m' \<Longrightarrow>
     same_value (GMap m) (GMap m')"

lemma marshalMap_perm:
  assumes "mset rs = mset rs'" "gmap_ok rs"
  shows "marshalMap rs = marshalMap rs'"
  using sort_key_fst_perm [OF assms] by (simp add: marshalMap_def)

lemma Marshal_same_value: "same_value v w \<Longrightarrow> Marshal L v = Marshal L w"
proof (induction rule: same_value.induct)
  case (slice xs ys)
  then have "map (marshalValue L) xs = map (marshalValue L) ys"
    by (auto simp: list_all2_conv_all_nth Marshal_def intro!: nth_equalityI)
  then show ?case by (simp add: Marshal_def)
next
  case (obj m m'' m')
  let ?f = "\<lambda>(k, v). (k, marshalValue L v)"
  have "map ?f m'' = map ?f m'"
    using obj.IH by (auto simp: list_all2_conv_all_nth Marshal_def split_beta intro!: nth_equalityI)
  moreover have "mset (map ?f m) = mset (map ?f m'')" using obj.hyps(2) by simp
  moreover have "gmap_ok (map ?f m)" using obj.hyps(1) by (simp add: gmap_ok_def split_beta comp_def)
  ultimately show ?case by (metis Marshal_def marshalMap_perm marshalValue.simps(8))
qed simp

lemma same_value_perm: "gmap_ok m \<Longrightarrow> mset m = mset m' \<Longrightarrow> same_value (GMap m) (GMap m')"
  by (rule same_value.obj) (auto simp: list_all2_conv_all_nth intro: same_value.refl)

section \<open>Quoted strings are self-delimiting\<close>

text \<open>Reading a quoted string up to its closing quote, as a JSON scanner does.\<close>

fun skip_string :: "string \<Rightarrow> string option" where
  "skip_string [] = None"
| "skip_string (c # cs) =
     (if c = CHR 0x22 then Some cs
      else if c = CHR 0x5C then (case cs of [] \<Rightarrow> None | d # ds \<Rightarrow> skip_string ds)
      else skip_string cs)"

lemma skip_string_plain:
  "CHR 0x22 \<notin> set xs \<Longrightarrow> CHR 0x5C \<notin> set xs \<Longrightarrow> skip_string (xs @ t) = skip_string t"
  by (induction xs) auto

lemma hex_digit_plain: "n < 16 \<Longrightarrow> hex_digit n \<noteq> CHR 0x22 \<and> hex_digit n \<noteq> CHR 0x5C"
  using is_hex_hex_digit [of n] by (auto simp: is_hex_def)

lemma skip_string_esc_ascii: "skip_string (esc_ascii c @ t) = skip_string t"
proof -
  have "byte c div 16 < 16" by (simp add: less_mult_imp_div_less)
  then show ?thesis
    by (auto simp: esc_ascii_def u_escape_def html_safe_def hex_digit_plain)
qed

lemma rune_width_bytes_high:
  "128 \<le> b0 \<Longrightarrow> list_all (\<lambda>b. 128 \<le> b) (take (rune_width_bytes (b0 # bs)) (b0 # bs))"
  by (cases bs; cases "tl bs"; cases "tl (tl bs)")
    (simp_all add: rune_width_bytes_def cont_byte_def)

lemma take_map_take: "n \<le> k \<Longrightarrow> map f (take n xs) = take n (map f (take k xs))"
  by (simp add: take_map min_def)

lemma rune_width_high:
  assumes "128 \<le> byte c" "d \<in> set (take (rune_width (c # cs)) (c # cs))"
  shows "128 \<le> byte d"
proof -
  let ?bs = "map byte (take 4 (c # cs))"
  have le: "rune_width_bytes ?bs \<le> 4"
    using rune_width_bytes_le [of ?bs] by simp
  have "byte d \<in> set (map byte (take (rune_width (c # cs)) (c # cs)))" using assms(2) by force
  also have "map byte (take (rune_width (c # cs)) (c # cs)) = take (rune_width_bytes ?bs) ?bs"
    unfolding rune_width_def using le by (rule take_map_take)
  finally show ?thesis
    using rune_width_bytes_high [of "byte c" "map byte (take 3 cs)"] assms(1)
    by (simp add: list_all_iff)
qed

lemma skip_string_json_esc: "skip_string (json_esc s @ CHR 0x22 # t) = Some t"
proof (induction s rule: json_esc.induct)
  case (2 c cs)
  have plain: "skip_string (take (rune_width (c # cs)) (c # cs) @ u) = skip_string u"
    if "\<not> byte c < 128" for u
    by (rule skip_string_plain) (use that rune_width_high [of c _ cs] in force)+
  from 2 show ?case
    by (auto simp: json_esc.simps(2) skip_string_esc_ascii esc_invalid_def esc_rune_def plain
        simp del: take_Suc_Cons)
qed simp

lemma marshalString_append_inj:
  assumes "marshalString s @ r = marshalString s' @ r'"
  shows "marshalString s = marshalString s' \<and> r = r'"
proof -
  from assms have "skip_string (json_esc s @ CHR 0x22 # r) = skip_string (json_esc s' @ CHR 0x22 # r')"
    by (simp add: marshalString_def)
  then have "r = r'" by (simp add: skip_string_json_esc)
  with assms show ?thesis by simp
qed

lemma json_esc_safe: "list_all html_safe s \<Longrightarrow> json_esc s = s"
  by (induction s) (auto simp: json_esc.simps(2) esc_ascii_def html_safe_def)

lemma marshalString_inj_safe:
  "marshalString s = marshalString t \<Longrightarrow> list_all html_safe s \<Longrightarrow> list_all html_safe t \<Longrightarrow> s = t"
  by (simp add: marshalString_def json_esc_safe)

lemma is_hex_html_safe: "is_hex c \<Longrightarrow> html_safe c"
  by (auto simp: is_hex_def html_safe_def)

lemma hex_encode_html_safe: "list_all html_safe (hex_encode s)"
  using is_hex_hex_encode [of s] by (auto simp: list_all_iff is_hex_html_safe)

end
