(* ===== verification/JsonPython.thy ===== *)
theory JsonPython
  imports Jsonutil
begin

text \<open>
  The reference for \<^verbatim>\<open>internal/jsonutil/pycompat.go\<close>: what \<open>json.dumps(v, sort_keys=True)\<close> of
  CPython prints for a decoded manifest, as its documentation describes it (keys sorted,
  separators \<open>", "\<close> and \<open>": "\<close>, \<open>ensure_ascii\<close> on). \<open>Marshal\<close> is compared with it value by
  value: the two agree on \<open>py_compat\<close> values, and on ASCII strings \<open>py_compat\<close> is exact.
\<close>

section \<open>The reference\<close>

text \<open>How CPython prints a number literal that is not an integer stays a parameter.\<close>

record pylib =
  py_float :: "string \<Rightarrow> string"
  py_gofloat :: "gofloat \<Rightarrow> string"

definition hex4 :: "nat \<Rightarrow> string" where
  "hex4 n = [hex_digit (n div 4096 mod 16), hex_digit (n div 256 mod 16),
     hex_digit (n div 16 mod 16), hex_digit (n mod 16)]"

definition py_u :: "nat \<Rightarrow> string" where
  "py_u n = CHR 0x5C # CHR ''u'' # hex4 n"

definition py_esc_ascii :: "char \<Rightarrow> string" where
  "py_esc_ascii c =
     (if c = CHR 0x5C \<or> c = CHR 0x22 then [CHR 0x5C, c]
      else if c = CHR 10 then [CHR 0x5C, CHR ''n'']
      else if c = CHR 13 then [CHR 0x5C, CHR ''r'']
      else if c = CHR 9 then [CHR 0x5C, CHR ''t'']
      else if c = CHR 12 then [CHR 0x5C, CHR ''f'']
      else if c = CHR 8 then [CHR 0x5C, CHR ''b'']
      else if 32 \<le> byte c \<and> byte c \<le> 126 then [c]
      else py_u (byte c))"

text \<open>A rune outside the basic plane is printed as a surrogate pair.\<close>

definition py_esc_rune :: "nat \<Rightarrow> string" where
  "py_esc_rune r =
     (if r < 65536 then py_u r
      else py_u (55296 + (r - 65536) div 1024) @ py_u (56320 + (r - 65536) mod 1024))"

function py_esc :: "string \<Rightarrow> string" where
  "py_esc [] = []"
| "py_esc (c # cs) =
     (if byte c < 128 then py_esc_ascii c @ py_esc cs
      else py_esc_rune (fst (decode_rune (c # cs)))
        @ py_esc (drop (rune_width (c # cs) - 1) cs))"
  by pat_completeness auto
termination by (relation "measure length") auto

declare py_esc.simps(2) [simp del]

definition py_string :: "string \<Rightarrow> string" where
  "py_string s = CHR 0x22 # py_esc s @ [CHR 0x22]"

text \<open>The integer a literal denotes; Python's integers are unbounded.\<close>

definition py_int :: "string \<Rightarrow> int" where
  "py_int n = (case Atoi_parts n of None \<Rightarrow> 0
     | Some (neg, ds) \<Rightarrow> if neg then - int (digits_val ds) else int (digits_val ds))"

definition is_int_literal :: "string \<Rightarrow> bool" where
  "is_int_literal n \<longleftrightarrow> Atoi_parts n \<noteq> None"

definition py_object :: "(string \<times> string) list \<Rightarrow> string" where
  "py_object es = ''{'' @ Join (map (\<lambda>(k, t). py_string k @ '': '' @ t) (sort_key fst es)) '', '' @ ''}''"

fun py_dumps :: "pylib \<Rightarrow> gval \<Rightarrow> string" where
  "py_dumps P GNil = ''null''"
| "py_dumps P (GBool b) = (if b then ''true'' else ''false'')"
| "py_dumps P (GNumber n) = (if is_int_literal n then Itoa (py_int n) else py_float P n)"
| "py_dumps P (GInt i) = Itoa i"
| "py_dumps P (GInt64 i) = Itoa i"
| "py_dumps P (GFloat f) = py_gofloat P f"
| "py_dumps P (GString s) = py_string s"
| "py_dumps P (GMap m) = py_object (map (\<lambda>(k, v). (k, py_dumps P v)) m)"
| "py_dumps P (GSlice xs) = ''['' @ Join (map (py_dumps P) xs) '', '' @ '']''"
| "py_dumps P (GStringPtr p) = (case p of None \<Rightarrow> ''null'' | Some s \<Rightarrow> py_string s)"
| "py_dumps P (GIntPtr p) = (case p of None \<Rightarrow> ''null'' | Some i \<Rightarrow> Itoa i)"

section \<open>Where the two agree\<close>

definition is_ascii :: "string \<Rightarrow> bool" where
  "is_ascii s \<longleftrightarrow> list_all (\<lambda>c. byte c < 128) s"

definition py_plain :: "string \<Rightarrow> bool" where
  "py_plain s \<longleftrightarrow> list_all (\<lambda>c. byte c < 127 \<and> c \<notin> {CHR ''<'', CHR ''>'', CHR ''&''}) s"

text \<open>
  The values on which the claim of the comment holds: integers in canonical form, and strings
  (map keys included) over ASCII without \<open><\<close>, \<open>>\<close>, \<open>&\<close> and DEL.
\<close>

fun py_compat :: "gval \<Rightarrow> bool" where
  "py_compat (GNumber n) = (is_int_literal n \<and> n = Itoa (py_int n))"
| "py_compat (GFloat f) = False"
| "py_compat (GString s) = py_plain s"
| "py_compat (GMap m) = (\<forall>e \<in> set m. py_plain (fst e) \<and> py_compat (snd e))"
| "py_compat (GSlice xs) = (\<forall>x \<in> set xs. py_compat x)"
| "py_compat (GStringPtr p) = (case p of None \<Rightarrow> True | Some s \<Rightarrow> py_plain s)"
| "py_compat _ = True"

lemma char_of_48: "char_of (48::nat) = CHR ''0''"
  by (simp add: char_of_eq_iff)

lemma hex4_small: "n < 256 \<Longrightarrow> hex4 n = [CHR ''0'', CHR ''0'', hex_digit (n div 16), hex_digit (n mod 16)]"
  by (simp add: hex4_def hex_digit_def char_of_48)

lemma py_esc_ascii_eq:
  assumes "byte c < 127" "c \<notin> {CHR ''<'', CHR ''>'', CHR ''&''}"
  shows "esc_ascii c = py_esc_ascii c"
proof (cases "32 \<le> byte c")
  case True
  then have "c \<noteq> CHR 10" "c \<noteq> CHR 13" "c \<noteq> CHR 9" "c \<noteq> CHR 12" "c \<noteq> CHR 8" by auto
  with True assms show ?thesis
    by (simp add: esc_ascii_def py_esc_ascii_def html_safe_def)
next
  case False
  then have "\<not> html_safe c" "c \<noteq> CHR 0x5C" "c \<noteq> CHR 0x22" by (auto simp: html_safe_def)
  moreover have "u_escape (byte c) = py_u (byte c)"
    using False by (simp add: u_escape_def py_u_def hex4_small)
  ultimately show ?thesis
    using False by (simp add: esc_ascii_def py_esc_ascii_def)
qed

lemma json_esc_py: "py_plain s \<Longrightarrow> json_esc s = py_esc s"
  by (induction s) (auto simp: py_plain_def json_esc.simps(2) py_esc.simps(2) py_esc_ascii_eq)

lemma marshalString_py: "py_plain s \<Longrightarrow> marshalString s = py_string s"
  by (simp add: marshalString_def py_string_def json_esc_py)

lemma map_sort_key_fst:
  "sort_key fst (map (\<lambda>(k, v). (k, f v)) m) = map (\<lambda>(k, v). (k, f v)) (sort_key fst m)"
proof -
  have ins: "insort_key fst (x, f y) (map (\<lambda>(k, v). (k, f v)) l)
      = map (\<lambda>(k, v). (k, f v)) (insort_key fst (x, y) l)" for x y l
    by (induction l) auto
  show ?thesis
  proof (induction m)
    case (Cons e m)
    then show ?case using ins [of "fst e" "snd e"] by (cases e) simp
  qed simp
qed

lemma sequenceR_map_Inr: "(\<And>x. x \<in> set xs \<Longrightarrow> f x = Inr (g x)) \<Longrightarrow> sequenceR (map f xs) = Inr (map g xs)"
  by (simp add: sequenceR_Inr)

lemma marshalMap_Inr:
  assumes "\<And>k v. (k, v) \<in> set m \<Longrightarrow> py_plain k"
  shows "marshalMap (map (\<lambda>(k, v). (k, Inr (f v))) m) = Inr (py_object (map (\<lambda>(k, v). (k, f v)) m))"
proof -
  have "sequenceR (map (\<lambda>(k, r). bindR r (\<lambda>t. Inr (marshalString k @ '': '' @ t)))
          (sort_key fst (map (\<lambda>(k, v). (k, Inr (f v))) m)))
      = (Inr (map (\<lambda>(k, t). py_string k @ '': '' @ t) (sort_key fst (map (\<lambda>(k, v). (k, f v)) m)))
          :: marshal_err + string list)"
    using assms
    by (auto simp: map_sort_key_fst comp_def split_beta intro!: sequenceR_map_Inr marshalString_py)
  then show ?thesis unfolding marshalMap_def py_object_def by (simp only: bindR_simps)
qed

text \<open>C17: \<open>Marshal\<close> prints exactly what Python's \<open>json.dumps(v, sort_keys=True)\<close> prints, for every
  value made of null, booleans, canonical integers, lists, objects and strings over ASCII without
  \<open><\<close>, \<open>>\<close>, \<open>&\<close> and DEL; it returns no error there.\<close>

theorem Marshal_equals_python:
  assumes "py_compat v"
  shows "Marshal L v = Inr (py_dumps P v)"
  using assms
proof (induction v rule: py_compat.induct)
  case (4 m)
  have eq: "map (\<lambda>(k, v). (k, marshalValue L v)) m = map (\<lambda>(k, v). (k, Inr (py_dumps P v))) m"
    using 4 by (auto simp: Marshal_def)
  have "\<And>k v. (k, v) \<in> set m \<Longrightarrow> py_plain k" using 4 by auto
  then show ?case
    unfolding Marshal_def marshalValue.simps eq py_dumps.simps by (rule marshalMap_Inr)
next
  case (5 xs)
  then have "map (marshalValue L) xs = map (\<lambda>v. Inr (py_dumps P v)) xs" by (auto simp: Marshal_def)
  then show ?case by (simp add: Marshal_def marshalSlice_def sequenceR_map_Inr)
qed (auto simp: Marshal_def marshalString_py split: option.splits)

theorem Marshal_equals_python_witness:
  "\<forall>L P. Marshal L (GMap [(''b'', GNumber ''-12''), (''a'', GSlice [GString ''x/y'', GNil])])
     = Inr (py_dumps P (GMap [(''b'', GNumber ''-12''), (''a'', GSlice [GString ''x/y'', GNil])]))"
proof (intro allI Marshal_equals_python)
  have "py_int ''-12'' = -12" "is_int_literal ''-12''"
    by (simp_all add: py_int_def is_int_literal_def Atoi_parts_def is_digit_def digits_val_def digit_val_def)
  moreover have "Itoa (-12) = ''-12''"
    by (simp add: Itoa_def nat_str.simps digit_char_def char_of_eq_iff)
  ultimately show "py_compat (GMap [(''b'', GNumber ''-12''), (''a'', GSlice [GString ''x/y'', GNil])])"
    by (simp add: py_plain_def)
qed

lemma esc_ascii_differ:
  assumes "byte c < 128" "\<not> (byte c < 127 \<and> c \<notin> {CHR ''<'', CHR ''>'', CHR ''&''})"
  shows "esc_ascii c @ s \<noteq> py_esc_ascii c @ t"
proof -
  have "c = CHR ''<'' \<or> c = CHR ''>'' \<or> c = CHR ''&'' \<or> c = CHR 127"
  proof (cases "byte c < 127")
    case False
    with assms(1) have "byte c = byte (CHR 127)" by simp
    then show ?thesis by (simp only: of_char_eq_iff) simp
  qed (use assms(2) in auto)
  then show ?thesis
    by (elim disjE)
      (simp_all add: esc_ascii_def py_esc_ascii_def html_safe_def u_escape_def py_u_def)
qed

text \<open>The claim that the bytes are Python's is exact on the escapes: for an ASCII string the
  quoted text is Python's if and only if the string contains none of \<open><\<close>, \<open>>\<close>, \<open>&\<close> and DEL, so an
  option with such a character gets another stage ID than in Python.\<close>

theorem marshalString_python_iff:
  assumes "is_ascii s"
  shows "marshalString s = py_string s \<longleftrightarrow> py_plain s"
proof
  assume "marshalString s = py_string s"
  then have "json_esc s = py_esc s" by (simp add: marshalString_def py_string_def)
  with assms show "py_plain s"
  proof (induction s)
    case (Cons c s)
    then have c: "byte c < 128" by (simp add: is_ascii_def)
    with Cons.prems(2) have eq: "esc_ascii c @ json_esc s = py_esc_ascii c @ py_esc s"
      by (simp add: json_esc.simps(2) py_esc.simps(2))
    then have ok: "byte c < 127 \<and> c \<notin> {CHR ''<'', CHR ''>'', CHR ''&''}"
      using esc_ascii_differ [OF c] by blast
    with eq have "json_esc s = py_esc s" by (simp add: py_esc_ascii_eq)
    with Cons ok show ?case by (simp add: is_ascii_def py_plain_def)
  qed (simp add: py_plain_def)
qed (rule marshalString_py)

theorem marshalString_python_iff_witness:
  "marshalString ''a<b'' \<noteq> py_string ''a<b'' \<and> marshalString ''a-b'' = py_string ''a-b''"
  using marshalString_python_iff [of "''a<b''"] marshalString_python_iff [of "''a-b''"]
  by (simp add: is_ascii_def py_plain_def)

end
