(* ===== verification/OrderedMap.thy ===== *)
theory OrderedMap
  imports Prelude
begin

text \<open>
  \<^verbatim>\<open>manifest/orderedmap.go\<close>: the insertion-ordered map that holds the inputs, devices and mounts
  of a stage. The state is the code's: a slice of keys beside a Go map from keys to values.
  \<open>om_inv\<close> ties the two together and every operation keeps it; seen through \<open>om_items\<close>, the
  operations are those of an association list in insertion order.
\<close>

record 'v omap =
  om_keys :: "string list"
  om_values :: "string \<rightharpoonup> 'v"

definition NewOrderedMap :: "'v omap" where
  "NewOrderedMap = \<lparr>om_keys = [], om_values = Map.empty\<rparr>"

definition om_Set :: "'v omap \<Rightarrow> string \<Rightarrow> 'v \<Rightarrow> 'v omap" where
  "om_Set m key value =
     (let m' = (if om_values m key = None then m\<lparr>om_keys := om_keys m @ [key]\<rparr> else m)
      in m'\<lparr>om_values := (om_values m')(key \<mapsto> value)\<rparr>)"

definition om_Get :: "'v omap \<Rightarrow> string \<Rightarrow> 'v option" where
  "om_Get m key = om_values m key"

text \<open>The loop that cuts the first occurrence of the key out of the slice.\<close>

fun delete_key :: "string \<Rightarrow> string list \<Rightarrow> string list" where
  "delete_key key [] = []"
| "delete_key key (k # ks) = (if k = key then ks else k # delete_key key ks)"

definition om_Delete :: "'v omap \<Rightarrow> string \<Rightarrow> 'v omap" where
  "om_Delete m key =
     (if om_values m key = None then m
      else m\<lparr>om_values := (om_values m)(key := None), om_keys := delete_key key (om_keys m)\<rparr>)"

definition om_Keys :: "'v omap \<Rightarrow> string list" where
  "om_Keys m = om_keys m"

definition om_Len :: "'v omap \<Rightarrow> nat" where
  "om_Len m = length (om_keys m)"

text \<open>
  \<open>Range\<close> calls \<open>fn\<close> on the keys in order until it returns false. The callback works on the
  caller's state \<open>s\<close>; a key without a value (excluded by \<open>om_inv\<close>) would hand it the zero
  value, here \<open>None\<close>.
\<close>

fun range_keys :: "(string \<Rightarrow> 'v option \<Rightarrow> 's \<Rightarrow> bool \<times> 's) \<Rightarrow> (string \<rightharpoonup> 'v) \<Rightarrow> string list \<Rightarrow> 's \<Rightarrow> 's" where
  "range_keys fn vs [] s = s"
| "range_keys fn vs (k # ks) s =
     (let (continue, s') = fn k (vs k) s in if continue then range_keys fn vs ks s' else s')"

definition om_Range :: "'v omap \<Rightarrow> (string \<Rightarrow> 'v option \<Rightarrow> 's \<Rightarrow> bool \<times> 's) \<Rightarrow> 's \<Rightarrow> 's" where
  "om_Range m fn s = range_keys fn (om_values m) (om_keys m) s"

section \<open>Invariant and abstraction\<close>

definition om_inv :: "'v omap \<Rightarrow> bool" where
  "om_inv m \<longleftrightarrow> distinct (om_keys m) \<and> set (om_keys m) = dom (om_values m)"

definition om_items :: "'v omap \<Rightarrow> (string \<times> 'v) list" where
  "om_items m = map (\<lambda>k. (k, the (om_values m k))) (om_keys m)"

lemma delete_key_remove1: "delete_key key ks = remove1 key ks"
  by (induction ks) auto

lemma om_inv_New [simp]: "om_inv NewOrderedMap"
  by (simp add: om_inv_def NewOrderedMap_def)

lemma om_inv_Set [simp]: "om_inv m \<Longrightarrow> om_inv (om_Set m k v)"
  by (auto simp: om_inv_def om_Set_def Let_def)

lemma om_inv_Delete [simp]: "om_inv m \<Longrightarrow> om_inv (om_Delete m k)"
  by (auto simp: om_inv_def om_Delete_def delete_key_remove1)

lemma om_items_New [simp]: "om_items NewOrderedMap = []"
  by (simp add: om_items_def NewOrderedMap_def)

lemma map_fst_om_items [simp]: "map fst (om_items m) = om_keys m"
  by (simp add: om_items_def comp_def)

lemma map_of_om_items: "om_inv m \<Longrightarrow> map_of (om_items m) = om_values m"
  by (auto simp: om_items_def map_of_map_restrict om_inv_def restrict_map_def fun_eq_iff dom_def)

lemma fst_set_om_items [simp]: "fst ` set (om_items m) = set (om_keys m)"
  by (metis map_fst_om_items set_map)

lemma update_append_fresh: "k \<notin> fst ` set xs \<Longrightarrow> AList.update k v xs = xs @ [(k, v)]"
  by (induction xs) auto

lemma update_map_present:
  "distinct ks \<Longrightarrow> k \<in> set ks \<Longrightarrow>
   AList.update k v (map (\<lambda>x. (x, f x)) ks) = map (\<lambda>x. (x, if x = k then v else f x)) ks"
  by (induction ks) auto

lemma om_items_Set: "om_inv m \<Longrightarrow> om_items (om_Set m k v) = AList.update k v (om_items m)"
proof (cases "om_values m k = None")
  case True
  assume inv: "om_inv m"
  with True have "k \<notin> set (om_keys m)" by (auto simp: om_inv_def)
  with True show ?thesis
    by (auto simp: om_Set_def om_items_def update_append_fresh image_image)
next
  case False
  assume inv: "om_inv m"
  with False have k: "k \<in> set (om_keys m)" by (auto simp: om_inv_def)
  with inv False show ?thesis
    by (auto simp: om_Set_def om_items_def om_inv_def update_map_present)
qed

lemma om_items_Delete: "om_inv m \<Longrightarrow> om_items (om_Delete m k) = AList.delete k (om_items m)"
proof (cases "om_values m k = None")
  case True
  assume inv: "om_inv m"
  with True have "k \<notin> set (om_keys m)" by (auto simp: om_inv_def)
  with True show ?thesis by (simp add: om_Delete_def)
next
  case False
  assume inv: "om_inv m"
  then have "remove1 k (om_keys m) = filter (\<lambda>x. x \<noteq> k) (om_keys m)"
    by (auto simp: om_inv_def distinct_remove1_removeAll removeAll_filter_not_eq intro: filter_cong)
  with False show ?thesis
    by (auto simp: om_Delete_def om_items_def delete_key_remove1 AList.delete_eq filter_map comp_def
        intro!: map_cong filter_cong)
qed

text \<open>With no early stop, \<open>Range\<close> is a fold over the items.\<close>

lemma om_Range_fold:
  assumes "om_inv m"
  shows "om_Range m (\<lambda>k v s. (True, f k (the v) s)) s = fold (\<lambda>(k, v). f k v) (om_items m) s"
proof -
  have "range_keys (\<lambda>k v s. (True, f k (the v) s)) (om_values m) ks s
      = fold (\<lambda>(k, v). f k v) (map (\<lambda>k. (k, the (om_values m k))) ks) s" for ks s
    by (induction ks arbitrary: s) auto
  then show ?thesis by (simp add: om_Range_def om_items_def)
qed

section \<open>The contract the stage code relies on\<close>

text \<open>
  What the parser, \<open>Describe\<close> and the stage runner use of an ordered map: lookups after
  updates, and the keys in the order of their first insertion.
\<close>

locale ordered_dict =
  fixes empty :: 'm
    and put :: "'m \<Rightarrow> string \<Rightarrow> 'v \<Rightarrow> 'm"
    and get :: "'m \<Rightarrow> string \<Rightarrow> 'v option"
    and keys :: "'m \<Rightarrow> string list"
    and inv :: "'m \<Rightarrow> bool"
  assumes inv_empty: "inv empty"
    and inv_put: "inv m \<Longrightarrow> inv (put m k v)"
    and get_empty: "get empty k = None"
    and get_put: "inv m \<Longrightarrow> get (put m k v) k' = (if k' = k then Some v else get m k')"
    and keys_empty: "keys empty = []"
    and keys_put: "inv m \<Longrightarrow> keys (put m k v) = (if get m k = None then keys m @ [k] else keys m)"
    and get_keys: "inv m \<Longrightarrow> get m k \<noteq> None \<longleftrightarrow> k \<in> set (keys m)"
begin

definition puts :: "(string \<times> 'v) list \<Rightarrow> 'm \<Rightarrow> 'm" where
  "puts kvs m = fold (\<lambda>(k, v) m. put m k v) kvs m"

lemma puts_simps [simp]:
  "puts [] m = m"
  "puts ((k, v) # kvs) m = puts kvs (put m k v)"
  by (simp_all add: puts_def)

lemma inv_puts: "inv m \<Longrightarrow> inv (puts kvs m)"
  by (induction kvs arbitrary: m) (auto simp: inv_put)

lemma get_puts:
  "inv m \<Longrightarrow> get (puts kvs m) k = (case map_of (rev kvs) k of None \<Rightarrow> get m k | Some v \<Rightarrow> Some v)"
  by (induction kvs arbitrary: m) (auto simp: inv_put get_put map_add_def split: option.splits)

lemma keys_puts:
  "inv m \<Longrightarrow> distinct (map fst kvs) \<Longrightarrow> set (map fst kvs) \<inter> set (keys m) = {} \<Longrightarrow>
   keys (puts kvs m) = keys m @ map fst kvs"
proof (induction kvs arbitrary: m)
  case (Cons kv kvs)
  obtain k v where kv: "kv = (k, v)" by (cases kv)
  from Cons.prems kv have fresh: "get m k = None" using get_keys [of m k] by auto
  with Cons.prems(1) have "keys (put m k v) = keys m @ [k]" by (simp add: keys_put)
  with Cons.prems kv Cons.IH [of "put m k v"] show ?case by (auto simp: inv_put)
qed simp

end

interpretation om: ordered_dict NewOrderedMap om_Set om_Get om_Keys om_inv
  by unfold_locales
    (auto simp: NewOrderedMap_def om_Set_def om_Get_def om_Keys_def om_inv_def Let_def)

end
