(* ===== verification/Manifest.thy ===== *)
theory Manifest
  imports Jsonutil OrderedMap
begin

text \<open>
  \<^verbatim>\<open>manifest/manifest.go\<close> and \<^verbatim>\<open>manifest/id.go\<close>: the parsed manifest, the content-addressed IDs of
  its parts, and the lookups by name and by ID. Stages, inputs, devices and mounts are never
  written again once a pipeline is parsed (but for the checkpoint flag), so they are values here.
  Pipelines are different: \<open>byName\<close> keeps pointers into the backing array of the slice
  \<open>Pipelines\<close>, and an \<open>append\<close> that has to reallocate leaves those pointers at the old array.
  \<open>pl_ref\<close> keeps the two kinds of pointer apart.
\<close>

section \<open>Data\<close>

datatype device = Device
  (dev_Name: string) (dev_Type: string) (dev_ExecPath: string)
  (dev_Parent: "device option") (dev_Options: gobject)

record minput =
  in_Name :: string
  in_Type :: string
  in_ExecPath :: string
  in_Origin :: string
  in_Refs :: gobject
  in_Options :: gobject

record mount =
  mnt_Name :: string
  mnt_Type :: string
  mnt_ExecPath :: string
  mnt_Device :: "device option"
  mnt_Partition :: "int option"
  mnt_Target :: string
  mnt_Options :: gobject

record stage =
  st_Type :: string
  st_ExecPath :: string
  st_Caps :: "string list"
  st_Sources :: gobject
  st_Build :: "string option"
  st_Base :: "string option"
  st_Options :: gobject
  st_SourceEpoch :: "int option"
  st_Checkpoint :: bool
  st_Inputs :: "minput omap"
  st_Devices :: "device omap"
  st_Mounts :: "mount omap"

record runner =
  run_Name :: string
  run_Path :: string

record pipeline =
  pl_Name :: string
  pl_Build :: "string option"
  pl_Runner :: runner
  pl_Stages :: "stage list"
  pl_SourceEpoch :: "int option"

record source =
  src_Type :: string
  src_ExecPath :: string
  src_Items :: gobject
  src_Options :: gobject

text \<open>
  A pointer to a pipeline: \<open>Live i\<close> points at element \<open>i\<close> of the current backing array,
  \<open>Stale i p\<close> at element \<open>i\<close> of an array given up when the slice grew, whose fields are those of
  the copy \<open>p\<close>; the slice header \<open>Stages\<close> in it still shares its array with the live element.
\<close>

datatype pl_ref = Live nat | Stale nat pipeline

record manifest =
  mf_Metadata :: gobject
  mf_Pipelines :: "pipeline list"
  mf_cap :: nat
  mf_Sources :: "source list"
  mf_byName :: "string \<rightharpoonup> pl_ref"

definition deref :: "manifest \<Rightarrow> pl_ref \<Rightarrow> pipeline" where
  "deref m r = (case r of Live i \<Rightarrow> mf_Pipelines m ! i
     | Stale i p \<Rightarrow> p\<lparr>pl_Stages := pl_Stages (mf_Pipelines m ! i)\<rparr>)"

text \<open>\<open>m.Pipelines = append(m.Pipelines, p)\<close>.\<close>

definition append_pipeline :: "golib \<Rightarrow> manifest \<Rightarrow> pipeline \<Rightarrow> manifest" where
  "append_pipeline L m p =
     (if length (mf_Pipelines m) < mf_cap m then m\<lparr>mf_Pipelines := mf_Pipelines m @ [p]\<rparr>
      else m\<lparr>mf_Pipelines := mf_Pipelines m @ [p], mf_cap := slice_grow L (mf_cap m),
             mf_byName := (\<lambda>n. map_option
               (\<lambda>r. case r of Live i \<Rightarrow> Stale i (mf_Pipelines m ! i) | Stale i q \<Rightarrow> Stale i q)
               (mf_byName m n))\<rparr>)"

section \<open>Names and executables\<close>

definition Stage_Name :: "stage \<Rightarrow> string" where
  "Stage_Name s = st_Type s"

definition Pipeline_ModuleName :: "pipeline \<Rightarrow> string" where
  "Pipeline_ModuleName p = pl_Name p"

definition Source_ModuleName :: "source \<Rightarrow> string" where
  "Source_ModuleName s = ''source '' @ src_Type s"

definition Runner_Exec :: "runner \<Rightarrow> string" where
  "Runner_Exec r = Base (run_Path r)"

section \<open>IDs\<close>

text \<open>What each \<open>ID\<close> method writes to its digest, in the order of the writes.\<close>

definition digest_hex :: "golib \<Rightarrow> string \<Rightarrow> string" where
  "digest_hex L b = hex_encode (sha256 L b)"

definition Input_ID :: "golib \<Rightarrow> minput \<Rightarrow> string" where
  "Input_ID L ip = digest_hex L
     (marshal_bytes L (GString (in_Type ip)) @ marshal_bytes L (GString (in_Origin ip))
      @ marshal_bytes L (GMap (in_Refs ip)) @ marshal_bytes L (GMap (in_Options ip)))"

fun Device_ID :: "golib \<Rightarrow> device \<Rightarrow> string" where
  "Device_ID L (Device nm ty ex parent opts) = digest_hex L
     (marshal_bytes L (GString ty)
      @ (case parent of None \<Rightarrow> [] | Some d \<Rightarrow> marshal_bytes L (GString (Device_ID L d)))
      @ marshal_bytes L (GMap opts))"

definition Mount_ID :: "golib \<Rightarrow> mount \<Rightarrow> string" where
  "Mount_ID L m = digest_hex L
     (marshal_bytes L (GString (mnt_Type m))
      @ (case mnt_Device m of None \<Rightarrow> [] | Some d \<Rightarrow> marshal_bytes L (GString (Device_ID L d)))
      @ (case mnt_Partition m of None \<Rightarrow> [] | Some i \<Rightarrow> marshal_bytes L (GInt i))
      @ (if mnt_Target m \<noteq> [] then marshal_bytes L (GString (mnt_Target m)) else [])
      @ marshal_bytes L (GMap (mnt_Options m)))"

definition Source_ID :: "golib \<Rightarrow> source \<Rightarrow> string" where
  "Source_ID L s = digest_hex L
     (marshal_bytes L (GString (src_Type s)) @ marshal_bytes L (GMap (src_Items s)))"

definition input_ids :: "golib \<Rightarrow> stage \<Rightarrow> gobject" where
  "input_ids L s = map (\<lambda>(n, ip). (n, GString (Input_ID L ip))) (om_items (st_Inputs s))"

definition mount_ids :: "golib \<Rightarrow> stage \<Rightarrow> gval list" where
  "mount_ids L s = map (\<lambda>(n, m). GString (Mount_ID L m)) (om_items (st_Mounts s))"

definition stage_tail :: "golib \<Rightarrow> stage \<Rightarrow> string" where
  "stage_tail L s =
     marshal_bytes L (GMap (st_Options s))
     @ (case st_SourceEpoch s of None \<Rightarrow> [] | Some e \<Rightarrow> marshal_bytes L (GInt e))
     @ (if om_Len (st_Inputs s) > 0 then marshal_bytes L (GMap (input_ids L s)) else [])
     @ (if om_Len (st_Mounts s) > 0 then marshal_bytes L (GSlice (mount_ids L s)) else [])"

definition stage_preimage :: "golib \<Rightarrow> stage \<Rightarrow> string" where
  "stage_preimage L s =
     marshal_bytes L (GString (Stage_Name s)) @ marshal_bytes L (GStringPtr (st_Build s))
     @ marshal_bytes L (GStringPtr (st_Base s)) @ stage_tail L s"

definition Stage_ID :: "golib \<Rightarrow> stage \<Rightarrow> string" where
  "Stage_ID L s = digest_hex L (stage_preimage L s)"

definition Pipeline_ID :: "golib \<Rightarrow> pipeline \<Rightarrow> string" where
  "Pipeline_ID L p = (if pl_Stages p = [] then [] else Stage_ID L (last (pl_Stages p)))"

definition Pipeline_idPtr :: "golib \<Rightarrow> pipeline \<Rightarrow> string option" where
  "Pipeline_idPtr L p = (if pl_Stages p = [] then None else Some (Stage_ID L (last (pl_Stages p))))"

section \<open>Operations\<close>

text \<open>
  \<open>AddStage\<close> appends a stage and returns a pointer to it; the caller works on the last stage.
\<close>

definition AddStage :: "golib \<Rightarrow> pipeline \<Rightarrow> string \<Rightarrow> string \<Rightarrow> string list \<Rightarrow> gobject option \<Rightarrow> int option \<Rightarrow> pipeline" where
  "AddStage L p typ execPath caps options sourceEpoch =
     (let s = \<lparr>st_Type = typ, st_ExecPath = execPath, st_Caps = caps, st_Sources = [],
               st_Build = pl_Build p, st_Base = Pipeline_idPtr L p,
               st_Options = (case options of None \<Rightarrow> [] | Some o' \<Rightarrow> o'),
               st_SourceEpoch = sourceEpoch, st_Checkpoint = False,
               st_Inputs = NewOrderedMap, st_Devices = NewOrderedMap, st_Mounts = NewOrderedMap\<rparr>
      in p\<lparr>pl_Stages := pl_Stages p @ [s]\<rparr>)"

definition Pipeline_lookup :: "manifest \<Rightarrow> string \<Rightarrow> pipeline option" where
  "Pipeline_lookup m name = map_option (deref m) (mf_byName m name)"

definition PipelineByID :: "golib \<Rightarrow> manifest \<Rightarrow> string \<Rightarrow> pipeline option" where
  "PipelineByID L m id' = find (\<lambda>p. Pipeline_ID L p = id') (mf_Pipelines m)"

definition Stage_Dependencies :: "stage \<Rightarrow> string list" where
  "Stage_Dependencies s =
     concat (map (\<lambda>(n, ip). if in_Origin ip = ''org.osbuild.pipeline'' then gkeys (in_Refs ip) else [])
       (om_items (st_Inputs s)))"

section \<open>IDs are independent of map order\<close>

lemma digest_hex_inj: "digest_hex L a = digest_hex L b \<Longrightarrow> sha256 L a = sha256 L b"
  unfolding digest_hex_def by (rule hex_encode_inj)

lemma marshal_bytes_same: "same_value v w \<Longrightarrow> marshal_bytes L v = marshal_bytes L w"
  by (simp add: marshal_bytes_def Marshal_same_value)

text \<open>
  Two runs over the same manifest may list the maps of an input in different orders and may
  insert the inputs of a stage in different orders; \<open>same_input\<close>, \<open>same_device\<close>, \<open>same_mount\<close> and
  \<open>same_stage\<close> relate the results of two such runs. Mounts come from an array and keep their order.
\<close>

definition same_input :: "minput \<Rightarrow> minput \<Rightarrow> bool" where
  "same_input a b \<longleftrightarrow> in_Type a = in_Type b \<and> in_Origin a = in_Origin b
     \<and> same_value (GMap (in_Refs a)) (GMap (in_Refs b))
     \<and> same_value (GMap (in_Options a)) (GMap (in_Options b))"

fun same_device :: "device \<Rightarrow> device \<Rightarrow> bool" where
  "same_device (Device nm ty ex parent opts) (Device nm' ty' ex' parent' opts') \<longleftrightarrow>
     ty = ty' \<and> same_value (GMap opts) (GMap opts')
     \<and> (case (parent, parent') of
          (None, None) \<Rightarrow> True
        | (Some d, Some d') \<Rightarrow> same_device d d'
        | _ \<Rightarrow> False)"

definition same_mount :: "mount \<Rightarrow> mount \<Rightarrow> bool" where
  "same_mount a b \<longleftrightarrow> mnt_Type a = mnt_Type b \<and> rel_option same_device (mnt_Device a) (mnt_Device b)
     \<and> mnt_Partition a = mnt_Partition b \<and> mnt_Target a = mnt_Target b
     \<and> same_value (GMap (mnt_Options a)) (GMap (mnt_Options b))"

definition same_stage :: "stage \<Rightarrow> stage \<Rightarrow> bool" where
  "same_stage s t \<longleftrightarrow> st_Type s = st_Type t \<and> st_Build s = st_Build t \<and> st_Base s = st_Base t
     \<and> same_value (GMap (st_Options s)) (GMap (st_Options t)) \<and> st_SourceEpoch s = st_SourceEpoch t
     \<and> om_inv (st_Inputs s) \<and> mset (om_keys (st_Inputs s)) = mset (om_keys (st_Inputs t))
     \<and> (\<forall>n \<in> set (om_keys (st_Inputs s)).
          same_input (the (om_values (st_Inputs s) n)) (the (om_values (st_Inputs t) n)))
     \<and> list_all2 (\<lambda>(n, a) (k, b). same_mount a b) (om_items (st_Mounts s)) (om_items (st_Mounts t))"

lemma Input_ID_same: "same_input a b \<Longrightarrow> Input_ID L a = Input_ID L b"
  by (auto simp: same_input_def Input_ID_def dest!: marshal_bytes_same [where L = L])

lemma Device_ID_same: "same_device d d' \<Longrightarrow> Device_ID L d = Device_ID L d'"
  by (induction d d' rule: same_device.induct)
    (auto dest!: marshal_bytes_same [where L = L] split: option.splits)

lemma Mount_ID_same: "same_mount a b \<Longrightarrow> Mount_ID L a = Mount_ID L b"
  by (auto simp: same_mount_def Mount_ID_def dest!: Device_ID_same [where L = L]
      marshal_bytes_same [where L = L] elim!: option.rel_cases)

lemma mount_ids_same:
  assumes "list_all2 (\<lambda>(n, a) (k, b). same_mount a b) (om_items (st_Mounts s)) (om_items (st_Mounts t))"
  shows "mount_ids L s = mount_ids L t" "om_Len (st_Mounts s) = om_Len (st_Mounts t)"
proof -
  show "mount_ids L s = mount_ids L t"
    using assms unfolding mount_ids_def by (induction rule: list_all2_induct) (auto simp: Mount_ID_same)
  show "om_Len (st_Mounts s) = om_Len (st_Mounts t)"
    using list_all2_lengthD [OF assms] by (simp add: om_Len_def om_items_def)
qed

lemma input_ids_same:
  assumes "same_stage s t"
  shows "gmap_ok (input_ids L s)" and "mset (input_ids L s) = mset (input_ids L t)"
proof -
  have inv: "distinct (om_keys (st_Inputs s))"
    using assms by (simp add: same_stage_def om_inv_def)
  then show "gmap_ok (input_ids L s)"
    by (simp add: gmap_ok_def input_ids_def om_items_def comp_def)
  let ?f = "\<lambda>u n. (n, GString (Input_ID L (the (om_values (st_Inputs u) n))))"
  have eq: "input_ids L u = map (?f u) (om_keys (st_Inputs u))" for u
    by (simp add: input_ids_def om_items_def comp_def)
  have "map (?f s) (om_keys (st_Inputs s)) = map (?f t) (om_keys (st_Inputs s))"
    using assms by (auto simp: same_stage_def intro: Input_ID_same)
  moreover have "mset (map (?f t) (om_keys (st_Inputs s))) = mset (map (?f t) (om_keys (st_Inputs t)))"
    using assms by (simp add: same_stage_def)
  ultimately show "mset (input_ids L s) = mset (input_ids L t)" by (simp only: eq)
qed

text \<open>C12: A stage ID does not depend on the order in which Go happens to range over the maps it is built
  from: neither the order in which the inputs were inserted, nor the order of the references of an input
  or of the options of the stage, of its inputs, of its mounts and of the devices these are on, at any
  depth, changes it.\<close>

theorem Stage_ID_order_independent:
  assumes "same_stage s t"
  shows "Stage_ID L s = Stage_ID L t"
proof -
  have "same_value (GMap (input_ids L s)) (GMap (input_ids L t))"
    using input_ids_same [OF assms] by (rule same_value_perm)
  moreover have "om_Len (st_Inputs s) = om_Len (st_Inputs t)"
    using assms mset_eq_length [of "om_keys (st_Inputs s)" "om_keys (st_Inputs t)"]
    by (simp add: same_stage_def om_Len_def)
  moreover have "same_value (GMap (st_Options s)) (GMap (st_Options t))"
    using assms by (simp add: same_stage_def)
  moreover have "mount_ids L s = mount_ids L t" "om_Len (st_Mounts s) = om_Len (st_Mounts t)"
    using assms by (auto simp: same_stage_def intro: mount_ids_same)
  ultimately have "stage_tail L s = stage_tail L t"
    using assms by (auto simp: stage_tail_def same_stage_def dest!: marshal_bytes_same [where L = L])
  with assms show ?thesis
    by (simp add: Stage_ID_def stage_preimage_def Stage_Name_def same_stage_def)
qed

definition demo_input :: "string \<Rightarrow> minput" where
  "demo_input ref = \<lparr>in_Name = ''i'', in_Type = ''org.osbuild.tree'', in_ExecPath = ''/lib/i'',
     in_Origin = ''org.osbuild.pipeline'', in_Refs = [(ref, GMap [])], in_Options = []\<rparr>"

definition demo_stage :: "minput omap \<Rightarrow> stage" where
  "demo_stage ins = \<lparr>st_Type = ''org.osbuild.rpm'', st_ExecPath = ''/lib/s'', st_Caps = [],
     st_Sources = [], st_Build = None, st_Base = None, st_Options = [], st_SourceEpoch = None,
     st_Checkpoint = False, st_Inputs = ins, st_Devices = NewOrderedMap, st_Mounts = NewOrderedMap\<rparr>"

text \<open>A stage with a mount on a partition of a disk, the options of both in a given order.\<close>

definition demo_mounted :: "minput omap \<Rightarrow> gobject \<Rightarrow> stage" where
  "demo_mounted ins opts = (demo_stage ins)\<lparr>st_Mounts := om_Set NewOrderedMap ''root''
     \<lparr>mnt_Name = ''root'', mnt_Type = ''org.osbuild.ext4'', mnt_ExecPath = ''/lib/m'',
      mnt_Device = Some (Device ''part'' ''org.osbuild.loopback'' ''/lib/d''
        (Some (Device ''disk'' ''org.osbuild.loopback'' ''/lib/d'' None opts)) opts),
      mnt_Partition = Some 1, mnt_Target = ''/'', mnt_Options = opts\<rparr>\<rparr>"

theorem Stage_ID_order_independent_witness:
  "\<forall>L. Stage_ID L (demo_mounted (om_Set (om_Set NewOrderedMap ''a'' (demo_input ''1'')) ''b'' (demo_input ''2''))
        [(''filename'', GString ''d''), (''size'', GInt 1)])
     = Stage_ID L (demo_mounted (om_Set (om_Set NewOrderedMap ''b'' (demo_input ''2'')) ''a'' (demo_input ''1''))
        [(''size'', GInt 1), (''filename'', GString ''d'')])"
proof (intro allI Stage_ID_order_independent)
  have opts: "same_value (GMap [(''filename'', GString ''d''), (''size'', GInt 1)]) (GMap [(''size'', GInt 1), (''filename'', GString ''d'')])"
    by (rule same_value_perm) (simp_all add: gmap_ok_def)
  show "same_stage (demo_mounted (om_Set (om_Set NewOrderedMap ''a'' (demo_input ''1'')) ''b'' (demo_input ''2''))
        [(''filename'', GString ''d''), (''size'', GInt 1)])
      (demo_mounted (om_Set (om_Set NewOrderedMap ''b'' (demo_input ''2'')) ''a'' (demo_input ''1''))
        [(''size'', GInt 1), (''filename'', GString ''d'')])"
    using opts
    by (auto simp: same_stage_def demo_mounted_def demo_stage_def same_input_def same_mount_def om_items_def
        om_Set_def NewOrderedMap_def om_inv_def intro: same_value.refl)
qed

lemma Stage_ID_nonempty: "Stage_ID demo_lib s \<noteq> []"
  using hex_encode_inj [of "stage_preimage demo_lib s" "[]"]
  by (auto simp: Stage_ID_def digest_hex_def hex_encode_def stage_preimage_def marshal_bytes_def Marshal_def marshalString_def)

section \<open>The chain of bases\<close>

text \<open>
  Every stage of a parsed pipeline names the stage before it as its base, and the build root and
  source epoch of its pipeline.
\<close>

fun chained :: "golib \<Rightarrow> string option \<Rightarrow> stage list \<Rightarrow> bool" where
  "chained L b [] = True"
| "chained L b (s # ss) = (st_Base s = b \<and> chained L (Some (Stage_ID L s)) ss)"

definition pipeline_chain :: "golib \<Rightarrow> pipeline \<Rightarrow> bool" where
  "pipeline_chain L p \<longleftrightarrow> chained L None (pl_Stages p)
     \<and> (\<forall>s \<in> set (pl_Stages p). st_Build s = pl_Build p \<and> st_SourceEpoch s = pl_SourceEpoch p)"

lemma chained_snoc:
  "chained L b (ss @ [s]) \<longleftrightarrow>
     chained L b ss \<and> st_Base s = (if ss = [] then b else Some (Stage_ID L (last ss)))"
  by (induction ss arbitrary: b) auto

lemma pipeline_chain_AddStage:
  "pipeline_chain L p \<Longrightarrow> pipeline_chain L (AddStage L p ty ex caps opts (pl_SourceEpoch p))"
  by (simp add: pipeline_chain_def AddStage_def Let_def chained_snoc Pipeline_idPtr_def)

lemma ptr_append_inj:
  assumes "marshal_bytes L (GStringPtr a) @ r = marshal_bytes L (GStringPtr b) @ r'"
  shows "marshal_bytes L (GStringPtr a) = marshal_bytes L (GStringPtr b) \<and> r = r' \<and> (a = None \<longleftrightarrow> b = None)"
proof (cases a; cases b)
  fix x y assume "a = Some x" "b = Some y"
  with assms show ?thesis
    using marshalString_append_inj [of x r y r'] by (simp add: marshal_bytes_def Marshal_def)
qed (use assms in \<open>auto simp: marshal_bytes_def Marshal_def marshalString_def\<close>)

lemma string_append_inj:
  assumes "marshal_bytes L (GString a) @ r = marshal_bytes L (GString b) @ r'"
  shows "marshal_bytes L (GString a) = marshal_bytes L (GString b) \<and> r = r'"
  using marshalString_append_inj [of a r b r'] assms by (simp add: marshal_bytes_def Marshal_def)

lemma stage_preimage_parts:
  assumes "stage_preimage L s = stage_preimage L t"
  shows "marshal_bytes L (GString (Stage_Name s)) = marshal_bytes L (GString (Stage_Name t))"
    and "marshal_bytes L (GStringPtr (st_Build s)) = marshal_bytes L (GStringPtr (st_Build t))"
    and "marshal_bytes L (GStringPtr (st_Base s)) = marshal_bytes L (GStringPtr (st_Base t))"
    and "st_Base s = None \<longleftrightarrow> st_Base t = None"
    and "stage_tail L s = stage_tail L t"
proof -
  note 1 = string_append_inj [OF assms [unfolded stage_preimage_def]]
  then show "marshal_bytes L (GString (Stage_Name s)) = marshal_bytes L (GString (Stage_Name t))"
    by simp
  note 2 = ptr_append_inj [OF conjunct2 [OF 1]]
  then show "marshal_bytes L (GStringPtr (st_Build s)) = marshal_bytes L (GStringPtr (st_Build t))"
    by simp
  note 3 = ptr_append_inj [OF conjunct1 [OF conjunct2 [OF 2]]]
  then show "marshal_bytes L (GStringPtr (st_Base s)) = marshal_bytes L (GStringPtr (st_Base t))"
    "st_Base s = None \<longleftrightarrow> st_Base t = None" "stage_tail L s = stage_tail L t"
    by simp_all
qed

lemma Stage_ID_ptr_inj:
  assumes "marshal_bytes L (GStringPtr (Some (Stage_ID L s))) = marshal_bytes L (GStringPtr (Some (Stage_ID L t)))"
  shows "sha256 L (stage_preimage L s) = sha256 L (stage_preimage L t)"
proof -
  have eq: "marshalString (Stage_ID L s) = marshalString (Stage_ID L t)"
    using assms by (simp add: marshal_bytes_def Marshal_def)
  have safe: "list_all html_safe (Stage_ID L u)" for u
    by (simp add: Stage_ID_def digest_hex_def hex_encode_html_safe)
  have "Stage_ID L s = Stage_ID L t" by (rule marshalString_inj_safe [OF eq safe safe])
  then show ?thesis unfolding Stage_ID_def by (rule digest_hex_inj)
qed

lemma chained_preimages:
  assumes "chained L None ss" "chained L None ts" "ss \<noteq> []" "ts \<noteq> []"
    and "inj_on (sha256 L) (stage_preimage L ` set (ss @ ts))"
    and "sha256 L (stage_preimage L (last ss)) = sha256 L (stage_preimage L (last ts))"
  shows "map (stage_preimage L) ss = map (stage_preimage L) ts"
  using assms
proof (induction ss arbitrary: ts rule: rev_induct)
  case (snoc s ss)
  obtain t ts' where ts: "ts = ts' @ [t]" using snoc.prems(4) by (cases ts rule: rev_cases) auto
  have pre: "stage_preimage L s = stage_preimage L t"
    using snoc.prems(5,6) ts by (auto dest: inj_onD)
  note parts = stage_preimage_parts [OF pre]
  have bases: "st_Base s = (if ss = [] then None else Some (Stage_ID L (last ss)))"
    "st_Base t = (if ts' = [] then None else Some (Stage_ID L (last ts')))"
    using snoc.prems(1,2) ts by (simp_all add: chained_snoc)
  show ?case
  proof (cases "ss = []")
    case True
    with bases parts(4) have "ts' = []" by (auto split: if_splits)
    with True ts pre show ?thesis by simp
  next
    case False
    with bases parts(4) have "ts' \<noteq> []" by (auto split: if_splits)
    with False bases parts(3) have "sha256 L (stage_preimage L (last ss)) = sha256 L (stage_preimage L (last ts'))"
      by (intro Stage_ID_ptr_inj) simp
    moreover have "inj_on (sha256 L) (stage_preimage L ` set (ss @ ts'))"
      using snoc.prems(5) ts by (auto intro: inj_on_subset)
    moreover have "chained L None ss" "chained L None ts'"
      using snoc.prems(1,2) ts by (simp_all add: chained_snoc)
    ultimately have "map (stage_preimage L) ss = map (stage_preimage L) ts'"
      using snoc.IH [of ts'] False \<open>ts' \<noteq> []\<close> by blast
    with pre ts show ?thesis by simp
  qed
qed simp

text \<open>C13: The ID of a pipeline identifies its whole history: if two pipelines with the same ID are built as
  the parser builds them and the digests of their stages do not collide, they have the same number
  of stages, and stage by stage the same type, build root and base and the same bytes for options,
  source epoch, inputs and mounts.\<close>

theorem Pipeline_ID_determines_history:
  assumes "pipeline_chain L p" "pipeline_chain L q" "pl_Stages p \<noteq> []" "pl_Stages q \<noteq> []"
    and "inj_on (sha256 L) (stage_preimage L ` set (pl_Stages p @ pl_Stages q))"
    and "Pipeline_ID L p = Pipeline_ID L q"
  shows "length (pl_Stages p) = length (pl_Stages q)
    \<and> (\<forall>i < length (pl_Stages p).
         let s = pl_Stages p ! i; t = pl_Stages q ! i in
         marshal_bytes L (GString (st_Type s)) = marshal_bytes L (GString (st_Type t))
         \<and> marshal_bytes L (GStringPtr (st_Build s)) = marshal_bytes L (GStringPtr (st_Build t))
         \<and> marshal_bytes L (GStringPtr (st_Base s)) = marshal_bytes L (GStringPtr (st_Base t))
         \<and> stage_tail L s = stage_tail L t)"
proof -
  have "sha256 L (stage_preimage L (last (pl_Stages p))) = sha256 L (stage_preimage L (last (pl_Stages q)))"
    using assms(3,4,6) by (auto simp: Pipeline_ID_def Stage_ID_def intro: digest_hex_inj)
  then have eq: "map (stage_preimage L) (pl_Stages p) = map (stage_preimage L) (pl_Stages q)"
    using assms by (intro chained_preimages) (simp_all add: pipeline_chain_def)
  then have len: "length (pl_Stages p) = length (pl_Stages q)" by (rule map_eq_imp_length_eq)
  have pre: "stage_preimage L (pl_Stages p ! i) = stage_preimage L (pl_Stages q ! i)"
    if "i < length (pl_Stages p)" for i
    using arg_cong [OF eq, of "\<lambda>xs. xs ! i"] that len by simp
  show ?thesis
    unfolding Let_def Stage_Name_def [symmetric]
    using len stage_preimage_parts(1,2,3,5) [OF pre] by blast
qed

definition demo_pipeline :: "string \<Rightarrow> string \<Rightarrow> pipeline" where
  "demo_pipeline name path =
     AddStage demo_lib (AddStage demo_lib
       \<lparr>pl_Name = name, pl_Build = None, pl_Runner = \<lparr>run_Name = [], run_Path = ''/r''\<rparr>,
        pl_Stages = [], pl_SourceEpoch = Some 1\<rparr>
       ''org.osbuild.rpm'' path [] None (Some 1)) ''org.osbuild.tar'' path [] None (Some 1)"

theorem Pipeline_ID_determines_history_witness:
  "length (pl_Stages (demo_pipeline ''os'' ''/lib'')) = length (pl_Stages (demo_pipeline ''image'' ''/usr''))"
proof -
  let ?p = "demo_pipeline ''os'' ''/lib''" and ?q = "demo_pipeline ''image'' ''/usr''"
  have chain: "pipeline_chain demo_lib (demo_pipeline n x)" for n x
    by (simp add: demo_pipeline_def pipeline_chain_def AddStage_def Pipeline_idPtr_def)
  have ne: "pl_Stages (demo_pipeline n x) \<noteq> []" for n x
    by (simp add: demo_pipeline_def AddStage_def)
  have pre: "map (stage_preimage demo_lib) (pl_Stages ?p) = map (stage_preimage demo_lib) (pl_Stages ?q)"
    by (simp add: demo_pipeline_def AddStage_def Pipeline_idPtr_def Stage_ID_def stage_preimage_def
        stage_tail_def Stage_Name_def om_Len_def NewOrderedMap_def)
  then have id': "Pipeline_ID demo_lib ?p = Pipeline_ID demo_lib ?q"
    using ne [of "''os''" "''/lib''"] ne [of "''image''" "''/usr''"]
    by (simp add: Pipeline_ID_def Stage_ID_def flip: last_map [where f = "stage_preimage demo_lib"])
  show ?thesis
    using Pipeline_ID_determines_history [OF chain chain ne ne _ id'] by (simp add: inj_on_def)
qed

end
