(* ===== verification/Registry.thy ===== *)
theory Registry
  imports Jsonutil "HOL-Library.Product_Lexorder"
begin

text \<open>
  \<^verbatim>\<open>registry/registry.go\<close> and \<^verbatim>\<open>registry/osrelease.go\<close>: modules found under the library directory
  and cached, the schemas built from their metadata, runner names and runner selection, and the
  host's name from \<^verbatim>\<open>os-release\<close>. The file system is a parameter \<open>F\<close>; the registry's maps are
  state that each operation returns updated.
\<close>

section \<open>What the registry reads\<close>

text \<open>A file is not there, cannot be opened, is opened and cannot be read (a directory), or is read.\<close>

datatype file_read = NotExist | ReadError | NotReadable | FileData string

record fsview =
  ReadFile :: "string \<Rightarrow> file_read"
  ReadDir :: "string \<Rightarrow> (string \<times> bool) list option"

section \<open>State\<close>

record gomodule =
  md_Name :: string
  md_Kind :: string
  md_Path :: string
  md_Desc :: string
  md_Info :: string
  md_Caps :: "string list"
  md_Schemas :: gobject

record runner_info =
  ri_Distro :: string
  ri_Version :: int
  ri_Path :: string

record go_schema =
  sch_Data :: "gobject option"
  sch_Name :: string

record registry =
  reg_path :: string
  modules :: "string \<times> string \<rightharpoonup> gomodule"
  schemata :: "string \<times> string \<times> string \<rightharpoonup> go_schema"
  runners :: "runner_info list option"
  hostRunner :: "runner_info option"

datatype os_error = NoOSRelease | ScanFailed | TokenTooLong

datatype reg_error =
    UnknownKind string
  | ReadMeta string string
  | ParsingMeta string string string
  | NoRunner string
  | HostOS os_error

definition New_registry :: "string \<Rightarrow> registry" where
  "New_registry libdir = \<lparr>reg_path = libdir, modules = Map.empty, schemata = Map.empty,
     runners = None, hostRunner = None\<rparr>"

section \<open>Loading modules\<close>

definition ModuleDirs :: "string \<rightharpoonup> string" where
  "ModuleDirs = map_of [(''Stage'', ''stages''), (''Source'', ''sources''), (''Device'', ''devices''),
     (''Input'', ''inputs''), (''Mount'', ''mounts''), (''Assembler'', ''assemblers'')]"

text \<open>\<open>s, _ := v.(string)\<close> on the elements of a list.\<close>

fun as_string0 :: "gval \<Rightarrow> string" where
  "as_string0 (GString s) = s"
| "as_string0 _ = []"

fun string_elems :: "gval list \<Rightarrow> string list" where
  "string_elems [] = []"
| "string_elems (GString s # vs) = s # string_elems vs"
| "string_elems (_ # vs) = string_elems vs"

definition bare_module :: "string \<Rightarrow> string \<Rightarrow> string \<Rightarrow> gomodule" where
  "bare_module kind name modPath = \<lparr>md_Name = name, md_Kind = kind, md_Path = modPath,
     md_Desc = [], md_Info = [], md_Caps = [], md_Schemas = []\<rparr>"

definition module_of_meta :: "string \<Rightarrow> string \<Rightarrow> string \<Rightarrow> gobject \<Rightarrow> gomodule" where
  "module_of_meta kind name modPath meta =
     (bare_module kind name modPath)
       \<lparr>md_Desc := get_string0 meta ''summary'',
        md_Info := (case get_slice meta ''description'' of None \<Rightarrow> []
                    | Some v \<Rightarrow> Join (map as_string0 v) [CHR 10]),
        md_Schemas :=
          (let s2 = (case map_of meta ''schema_2'' of None \<Rightarrow> [] | Some v \<Rightarrow> gset ''2'' v [])
           in case map_of meta ''schema'' of None \<Rightarrow> s2 | Some v \<Rightarrow> gset ''1'' v s2),
        md_Caps := (case get_slice meta ''capabilities'' of None \<Rightarrow> []
                    | Some cs \<Rightarrow> remdups (string_elems cs))\<rparr>"

definition loadModule :: "golib \<Rightarrow> fsview \<Rightarrow> string \<Rightarrow> string \<Rightarrow> string \<Rightarrow> reg_error + gomodule" where
  "loadModule L F kind name modPath =
     (case ReadFile F (modPath @ ''.meta.json'') of
        NotExist \<Rightarrow> Inr (bare_module kind name modPath)
      | ReadError \<Rightarrow> Inl (ReadMeta kind name)
      | NotReadable \<Rightarrow> Inl (ReadMeta kind name)
      | FileData data \<Rightarrow>
          (case json_Unmarshal L data of
             None \<Rightarrow> Inl (ParsingMeta kind name (modPath @ ''.meta.json''))
           | Some meta \<Rightarrow> Inr (module_of_meta kind name modPath meta)))"

definition Module :: "golib \<Rightarrow> fsview \<Rightarrow> registry \<Rightarrow> string \<Rightarrow> string \<Rightarrow> registry \<times> (reg_error + gomodule)" where
  "Module L F r kind name =
     (case modules r (kind, name) of
        Some m \<Rightarrow> (r, Inr m)
      | None \<Rightarrow>
          (case ModuleDirs kind of
             None \<Rightarrow> (r, Inl (UnknownKind kind))
           | Some dir \<Rightarrow>
               (case loadModule L F kind name (path_Join [reg_path r, dir, name]) of
                  Inl e \<Rightarrow> (r, Inl e)
                | Inr m \<Rightarrow> (r\<lparr>modules := (modules r)((kind, name) \<mapsto> m)\<rparr>, Inr m))))"

section \<open>Building schemas\<close>

text \<open>
  The raw schemas are Go maps shared between the module and the schema built from it, and
  \<open>buildStageSchema\<close> and \<open>buildMountSchema\<close> write to them: each builder returns the schema and
  the raw map as the call leaves it.
\<close>

definition type_enum :: "gomodule \<Rightarrow> gval" where
  "type_enum m = GMap [(''enum'', GSlice [GString (md_Name m)])]"

text \<open>
  \<open>hoistDefinitions\<close> moves \<open>definitions\<close> of the properties, then of the options, to the top of
  the schema; the last one found stays.
\<close>

definition hoistDefinitions :: "gobject \<Rightarrow> gobject \<Rightarrow> gobject \<times> gobject" where
  "hoistDefinitions schema props =
     (let (schema1, props1) =
            (case map_of props ''definitions'' of
               Some defs \<Rightarrow> (gset ''definitions'' defs schema, gdel ''definitions'' props)
             | None \<Rightarrow> (schema, props))
      in case get_map props1 ''options'' of
           None \<Rightarrow> (schema1, props1)
         | Some opts \<Rightarrow>
             (case map_of opts ''definitions'' of
                None \<Rightarrow> (schema1, props1)
              | Some defs \<Rightarrow>
                  (gset ''definitions'' defs schema1,
                   gset ''options'' (GMap (gdel ''definitions'' opts)) props1)))"

definition stage_props :: "gomodule \<Rightarrow> gobject \<Rightarrow> string \<Rightarrow> gobject" where
  "stage_props m raw version =
     (let props0 =
        [(''type'', type_enum m),
         (''mounts'', GMap [(''type'', GString ''array'')]),
         (''devices'', GMap [(''type'', GString ''object''), (''additionalProperties'', GBool True)])]
      in if version = ''2'' then
           (let props1 = (case map_of raw ''options'' of None \<Rightarrow> props0
                          | Some opts \<Rightarrow> gset ''options'' opts props0)
            in fold (\<lambda>(k, v) ps. if k \<noteq> ''options'' then gset k v ps else ps) raw props1)
         else gset ''options'' (GMap raw) props0)"

text \<open>What the hoisting leaves in the module's own raw map.\<close>

definition raw_after_hoist :: "gobject \<Rightarrow> string \<Rightarrow> gobject" where
  "raw_after_hoist raw version =
     (if version = ''2'' then
        (case get_map raw ''options'' of None \<Rightarrow> raw
         | Some opts \<Rightarrow> (case map_of opts ''definitions'' of None \<Rightarrow> raw
              | Some d \<Rightarrow> gset ''options'' (GMap (gdel ''definitions'' opts)) raw))
      else gdel ''definitions'' raw)"

definition buildStageSchema :: "gomodule \<Rightarrow> gobject \<Rightarrow> string \<Rightarrow> gobject \<times> gobject" where
  "buildStageSchema m raw version =
     (let schema0 = [(''title'', GString (''Pipeline '' @ md_Kind m)), (''type'', GString ''object''),
                     (''additionalProperties'', GBool False)];
          schema1 = gset ''required'' (GSlice [GString ''type'']) schema0;
          (schema2, props) = hoistDefinitions schema1 (stage_props m raw version)
      in (gset ''properties'' (GMap props) schema2, raw_after_hoist raw version))"

definition buildDeviceSchema :: "gomodule \<Rightarrow> gobject \<Rightarrow> gobject" where
  "buildDeviceSchema m raw =
     (let props0 = [(''type'', type_enum m)];
          props = (case map_of raw ''options'' of None \<Rightarrow> props0 | Some opts \<Rightarrow> gset ''options'' opts props0)
      in [(''additionalProperties'', GBool True), (''properties'', GMap props)])"

definition buildMountSchema :: "gomodule \<Rightarrow> gobject \<Rightarrow> gobject \<times> gobject" where
  "buildMountSchema m raw =
     (case get_map raw ''properties'' of
        Some props \<Rightarrow>
          (let s = gset ''properties'' (GMap (gset ''type'' (type_enum m) props)) raw in (s, s))
      | None \<Rightarrow> (gset ''properties'' (GMap [(''type'', type_enum m)]) raw, raw))"

definition buildGenericSchema :: "gobject \<Rightarrow> gobject" where
  "buildGenericSchema raw = fold (\<lambda>(k, v) s. gset k v s) raw []"

definition BuildSchema :: "gomodule \<Rightarrow> string \<Rightarrow> gomodule \<times> gobject option" where
  "BuildSchema m version =
     (case get_map (md_Schemas m) version of
        None \<Rightarrow> (m, None)
      | Some raw \<Rightarrow>
          (let (s, raw') =
             (if md_Kind m \<in> {''Stage'', ''Assembler''} then buildStageSchema m raw version
              else if md_Kind m = ''Device'' then (buildDeviceSchema m raw, raw)
              else if md_Kind m = ''Mount'' then buildMountSchema m raw
              else (buildGenericSchema raw, raw))
           in (m\<lparr>md_Schemas := gset version (GMap raw') (md_Schemas m)\<rparr>, Some s)))"

text \<open>\<open>Schema\<close> caches what it builds, an empty schema included.\<close>

definition remember_schema :: "registry \<Rightarrow> string \<times> string \<times> string \<Rightarrow> go_schema \<Rightarrow> registry \<times> go_schema" where
  "remember_schema r key s = (r\<lparr>schemata := (schemata r)(key \<mapsto> s)\<rparr>, s)"

definition Schema :: "golib \<Rightarrow> fsview \<Rightarrow> registry \<Rightarrow> string \<Rightarrow> string \<Rightarrow> string \<Rightarrow> registry \<times> go_schema" where
  "Schema L F r kind name version =
     (let key = (kind, name, version); long_name = kind @ ''/'' @ name @ ''/'' @ version in
      case schemata r key of
        Some s \<Rightarrow> (r, s)
      | None \<Rightarrow>
          if kind = ''Manifest'' then
            (let short = kind @ ''/'' @ version in
             case ReadFile F (path_Join [reg_path r, ''schemas'', ''osbuild'' @ version @ ''.json'']) of
               FileData raw \<Rightarrow>
                 (case json_Unmarshal L raw of
                    None \<Rightarrow> remember_schema r key \<lparr>sch_Data = None, sch_Name = short\<rparr>
                  | Some d \<Rightarrow> remember_schema r key \<lparr>sch_Data = Some d, sch_Name = long_name\<rparr>)
             | _ \<Rightarrow> remember_schema r key \<lparr>sch_Data = None, sch_Name = short\<rparr>)
          else
            (case Module L F r kind name of
               (r1, Inl e) \<Rightarrow> remember_schema r1 key \<lparr>sch_Data = None, sch_Name = long_name\<rparr>
             | (r1, Inr m) \<Rightarrow>
                 (let (m', data) = BuildSchema m version;
                      r2 = r1\<lparr>modules := (modules r1)((kind, name) \<mapsto> m')\<rparr>
                  in remember_schema r2 key \<lparr>sch_Data = data, sch_Name = long_name\<rparr>)))"

section \<open>Runners\<close>

text \<open>A runner name is a distribution followed by the decimal digits of a version.\<close>

definition parseRunnerName :: "string \<Rightarrow> string \<times> int" where
  "parseRunnerName name =
     (let ds = rev (takeWhile is_digit (rev name)) in
      if ds = [] then (name, 0)
      else (take (length name - length ds) name, Atoi_val ds))"

definition runner_of_entry :: "string \<Rightarrow> string \<Rightarrow> runner_info" where
  "runner_of_entry dir name =
     (let (distro, version) = parseRunnerName name
      in \<lparr>ri_Distro = distro, ri_Version = version, ri_Path = path_Join [dir, name]\<rparr>)"

definition runner_less :: "runner_info \<Rightarrow> runner_info \<Rightarrow> bool" where
  "runner_less a b =
     (if ri_Distro a \<noteq> ri_Distro b then ri_Distro a < ri_Distro b else ri_Version a < ri_Version b)"

definition runner_key :: "runner_info \<Rightarrow> string \<times> int" where
  "runner_key r = (ri_Distro r, ri_Version r)"

definition loadRunners :: "fsview \<Rightarrow> registry \<Rightarrow> registry" where
  "loadRunners F r =
     (case runners r of
        Some rs \<Rightarrow> r
      | None \<Rightarrow>
          (let dir = path_Join [reg_path r, ''runners''] in
           case ReadDir F dir of
             None \<Rightarrow> r\<lparr>runners := Some []\<rparr>
           | Some es \<Rightarrow>
               r\<lparr>runners := Some (sort_key runner_key
                   (map (\<lambda>(n, d). runner_of_entry dir n) (filter (\<lambda>(n, d). \<not> d) es)))\<rparr>))"

definition ListRunners :: "fsview \<Rightarrow> registry \<Rightarrow> string \<Rightarrow> registry \<times> runner_info list" where
  "ListRunners F r distro =
     (let r1 = loadRunners F r; rs = the (runners r1) in
      if distro = [] then (r1, rs) else (r1, filter (\<lambda>ri. ri_Distro ri = distro) rs))"

fun last_fitting :: "int \<Rightarrow> runner_info list \<Rightarrow> runner_info option" where
  "last_fitting version [] = None"
| "last_fitting version (ri # rs) = (if ri_Version ri \<le> version then Some ri else last_fitting version rs)"

definition DetectRunner :: "fsview \<Rightarrow> registry \<Rightarrow> string \<Rightarrow> registry \<times> (reg_error + runner_info)" where
  "DetectRunner F r name =
     (let (distro, version) = parseRunnerName name;
          (r1, rs) = ListRunners F r distro
      in case last_fitting version (rev rs) of
           Some ri \<Rightarrow> (r1, Inr ri)
         | None \<Rightarrow> (r1, Inl (NoRunner name)))"

section \<open>os-release\<close>

definition unquote :: "string \<Rightarrow> string" where
  "unquote s =
     (if 2 \<le> length s \<and> (hd s = CHR 0x22 \<and> last s = CHR 0x22 \<or> hd s = CHR 0x27 \<and> last s = CHR 0x27)
      then butlast (tl s) else s)"

definition os_line :: "string \<Rightarrow> (string, string) gmap \<Rightarrow> (string, string) gmap" where
  "os_line raw result =
     (let line = TrimSpace raw in
      if line = [] \<or> HasPrefix line ''#'' then result
      else case Cut (CHR ''='') line of
             None \<Rightarrow> result
           | Some (key, val) \<Rightarrow> gset key (unquote val) result)"

text \<open>The first path that can be opened, and what reading it gives.\<close>

fun open_first :: "fsview \<Rightarrow> string list \<Rightarrow> file_read option" where
  "open_first F [] = None"
| "open_first F (p # ps) =
     (case ReadFile F p of NotExist \<Rightarrow> open_first F ps | ReadError \<Rightarrow> open_first F ps | f \<Rightarrow> Some f)"

definition ParseOSRelease :: "fsview \<Rightarrow> string list \<Rightarrow> os_error + (string, string) gmap" where
  "ParseOSRelease F paths =
     (case open_first F paths of
        None \<Rightarrow> Inl NoOSRelease
      | Some (FileData d) \<Rightarrow>
          (let (ls, ok) = scan_lines (raw_lines d) in
           if ok then Inr (fold os_line ls []) else Inl TokenTooLong)
      | Some _ \<Rightarrow> Inl ScanFailed)"

definition DefaultOSReleasePaths :: "string list" where
  "DefaultOSReleasePaths = [''/etc/os-release'', ''/usr/lib/os-release'']"

definition DescribeOS :: "fsview \<Rightarrow> string list \<Rightarrow> os_error + string" where
  "DescribeOS F paths =
     bindR (ParseOSRelease F (if paths = [] then DefaultOSReleasePaths else paths)) (\<lambda>info.
       let id0 = (case map_of info ''ID'' of None \<Rightarrow> [] | Some v \<Rightarrow> v);
           id1 = (if id0 = [] then ''linux'' else id0);
           versionID = (case map_of info ''VERSION_ID'' of None \<Rightarrow> [] | Some v \<Rightarrow> v)
       in Inr (id1 @ filter (\<lambda>c. c \<noteq> CHR ''.'') versionID))"

definition host_runner_name :: "string \<Rightarrow> string" where
  "host_runner_name osName = ''org.osbuild.'' @ osName"

definition DetectHostRunner :: "fsview \<Rightarrow> registry \<Rightarrow> registry \<times> (reg_error + runner_info)" where
  "DetectHostRunner F r =
     (case hostRunner r of
        Some ri \<Rightarrow> (r, Inr ri)
      | None \<Rightarrow>
          (case DescribeOS F [] of
             Inl e \<Rightarrow> (r, Inl (HostOS e))
           | Inr osName \<Rightarrow>
               (case DetectRunner F r (host_runner_name osName) of
                  (r1, Inl e) \<Rightarrow> (r1, Inl e)
                | (r1, Inr ri) \<Rightarrow> (r1\<lparr>hostRunner := Some ri\<rparr>, Inr ri))))"

section \<open>Runner names and runner selection\<close>

lemma takeWhile_digits_nat_str:
  assumes "d = [] \<or> \<not> is_digit (last d)"
  shows "takeWhile is_digit (rev (d @ nat_str n)) = rev (nat_str n)"
proof -
  have "\<forall>c \<in> set (rev (nat_str n)). is_digit c"
    using list_all_digit_nat_str [of n] by (simp add: list_all_iff del: list_all_digit_nat_str)
  moreover have "takeWhile is_digit (rev d) = []"
    using assms by (cases d rule: rev_cases) auto
  ultimately show ?thesis by (simp add: takeWhile_append)
qed

lemma Atoi_nat_str: "int n \<le> max_int64 \<Longrightarrow> Atoi_val (nat_str n) = int n"
  by (simp add: Atoi_val_def Atoi_parts_nat_str)

text \<open>A runner file name made of a distribution name (not ending in a digit) and a decimal version is
  taken apart into exactly that distribution and that version, for every version an \<open>int\<close> holds.\<close>

theorem parseRunnerName_roundtrip:
  assumes "d = [] \<or> \<not> is_digit (last d)" and "int n \<le> max_int64"
  shows "parseRunnerName (d @ nat_str n) = (d, int n)"
  using takeWhile_digits_nat_str [OF assms(1)] assms(2)
  by (simp add: parseRunnerName_def Atoi_nat_str Let_def)

theorem parseRunnerName_roundtrip_witness:
  "parseRunnerName (''org.osbuild.fedora'' @ nat_str 40) = (''org.osbuild.fedora'', 40)"
  using parseRunnerName_roundtrip [of "''org.osbuild.fedora''" 40]
  by (simp add: is_digit_def max_int64_def)

definition available :: "fsview \<Rightarrow> registry \<Rightarrow> runner_info list" where
  "available F r = the (runners (loadRunners F r))"

definition runners_ok :: "registry \<Rightarrow> bool" where
  "runners_ok r = (case runners r of None \<Rightarrow> True | Some rs \<Rightarrow> sorted (map runner_key rs))"

lemma runner_less_key: "runner_less a b \<longleftrightarrow> runner_key a < runner_key b"
  by (auto simp: runner_less_def runner_key_def less_prod_def)

lemma sorted_available: "runners_ok r \<Longrightarrow> sorted (map runner_key (available F r))"
  by (auto simp: available_def loadRunners_def runners_ok_def Let_def split: option.splits)

lemma sorted_versions:
  assumes "sorted (map runner_key rs)" "\<forall>ri \<in> set rs. ri_Distro ri = d"
  shows "sorted (map ri_Version rs)"
  using assms by (induction rs) (auto simp: runner_key_def less_eq_prod_def)

lemma last_fitting_None: "last_fitting v rs = None \<longleftrightarrow> (\<forall>ri \<in> set rs. v < ri_Version ri)"
  by (induction rs) auto

lemma last_fitting_Some:
  assumes "last_fitting v (rev rs) = Some ri" "sorted (map ri_Version rs)"
  shows "ri \<in> set rs \<and> ri_Version ri \<le> v
    \<and> (\<forall>ri' \<in> set rs. ri_Version ri' \<le> v \<longrightarrow> ri_Version ri' \<le> ri_Version ri)"
  using assms
proof (induction rs rule: rev_induct)
  case (snoc x rs)
  then show ?case by (cases "ri_Version x \<le> v") (auto simp: sorted_append)
qed simp

text \<open>For a name with a distribution part, \<open>DetectRunner\<close> returns a runner of that distribution with
  the highest version that does not exceed the requested one, and fails exactly when every runner
  of the distribution is newer.\<close>

theorem DetectRunner_best:
  assumes "runners_ok r" and "parseRunnerName name = (distro, version)" and "distro \<noteq> []"
  shows "case snd (DetectRunner F r name) of
      Inr ri \<Rightarrow> ri \<in> set (available F r) \<and> ri_Distro ri = distro \<and> ri_Version ri \<le> version
        \<and> (\<forall>ri' \<in> set (available F r). ri_Distro ri' = distro \<and> ri_Version ri' \<le> version
              \<longrightarrow> ri_Version ri' \<le> ri_Version ri)
    | Inl e \<Rightarrow> e = NoRunner name
        \<and> (\<forall>ri' \<in> set (available F r). ri_Distro ri' = distro \<longrightarrow> version < ri_Version ri')"
proof -
  let ?rs = "filter (\<lambda>ri. ri_Distro ri = distro) (available F r)"
  have "sorted (map runner_key ?rs)"
    using sorted_available [OF assms(1)] by (rule sorted_filter)
  then have sorted: "sorted (map ri_Version ?rs)"
    by (rule sorted_versions [where d = distro]) auto
  have "snd (DetectRunner F r name) =
      (case last_fitting version (rev ?rs) of Some ri \<Rightarrow> Inr ri | None \<Rightarrow> Inl (NoRunner name))"
    using assms(2,3)
    by (simp add: DetectRunner_def ListRunners_def available_def Let_def split: option.split)
  then show ?thesis
    using last_fitting_Some [OF _ sorted, of version]
    by (cases "last_fitting version (rev ?rs)") (auto simp: last_fitting_None)
qed

definition demo_fs :: fsview where
  "demo_fs = \<lparr>ReadFile = (\<lambda>p. if p = ''/etc/os-release''
        then FileData (''ID=fedora'' @ [CHR 10] @ ''VERSION_ID=41'') else NotExist),
     ReadDir = (\<lambda>p. if p = ''/lib/runners''
        then Some [(''fedora38'', False), (''fedora40'', False), (''rhel9'', False)] else None)\<rparr>"

theorem DetectRunner_best_witness:
  "case snd (DetectRunner demo_fs (New_registry ''/lib'') ''fedora39'') of
      Inr ri \<Rightarrow> ri_Distro ri = ''fedora'' \<and> ri_Version ri \<le> 39
    | Inl e \<Rightarrow> e = NoRunner ''fedora39''"
proof -
  have p: "parseRunnerName ''fedora39'' = (''fedora'', 39)"
    by (simp add: parseRunnerName_def is_digit_def Atoi_val_def Atoi_parts_def digits_val_def
        digit_val_def max_int64_def)
  show ?thesis
    using DetectRunner_best [of "New_registry ''/lib''", OF _ p, of demo_fs]
    by (auto simp: runners_ok_def New_registry_def split: sum.splits)
qed

section \<open>Module lookup and the caches\<close>

text \<open>
  What the manifest parser relies on: a module it gets carries the kind and name it asked for
  and the path of the executable under the library directory.
\<close>

locale module_provider =
  fixes lookup :: "'r \<Rightarrow> string \<Rightarrow> string \<Rightarrow> 'r \<times> ('e + gomodule)"
    and inv :: "'r \<Rightarrow> bool"
    and root :: "'r \<Rightarrow> string"
  assumes inv_lookup: "inv r \<Longrightarrow> inv (fst (lookup r k n))"
    and root_lookup: "inv r \<Longrightarrow> root (fst (lookup r k n)) = root r"
    and found: "inv r \<Longrightarrow> snd (lookup r k n) = Inr m \<Longrightarrow>
      md_Kind m = k \<and> md_Name m = n
      \<and> (\<exists>dir. ModuleDirs k = Some dir \<and> md_Path m = path_Join [root r, dir, n])"
    and cached: "inv r \<Longrightarrow> snd (lookup r k n) = Inr m \<Longrightarrow>
      snd (lookup (fst (lookup r k n)) k n) = Inr m"
begin

fun lookups :: "(string \<times> string) list \<Rightarrow> 'r \<Rightarrow> 'r" where
  "lookups [] r = r"
| "lookups ((k, n) # qs) r = lookups qs (fst (lookup r k n))"

lemma inv_lookups: "inv r \<Longrightarrow> inv (lookups qs r) \<and> root (lookups qs r) = root r"
  by (induction qs r rule: lookups.induct) (auto simp: inv_lookup root_lookup)

lemma path_stable:
  assumes "inv r" "snd (lookup (lookups qs r) k n) = Inr m" "snd (lookup r k n) = Inr m'"
  shows "md_Path m = md_Path m'"
  using found [OF _ assms(2)] found [OF assms(1,3)] inv_lookups [OF assms(1), of qs] by auto

end

definition modules_ok :: "registry \<Rightarrow> bool" where
  "modules_ok r \<longleftrightarrow> (\<forall>k n m. modules r (k, n) = Some m \<longrightarrow>
     md_Kind m = k \<and> md_Name m = n
     \<and> (\<exists>dir. ModuleDirs k = Some dir \<and> md_Path m = path_Join [reg_path r, dir, n]))"

lemma bare_module_fields [simp]:
  "md_Name (bare_module k n p) = n" "md_Kind (bare_module k n p) = k" "md_Path (bare_module k n p) = p"
  "md_Caps (bare_module k n p) = []" "md_Schemas (bare_module k n p) = []"
  by (simp_all add: bare_module_def)

lemma loadModule_fields:
  "loadModule L F k n p = Inr m \<Longrightarrow> md_Kind m = k \<and> md_Name m = n \<and> md_Path m = p"
  by (auto simp: loadModule_def module_of_meta_def split: file_read.splits option.splits)

lemma Module_reg_path [simp]: "reg_path (fst (Module L F r k n)) = reg_path r"
  by (simp add: Module_def split: option.split sum.split)

lemma Module_frame:
  "runners (fst (Module L F r k n)) = runners r" "hostRunner (fst (Module L F r k n)) = hostRunner r"
  "schemata (fst (Module L F r k n)) = schemata r"
  by (simp_all add: Module_def split: option.split sum.split)

lemma Module_cached:
  "snd (Module L F r k n) = Inr m \<Longrightarrow> modules (fst (Module L F r k n)) (k, n) = Some m"
  by (auto simp: Module_def split: option.splits sum.splits)

lemma modules_ok_Module: "modules_ok r \<Longrightarrow> modules_ok (fst (Module L F r k n))"
  by (auto simp: modules_ok_def Module_def dest: loadModule_fields split: option.split sum.split)

lemma Module_found:
  assumes "modules_ok r" "snd (Module L F r k n) = Inr m"
  shows "md_Kind m = k \<and> md_Name m = n
    \<and> (\<exists>dir. ModuleDirs k = Some dir \<and> md_Path m = path_Join [reg_path r, dir, n])"
  using modules_ok_Module [OF assms(1), of L F k n] Module_cached [OF assms(2)]
  unfolding modules_ok_def by auto

interpretation reg: module_provider "Module L F" modules_ok reg_path for L F
proof
  fix r k n m
  show "modules_ok r \<Longrightarrow> snd (Module L F r k n) = Inr m \<Longrightarrow>
      snd (Module L F (fst (Module L F r k n)) k n) = Inr m"
    using Module_cached [of L F r k n m] by (simp add: Module_def [of L F "fst (Module L F r k n)"])
qed (auto intro: modules_ok_Module dest: Module_found)

text \<open>
  The registry seen without its caches: what a fresh registry answers. Only \<open>Schemas\<close> of a
  cached module may differ, because building a schema moves definitions out of it.
\<close>

definition same_module :: "gomodule \<Rightarrow> gomodule \<Rightarrow> bool" where
  "same_module m m' \<longleftrightarrow> m\<lparr>md_Schemas := []\<rparr> = m'\<lparr>md_Schemas := []\<rparr>"

definition view_Module :: "golib \<Rightarrow> fsview \<Rightarrow> string \<Rightarrow> string \<Rightarrow> string \<Rightarrow> reg_error + gomodule" where
  "view_Module L F libdir kind name = snd (Module L F (New_registry libdir) kind name)"

definition view_DetectRunner :: "fsview \<Rightarrow> string \<Rightarrow> string \<Rightarrow> reg_error + runner_info" where
  "view_DetectRunner F libdir name = snd (DetectRunner F (New_registry libdir) name)"

definition view_DetectHostRunner :: "fsview \<Rightarrow> string \<Rightarrow> reg_error + runner_info" where
  "view_DetectHostRunner F libdir = snd (DetectHostRunner F (New_registry libdir))"

inductive reg_reach :: "golib \<Rightarrow> fsview \<Rightarrow> string \<Rightarrow> registry \<Rightarrow> bool" for L F libdir where
  new: "reg_reach L F libdir (New_registry libdir)"
| mod: "reg_reach L F libdir r \<Longrightarrow> reg_reach L F libdir (fst (Module L F r k n))"
| sch: "reg_reach L F libdir r \<Longrightarrow> reg_reach L F libdir (fst (Schema L F r k n v))"
| run: "reg_reach L F libdir r \<Longrightarrow> reg_reach L F libdir (fst (DetectRunner F r nm))"
| host: "reg_reach L F libdir r \<Longrightarrow> reg_reach L F libdir (fst (DetectHostRunner F r))"

definition reg_coherent :: "golib \<Rightarrow> fsview \<Rightarrow> string \<Rightarrow> registry \<Rightarrow> bool" where
  "reg_coherent L F libdir r \<longleftrightarrow> reg_path r = libdir
     \<and> (\<forall>k n m. modules r (k, n) = Some m \<longrightarrow>
          (\<exists>m'. view_Module L F libdir k n = Inr m' \<and> same_module m m'))
     \<and> (runners r = None \<or> runners r = runners (loadRunners F (New_registry libdir)))
     \<and> (\<forall>ri. hostRunner r = Some ri \<longrightarrow> view_DetectHostRunner F libdir = Inr ri)"

lemma same_module_refl [simp]: "same_module m m"
  by (simp add: same_module_def)

lemma same_module_trans: "same_module a b \<Longrightarrow> same_module b c \<Longrightarrow> same_module a c"
  by (simp add: same_module_def)

lemma BuildSchema_same: "same_module (fst (BuildSchema m v)) m"
  by (simp add: BuildSchema_def same_module_def Let_def split: option.split prod.split)

lemma view_Module_load:
  "view_Module L F libdir k n = (case ModuleDirs k of None \<Rightarrow> Inl (UnknownKind k)
     | Some dir \<Rightarrow> loadModule L F k n (path_Join [libdir, dir, n]))"
  by (simp add: view_Module_def Module_def New_registry_def split: option.split sum.split)

lemma coherent_upd_module:
  assumes "reg_coherent L F libdir r" "view_Module L F libdir k n = Inr m'" "same_module m m'"
  shows "reg_coherent L F libdir (r\<lparr>modules := (modules r)((k, n) \<mapsto> m)\<rparr>)"
  using assms by (auto simp: reg_coherent_def)

lemma Module_effect:
  assumes "reg_path r = libdir"
  shows "fst (Module L F r k n) = r \<or> (\<exists>m. view_Module L F libdir k n = Inr m
    \<and> fst (Module L F r k n) = r\<lparr>modules := (modules r)((k, n) \<mapsto> m)\<rparr>)"
  using assms by (simp add: Module_def view_Module_load split: option.split sum.split)

lemma Module_coherent:
  assumes "reg_coherent L F libdir r"
  shows "reg_coherent L F libdir (fst (Module L F r k n))"
    and "rel_sum (=) same_module (snd (Module L F r k n)) (view_Module L F libdir k n)"
proof -
  have path: "reg_path r = libdir" using assms by (simp add: reg_coherent_def)
  show "reg_coherent L F libdir (fst (Module L F r k n))"
    using Module_effect [OF path, of L F k n] assms coherent_upd_module [OF assms]
    by (metis same_module_refl)
  show "rel_sum (=) same_module (snd (Module L F r k n)) (view_Module L F libdir k n)"
  proof (cases "modules r (k, n)")
    case None
    then have "snd (Module L F r k n) = view_Module L F libdir k n"
      using path by (simp add: Module_def view_Module_load split: option.split sum.split)
    then show ?thesis by (auto intro: sum.rel_refl)
  next
    case (Some m)
    with assms obtain m' where "view_Module L F libdir k n = Inr m'" "same_module m m'"
      unfolding reg_coherent_def by blast
    with Some show ?thesis by (simp add: Module_def)
  qed
qed

lemma remember_schema_coherent:
  "reg_coherent L F libdir r \<Longrightarrow> reg_coherent L F libdir (fst (remember_schema r key s))"
  by (simp add: reg_coherent_def remember_schema_def)

lemma Schema_coherent:
  assumes "reg_coherent L F libdir r"
  shows "reg_coherent L F libdir (fst (Schema L F r k n v))"
proof (cases "schemata r (k, n, v) = None \<and> k \<noteq> ''Manifest''")
  case True
  obtain r1 res where M: "Module L F r k n = (r1, res)" by (cases "Module L F r k n")
  have co: "reg_coherent L F libdir r1" and rel: "rel_sum (=) same_module res (view_Module L F libdir k n)"
    using Module_coherent [OF assms, of k n] by (simp_all add: M)
  show ?thesis
  proof (cases res)
    case (Inl e)
    with True M co show ?thesis by (simp add: Schema_def remember_schema_coherent)
  next
    case (Inr m)
    with rel obtain m0 where m0: "view_Module L F libdir k n = Inr m0" "same_module m m0"
      by (cases "view_Module L F libdir k n") auto
    obtain m' data where B: "BuildSchema m v = (m', data)" by (cases "BuildSchema m v")
    have "same_module m' m0"
      using BuildSchema_same [of m v] m0(2) B by (auto intro: same_module_trans)
    then show ?thesis
      using True M Inr B coherent_upd_module [OF co m0(1)]
      by (simp add: Schema_def remember_schema_coherent)
  qed
next
  case False
  with assms show ?thesis
    by (auto simp: Schema_def Let_def intro: remember_schema_coherent
        split: option.split file_read.split)
qed

lemma loadRunners_coherent:
  assumes "reg_coherent L F libdir r"
  shows "runners (loadRunners F r) = runners (loadRunners F (New_registry libdir))"
    and "reg_coherent L F libdir (loadRunners F r)"
proof -
  show *: "runners (loadRunners F r) = runners (loadRunners F (New_registry libdir))"
    using assms
    by (cases "runners r") (auto simp: reg_coherent_def loadRunners_def New_registry_def Let_def split: option.split)
  have "modules (loadRunners F r) = modules r" "hostRunner (loadRunners F r) = hostRunner r"
    "reg_path (loadRunners F r) = reg_path r"
    by (simp_all add: loadRunners_def Let_def split: option.split)
  with * assms show "reg_coherent L F libdir (loadRunners F r)"
    by (simp add: reg_coherent_def)
qed

lemma DetectRunner_loads: "fst (DetectRunner F r name) = loadRunners F r"
  by (simp add: DetectRunner_def ListRunners_def Let_def split: option.split prod.split)

lemma DetectRunner_coherent:
  assumes "reg_coherent L F libdir r"
  shows "reg_coherent L F libdir (fst (DetectRunner F r name))"
    and "snd (DetectRunner F r name) = view_DetectRunner F libdir name"
  using loadRunners_coherent [OF assms]
  by (auto simp: DetectRunner_loads view_DetectRunner_def DetectRunner_def ListRunners_def Let_def
      split: option.split prod.split)

lemma view_DetectHostRunner_eq:
  "view_DetectHostRunner F libdir = (case DescribeOS F [] of Inl e \<Rightarrow> Inl (HostOS e)
     | Inr osName \<Rightarrow> view_DetectRunner F libdir (host_runner_name osName))"
  by (auto simp: view_DetectHostRunner_def DetectHostRunner_def view_DetectRunner_def New_registry_def
      split: sum.split prod.split)

lemma DetectHostRunner_coherent:
  assumes "reg_coherent L F libdir r"
  shows "reg_coherent L F libdir (fst (DetectHostRunner F r))
    \<and> snd (DetectHostRunner F r) = view_DetectHostRunner F libdir"
proof (cases "hostRunner r")
  case None
  show ?thesis
  proof (cases "DescribeOS F []")
    case (Inl e)
    with None assms show ?thesis by (simp add: DetectHostRunner_def view_DetectHostRunner_eq)
  next
    case (Inr os)
    let ?nm = "host_runner_name os"
    obtain r1 res where D: "DetectRunner F r ?nm = (r1, res)" by (cases "DetectRunner F r ?nm")
    have co: "reg_coherent L F libdir r1" "view_DetectRunner F libdir ?nm = res"
      using DetectRunner_coherent [OF assms, of ?nm] D by simp_all
    show ?thesis
    proof (cases res)
      case (Inl e)
      with None \<open>DescribeOS F [] = Inr os\<close> D co show ?thesis
        by (simp add: DetectHostRunner_def view_DetectHostRunner_eq)
    next
      case (Inr ri)
      with None \<open>DescribeOS F [] = Inr os\<close> D co show ?thesis
        by (simp add: DetectHostRunner_def view_DetectHostRunner_eq reg_coherent_def)
    qed
  qed
next
  case (Some ri)
  with assms show ?thesis by (simp add: DetectHostRunner_def reg_coherent_def)
qed

lemma New_coherent: "reg_coherent L F libdir (New_registry libdir)"
  by (simp add: reg_coherent_def New_registry_def)

lemma reach_coherent: "reg_reach L F libdir r \<Longrightarrow> reg_coherent L F libdir r"
  by (induction rule: reg_reach.induct)
    (simp_all add: New_coherent Module_coherent Schema_coherent DetectRunner_coherent
      DetectHostRunner_coherent)

text \<open>The caches of the registry are transparent: whatever modules were looked up, schemas built and
  runners detected before, a lookup answers what a fresh registry would (the raw schemas of a
  module apart, which building a schema consumes), and so does the detection of runners.\<close>

theorem registry_caches_transparent:
  assumes "reg_reach L F libdir r"
  shows "rel_sum (=) same_module (snd (Module L F r k n)) (view_Module L F libdir k n)
    \<and> snd (DetectRunner F r name) = view_DetectRunner F libdir name
    \<and> snd (DetectHostRunner F r) = view_DetectHostRunner F libdir"
  using reach_coherent [OF assms]
  by (simp add: Module_coherent DetectRunner_coherent DetectHostRunner_coherent)

theorem registry_caches_transparent_witness:
  "\<forall>L. snd (DetectHostRunner demo_fs (fst (Schema L demo_fs (New_registry ''/lib'') ''Stage'' ''a'' ''2'')))
     = view_DetectHostRunner demo_fs ''/lib''"
  using registry_caches_transparent [OF reg_reach.sch [OF reg_reach.new]] by blast

end
