(* ===== verification/Parse.thy ===== *)
theory Parse
  imports Manifest Registry
begin

text \<open>
  \<^verbatim>\<open>manifest/parse.go\<close>: from the decoded JSON of a manifest to its typed form. The parser is a
  client of the registry, through \<open>registry_api\<close>; \<open>registry_view\<close> is the registry of
  \<open>Registry\<close> seen through it. While a pipeline is parsed it is the last element of the slice
  (\<open>m.byName[name]\<close> has just been pointed there) and the stage being filled is its last stage, so
  \<open>cur_stage\<close> and \<open>set_stage\<close> stand for the pointers \<open>p\<close> and \<open>stage\<close> of the code. The set
  \<open>sourceRefs\<close> is written but never read by the code and is left out.
\<close>

section \<open>Interfaces and errors\<close>

record registry_api =
  api_Module :: "string \<Rightarrow> string \<Rightarrow> reg_error + gomodule"
  api_DetectRunner :: "string \<Rightarrow> reg_error + runner_info"
  api_DetectHostRunner :: "reg_error + runner_info"

definition registry_view :: "golib \<Rightarrow> fsview \<Rightarrow> string \<Rightarrow> registry_api" where
  "registry_view L F libdir = \<lparr>api_Module = view_Module L F libdir,
     api_DetectRunner = view_DetectRunner F libdir,
     api_DetectHostRunner = view_DetectHostRunner F libdir\<rparr>"

text \<open>
  The errors of the parser, one constructor per message, the wrapping ones around the error they
  wrap. \<open>Panic\<close> is the run-time panic of a failed type assertion: it is not an error value of
  the code and no caller wraps it.
\<close>

datatype parse_error =
    UnsupportedVersion string
  | Cancelled string
  | RegistryErr reg_error
  | InSource string parse_error
  | PipelineMissingName
  | InPipeline string parse_error
  | RunnerErr string reg_error
  | HostRunnerErr reg_error
  | EpochErr parse_error
  | StageMissingType
  | InStage string parse_error
  | DeviceCycle "string list"
  | DeviceMissingType string
  | InDevice string parse_error
  | ParentNotFound string string
  | InputMissingType string
  | InInput string parse_error
  | MountMissingType
  | MountMissingName
  | InMount string parse_error
  | PartitionErr parse_error
  | SourceDeviceNotFound string string
  | PipelineNotFound string
  | AtoiErr string
  | CannotConvert
  | Panic string

definition wrapE :: "(parse_error \<Rightarrow> parse_error) \<Rightarrow> parse_error \<Rightarrow> parse_error" where
  "wrapE f e = (case e of Panic s \<Rightarrow> Panic s | _ \<Rightarrow> f e)"

section \<open>Conversions\<close>

definition toInt :: "gval \<Rightarrow> parse_error + int" where
  "toInt v =
     (case v of
        GNumber n \<Rightarrow> if Atoi_ok n then Inr (Atoi_val n) else Inl (AtoiErr n)
      | GFloat f \<Rightarrow> Inr (float_to_int f)
      | GInt i \<Rightarrow> Inr i
      | GInt64 i \<Rightarrow> Inr i
      | _ \<Rightarrow> Inl CannotConvert)"

section \<open>Ordering devices\<close>

fun inSlice :: "string list \<Rightarrow> string \<Rightarrow> bool" where
  "inSlice [] val = False"
| "inSlice (v # vs) val = (v = val \<or> inSlice vs val)"

text \<open>
  The parent a device waits for: none when the entry is not an object or has no string
  \<open>parent\<close>.
\<close>

definition device_parent :: "gobject \<Rightarrow> string \<Rightarrow> string option" where
  "device_parent devices name =
     (case map_of devices name of Some (GMap dd) \<Rightarrow> get_string dd ''parent'' | _ \<Rightarrow> None)"

text \<open>One pass over \<open>todo\<close>: the devices that can be placed now, and those left for the next pass.\<close>

fun sort_pass :: "gobject \<Rightarrow> string list \<Rightarrow> string list \<Rightarrow> string list \<times> string list" where
  "sort_pass devices [] result = (result, [])"
| "sort_pass devices (name # todo) result =
     (case device_parent devices name of
        None \<Rightarrow> sort_pass devices todo (result @ [name])
      | Some parent \<Rightarrow>
          if inSlice result parent then sort_pass devices todo (result @ [name])
          else (let (result', next') = sort_pass devices todo result in (result', name # next')))"

lemma sort_pass_length: "length (snd (sort_pass devices todo result)) \<le> length todo"
  by (induction devices todo result rule: sort_pass.induct)
    (auto simp: Let_def split: option.split prod.splits)

function sort_loop :: "gobject \<Rightarrow> string list \<Rightarrow> string list \<Rightarrow> parse_error + string list" where
  "sort_loop devices todo result =
     (if todo = [] then Inr result
      else (let (result', next') = sort_pass devices todo result in
            if length next' = length todo then Inl (DeviceCycle next')
            else sort_loop devices next' result'))"
  by pat_completeness auto
termination
proof (relation "measure (\<lambda>(devices, todo, result). length todo)")
  fix devices todo result x xa y
  assume "x = sort_pass devices todo result" "(xa, y) = x" "length y \<noteq> length todo"
  then show "((devices, y, xa), devices, todo, result) \<in> measure (\<lambda>(devices, todo, result). length todo)"
    using sort_pass_length [of devices todo result] by (metis in_measure le_neq_implies_less case_prod_conv snd_conv)
qed simp

declare sort_loop.simps [simp del]

definition sortDevices :: "gobject \<Rightarrow> parse_error + string list" where
  "sortDevices devices = sort_loop devices (gkeys devices) []"

section \<open>The pipeline and the stage being parsed\<close>

definition cur_stage :: "manifest \<Rightarrow> stage" where
  "cur_stage m = last (pl_Stages (last (mf_Pipelines m)))"

definition set_pipeline :: "manifest \<Rightarrow> pipeline \<Rightarrow> manifest" where
  "set_pipeline m p = m\<lparr>mf_Pipelines := butlast (mf_Pipelines m) @ [p]\<rparr>"

definition set_stage :: "manifest \<Rightarrow> stage \<Rightarrow> manifest" where
  "set_stage m s =
     (let p = last (mf_Pipelines m)
      in set_pipeline m (p\<lparr>pl_Stages := butlast (pl_Stages p) @ [s]\<rparr>))"

section \<open>References\<close>

definition resolveRef :: "golib \<Rightarrow> string \<Rightarrow> manifest \<Rightarrow> parse_error + string" where
  "resolveRef L ref m =
     (let name = drop 5 ref in
      case Pipeline_lookup m name of
        None \<Rightarrow> Inl (PipelineNotFound name)
      | Some p \<Rightarrow> Inr (Pipeline_ID L p))"

definition resolve_if :: "golib \<Rightarrow> bool \<Rightarrow> string \<Rightarrow> manifest \<Rightarrow> parse_error + string" where
  "resolve_if L is_pipeline ref m =
     (if is_pipeline \<and> HasPrefix ref ''name:'' then resolveRef L ref m else Inr ref)"

section \<open>Devices, inputs, mounts\<close>

definition loadDevice :: "registry_api \<Rightarrow> string \<Rightarrow> gobject \<Rightarrow> manifest \<Rightarrow> parse_error + manifest" where
  "loadDevice R name desc m =
     (let devType = get_string0 desc ''type''; s = cur_stage m in
      if devType = [] then Inl (DeviceMissingType name)
      else bindR (mapErr (\<lambda>e. InDevice name (RegistryErr e)) (api_Module R ''Device'' devType)) (\<lambda>md0.
        bindR (case get_string desc ''parent'' of
                 None \<Rightarrow> Inr None
               | Some parentName \<Rightarrow>
                   (case om_Get (st_Devices s) parentName of
                      None \<Rightarrow> Inl (ParentNotFound name parentName)
                    | Some p \<Rightarrow> Inr (Some p))) (\<lambda>parent.
          Inr (set_stage m (s\<lparr>st_Devices := om_Set (st_Devices s) name
                 (Device name devType (md_Path md0) parent (get_map0 desc ''options''))\<rparr>)))))"

text \<open>The references of an input: a map, a list of strings and objects, or nothing.\<close>

definition load_ref_item :: "golib \<Rightarrow> bool \<Rightarrow> manifest \<Rightarrow> gval \<Rightarrow> gobject \<Rightarrow> parse_error + gobject" where
  "load_ref_item L is_pipeline m item refs =
     (case item of
        GString v \<Rightarrow> bindR (resolve_if L is_pipeline v m) (\<lambda>ref. Inr (gset ref (GMap []) refs))
      | GMap v \<Rightarrow> bindR (resolve_if L is_pipeline (get_string0 v ''id'') m)
                    (\<lambda>ref. Inr (gset ref (GMap (get_map0 v ''options'')) refs))
      | _ \<Rightarrow> Inr refs)"

definition load_refs :: "golib \<Rightarrow> bool \<Rightarrow> manifest \<Rightarrow> gval option \<Rightarrow> parse_error + gobject" where
  "load_refs L is_pipeline m refs =
     (case refs of
        Some (GMap r) \<Rightarrow>
          foldE (\<lambda>(ref, opts) acc.
            bindR (resolve_if L is_pipeline ref m) (\<lambda>resolved. Inr (gset resolved opts acc))) r []
      | Some (GSlice r) \<Rightarrow> foldE (load_ref_item L is_pipeline m) r []
      | _ \<Rightarrow> Inr [])"

definition loadInput :: "golib \<Rightarrow> registry_api \<Rightarrow> string \<Rightarrow> gobject \<Rightarrow> manifest \<Rightarrow> parse_error + manifest" where
  "loadInput L R name desc m =
     (let inputType = get_string0 desc ''type''; s = cur_stage m in
      if inputType = [] then Inl (InputMissingType name)
      else bindR (mapErr (\<lambda>e. InInput name (RegistryErr e)) (api_Module R ''Input'' inputType)) (\<lambda>md0.
        let origin = get_string0 desc ''origin'' in
        bindR (mapErr (wrapE (InInput name))
                 (load_refs L (origin = ''org.osbuild.pipeline'') m (map_of desc ''references''))) (\<lambda>refs.
          Inr (set_stage m (s\<lparr>st_Inputs := om_Set (st_Inputs s) name
                 \<lparr>in_Name = name, in_Type = inputType, in_ExecPath = md_Path md0,
                  in_Origin = origin, in_Refs = refs, in_Options = get_map0 desc ''options''\<rparr>\<rparr>)))))"

definition loadMount :: "registry_api \<Rightarrow> gobject \<Rightarrow> manifest \<Rightarrow> parse_error + manifest" where
  "loadMount R desc m =
     (let mountType = get_string0 desc ''type''; name = get_string0 desc ''name''; s = cur_stage m in
      if mountType = [] then Inl MountMissingType
      else if name = [] then Inl MountMissingName
      else bindR (mapErr (\<lambda>e. InMount name (RegistryErr e)) (api_Module R ''Mount'' mountType)) (\<lambda>md0.
        bindR (case map_of desc ''partition'' of
                 None \<Rightarrow> Inr None
               | Some p \<Rightarrow> bindR (mapErr (\<lambda>e. InMount name (PartitionErr e)) (toInt p)) (\<lambda>v. Inr (Some v))) (\<lambda>partition.
          bindR (case get_string desc ''source'' of
                   None \<Rightarrow> Inr None
                 | Some sourceName \<Rightarrow>
                     (case om_Get (st_Devices s) sourceName of
                        None \<Rightarrow> Inl (SourceDeviceNotFound name sourceName)
                      | Some d \<Rightarrow> Inr (Some d))) (\<lambda>dev.
            Inr (set_stage m (s\<lparr>st_Mounts := om_Set (st_Mounts s) name
                   \<lparr>mnt_Name = name, mnt_Type = mountType, mnt_ExecPath = md_Path md0,
                    mnt_Device = dev, mnt_Partition = partition,
                    mnt_Target = get_string0 desc ''target'',
                    mnt_Options = get_map0 desc ''options''\<rparr>\<rparr>))))))"

section \<open>Stages and pipelines\<close>

text \<open>\<open>dd := devs[devName].(map[string]interface{})\<close> panics when the entry is not an object.\<close>

definition load_sorted_device :: "registry_api \<Rightarrow> gobject \<Rightarrow> string \<Rightarrow> manifest \<Rightarrow> parse_error + manifest" where
  "load_sorted_device R devs devName m =
     (case map_of devs devName of
        Some (GMap dd) \<Rightarrow> loadDevice R devName dd m
      | _ \<Rightarrow> Inl (Panic devName))"

definition parse_devices :: "registry_api \<Rightarrow> gobject \<Rightarrow> manifest \<Rightarrow> parse_error + manifest" where
  "parse_devices R desc m =
     (case get_map desc ''devices'' of
        None \<Rightarrow> Inr m
      | Some devs \<Rightarrow> bindR (sortDevices devs) (\<lambda>sorted'. foldE (load_sorted_device R devs) sorted' m))"

definition parse_inputs :: "golib \<Rightarrow> registry_api \<Rightarrow> gobject \<Rightarrow> manifest \<Rightarrow> parse_error + manifest" where
  "parse_inputs L R desc m =
     (case get_map desc ''inputs'' of
        None \<Rightarrow> Inr m
      | Some inputs \<Rightarrow>
          foldE (\<lambda>(name, idesc) m. case idesc of GMap i \<Rightarrow> loadInput L R name i m | _ \<Rightarrow> Inr m) inputs m)"

definition parse_mounts :: "registry_api \<Rightarrow> gobject \<Rightarrow> manifest \<Rightarrow> parse_error + manifest" where
  "parse_mounts R desc m =
     (case get_slice desc ''mounts'' of
        None \<Rightarrow> Inr m
      | Some mounts \<Rightarrow> foldE (\<lambda>mdesc m. case mdesc of GMap md \<Rightarrow> loadMount R md m | _ \<Rightarrow> Inr m) mounts m)"

definition parseStage :: "golib \<Rightarrow> registry_api \<Rightarrow> gobject \<Rightarrow> manifest \<Rightarrow> parse_error + manifest" where
  "parseStage L R desc m =
     (let stageType = get_string0 desc ''type''; p = last (mf_Pipelines m) in
      if stageType = [] then Inl StageMissingType
      else bindR (mapErr (\<lambda>e. InStage stageType (RegistryErr e)) (api_Module R ''Stage'' stageType)) (\<lambda>md0.
        let m1 = set_pipeline m (AddStage L p stageType (md_Path md0) (md_Caps md0)
                                   (get_map desc ''options'') (pl_SourceEpoch p)) in
        mapErr (wrapE (InStage stageType))
          (bindR (parse_devices R desc m1) (\<lambda>m2.
            bindR (parse_inputs L R desc m2) (\<lambda>m3. parse_mounts R desc m3)))))"

definition pipeline_build :: "golib \<Rightarrow> gobject \<Rightarrow> manifest \<Rightarrow> parse_error + string option" where
  "pipeline_build L desc m =
     (case get_string desc ''build'' of
        None \<Rightarrow> Inr None
      | Some buildRef \<Rightarrow>
          if HasPrefix buildRef ''name:'' then bindR (resolveRef L buildRef m) (\<lambda>r. Inr (Some r))
          else Inr (Some buildRef))"

definition pipeline_runner :: "registry_api \<Rightarrow> gobject \<Rightarrow> parse_error + runner" where
  "pipeline_runner R desc =
     (let runnerName = get_string0 desc ''runner'' in
      if runnerName \<noteq> [] then
        bindR (mapErr (RunnerErr runnerName) (api_DetectRunner R runnerName))
          (\<lambda>ri. Inr \<lparr>run_Name = runnerName, run_Path = ri_Path ri\<rparr>)
      else
        bindR (mapErr HostRunnerErr (api_DetectHostRunner R))
          (\<lambda>ri. Inr \<lparr>run_Name = [], run_Path = ri_Path ri\<rparr>))"

definition pipeline_epoch :: "gobject \<Rightarrow> parse_error + int option" where
  "pipeline_epoch desc =
     (case map_of desc ''source-epoch'' of
        None \<Rightarrow> Inr None
      | Some se \<Rightarrow> bindR (mapErr EpochErr (toInt se)) (\<lambda>v. Inr (Some v)))"

definition add_pipeline :: "golib \<Rightarrow> manifest \<Rightarrow> pipeline \<Rightarrow> manifest" where
  "add_pipeline L m p =
     (let m1 = append_pipeline L m p
      in m1\<lparr>mf_byName := (mf_byName m1)(pl_Name p \<mapsto> Live (length (mf_Pipelines m1) - 1))\<rparr>)"

definition parse_stages :: "golib \<Rightarrow> registry_api \<Rightarrow> gobject \<Rightarrow> manifest \<Rightarrow> parse_error + manifest" where
  "parse_stages L R desc m =
     (case get_slice desc ''stages'' of
        None \<Rightarrow> Inr m
      | Some stages \<Rightarrow> foldE (\<lambda>sdesc m. case sdesc of GMap sd \<Rightarrow> parseStage L R sd m | _ \<Rightarrow> Inr m) stages m)"

definition parsePipeline :: "golib \<Rightarrow> registry_api \<Rightarrow> gobject \<Rightarrow> manifest \<Rightarrow> parse_error + manifest" where
  "parsePipeline L R desc m =
     (let name = get_string0 desc ''name'' in
      if name = [] then Inl PipelineMissingName
      else mapErr (wrapE (InPipeline name))
        (bindR (pipeline_build L desc m) (\<lambda>build.
          bindR (pipeline_runner R desc) (\<lambda>runner.
            bindR (pipeline_epoch desc) (\<lambda>sourceEpoch.
              parse_stages L R desc (add_pipeline L m
                \<lparr>pl_Name = name, pl_Build = build, pl_Runner = runner, pl_Stages = [],
                 pl_SourceEpoch = sourceEpoch\<rparr>))))))"

section \<open>The manifest\<close>

text \<open>
  \<open>fixupRunners\<close> works on the elements of the slice \<open>m.Pipelines\<close>: it never touches what a
  stale pointer of \<open>byName\<close> points at.
\<close>

definition runners_by_id :: "golib \<Rightarrow> pipeline list \<Rightarrow> string \<rightharpoonup> runner" where
  "runners_by_id L ps =
     fold (\<lambda>p rs. if Pipeline_ID L p \<noteq> [] then rs(Pipeline_ID L p \<mapsto> pl_Runner p) else rs) ps Map.empty"

definition fixup_runner :: "(string \<rightharpoonup> runner) \<Rightarrow> runner \<Rightarrow> pipeline \<Rightarrow> pipeline" where
  "fixup_runner rs host p =
     (case pl_Build p of
        None \<Rightarrow> p\<lparr>pl_Runner := host\<rparr>
      | Some b \<Rightarrow> (case rs b of None \<Rightarrow> p | Some r \<Rightarrow> p\<lparr>pl_Runner := r\<rparr>))"

definition fixupRunners :: "golib \<Rightarrow> registry_api \<Rightarrow> manifest \<Rightarrow> parse_error + manifest" where
  "fixupRunners L R m =
     bindR (mapErr HostRunnerErr (api_DetectHostRunner R)) (\<lambda>ri.
       let host = \<lparr>run_Name = [], run_Path = ri_Path ri\<rparr>; rs = runners_by_id L (mf_Pipelines m)
       in Inr (m\<lparr>mf_Pipelines := map (fixup_runner rs host) (mf_Pipelines m)\<rparr>))"

definition parse_source :: "registry_api \<Rightarrow> string \<times> gval \<Rightarrow> manifest \<Rightarrow> parse_error + manifest" where
  "parse_source R e m =
     (case e of
        (name, GMap sd) \<Rightarrow>
          bindR (mapErr (\<lambda>e. InSource name (RegistryErr e)) (api_Module R ''Source'' name)) (\<lambda>md0.
            Inr (m\<lparr>mf_Sources := mf_Sources m @ [\<lparr>src_Type = name, src_ExecPath = md_Path md0,
                     src_Items = get_map0 sd ''items'', src_Options = get_map0 sd ''options''\<rparr>]\<rparr>))
      | _ \<Rightarrow> Inr m)"

definition empty_manifest :: manifest where
  "empty_manifest = \<lparr>mf_Metadata = [], mf_Pipelines = [], mf_cap = 0, mf_Sources = [],
     mf_byName = Map.empty\<rparr>"

text \<open>\<open>ctx i\<close> is what the \<open>i\<close>-th poll of \<open>ctx.Err()\<close> returns.\<close>

definition parse_pipelines ::
    "golib \<Rightarrow> (nat \<Rightarrow> string option) \<Rightarrow> registry_api \<Rightarrow> gobject \<Rightarrow> manifest \<Rightarrow> parse_error + manifest" where
  "parse_pipelines L ctx R desc m =
     (case get_slice desc ''pipelines'' of
        None \<Rightarrow> Inr m
      | Some pipelines \<Rightarrow>
          foldE (\<lambda>(i, pdesc) m.
            case ctx i of
              Some e \<Rightarrow> Inl (Cancelled e)
            | None \<Rightarrow> (case pdesc of GMap pd \<Rightarrow> parsePipeline L R pd m | _ \<Rightarrow> Inr m))
            (enumerate 0 pipelines) m)"

definition Parse :: "golib \<Rightarrow> (nat \<Rightarrow> string option) \<Rightarrow> registry_api \<Rightarrow> gobject \<Rightarrow> parse_error + manifest" where
  "Parse L ctx R desc =
     (let version = get_string0 desc ''version'' in
      if version \<noteq> ''2'' then Inl (UnsupportedVersion version)
      else
        let m0 = empty_manifest\<lparr>mf_Metadata := fold (\<lambda>(k, v). gset k v) (get_map0 desc ''metadata'') []\<rparr> in
        bindR (case get_map desc ''sources'' of
                 None \<Rightarrow> Inr m0 | Some sources \<Rightarrow> foldE (parse_source R) sources m0) (\<lambda>m1.
          bindR (parse_pipelines L ctx R desc m1) (\<lambda>m2. fixupRunners L R m2)))"

end
