(* ===== verification/ParseFacts.thy ===== *)
theory ParseFacts
  imports Parse
begin

text \<open>
  What the parser of \<open>Parse\<close> guarantees: the order of devices, the shape of the manifest it
  returns, what lookups by name find, and when it can panic.
\<close>

section \<open>The order of devices\<close>

text \<open>A device can be placed when its chain of parents ends inside the map.\<close>

inductive placeable :: "gobject \<Rightarrow> string \<Rightarrow> bool" for devices where
  root: "n \<in> set (gkeys devices) \<Longrightarrow> device_parent devices n = None \<Longrightarrow> placeable devices n"
| child: "n \<in> set (gkeys devices) \<Longrightarrow> device_parent devices n = Some p \<Longrightarrow> placeable devices p
    \<Longrightarrow> placeable devices n"

text \<open>Every name of \<open>xs\<close> comes after its parent, where \<open>seen\<close> comes before all of \<open>xs\<close>.\<close>

fun parents_first :: "gobject \<Rightarrow> string list \<Rightarrow> string list \<Rightarrow> bool" where
  "parents_first devices seen [] = True"
| "parents_first devices seen (n # ns) =
     ((case device_parent devices n of None \<Rightarrow> True | Some p \<Rightarrow> p \<in> set seen)
      \<and> parents_first devices (seen @ [n]) ns)"

lemma inSlice_iff [simp]: "inSlice xs x \<longleftrightarrow> x \<in> set xs"
  by (induction xs) auto

lemma parents_first_append:
  "parents_first devices seen (xs @ ys) \<longleftrightarrow>
     parents_first devices seen xs \<and> parents_first devices (seen @ xs) ys"
  by (induction xs arbitrary: seen) auto

definition waits :: "gobject \<Rightarrow> string list \<Rightarrow> string \<Rightarrow> bool" where
  "waits devices seen n = (\<exists>p. device_parent devices n = Some p \<and> p \<notin> set seen)"

lemma sort_pass_Cons:
  "sort_pass devices (n # todo) result =
     (if waits devices result n
      then (fst (sort_pass devices todo result), n # snd (sort_pass devices todo result))
      else sort_pass devices todo (result @ [n]))"
  by (auto simp: waits_def split: option.split prod.split)

lemma parents_first_Cons:
  "parents_first devices seen (n # ns) \<longleftrightarrow>
     \<not> waits devices seen n \<and> parents_first devices (seen @ [n]) ns"
  by (auto simp: waits_def split: option.split)

lemma sort_pass_spec:
  "\<exists>placed. fst (sort_pass devices todo result) = result @ placed
     \<and> mset todo = mset placed + mset (snd (sort_pass devices todo result))
     \<and> parents_first devices result placed
     \<and> (\<forall>n \<in> set (snd (sort_pass devices todo result)). waits devices result n)"
proof (induction todo arbitrary: result)
  case (Cons n todo)
  show ?case
  proof (cases "waits devices result n")
    case True
    with Cons [of result] show ?thesis by (auto simp only: sort_pass_Cons if_True fst_conv snd_conv set_simps mset.simps) simp_all
  next
    case False
    obtain placed where placed: "fst (sort_pass devices todo (result @ [n])) = (result @ [n]) @ placed"
      "mset todo = mset placed + mset (snd (sort_pass devices todo (result @ [n])))"
      "parents_first devices (result @ [n]) placed"
      "\<forall>k \<in> set (snd (sort_pass devices todo (result @ [n]))). waits devices (result @ [n]) k"
      using Cons [of "result @ [n]"] by blast
    have "waits devices result k" if "waits devices (result @ [n]) k" for k
      using that by (auto simp: waits_def)
    with placed False show ?thesis
      by (intro exI [of _ "n # placed"]) (simp add: sort_pass_Cons parents_first_Cons del: sort_pass.simps parents_first.simps)
  qed
qed simp

lemma sort_loop_spec:
  assumes "parents_first devices [] result"
    and "mset (result @ todo) = mset (gkeys devices)"
  shows "case sort_loop devices todo result of
      Inr sorted' \<Rightarrow> mset sorted' = mset (gkeys devices) \<and> parents_first devices [] sorted'
    | Inl e \<Rightarrow> (\<exists>stuck placed. e = DeviceCycle stuck \<and> stuck \<noteq> []
        \<and> mset (placed @ stuck) = mset (gkeys devices) \<and> parents_first devices [] placed
        \<and> (\<forall>n \<in> set stuck. waits devices placed n))"
  using assms
proof (induction devices todo result rule: sort_loop.induct)
  case (1 devices todo result)
  obtain result' next' where pass: "sort_pass devices todo result = (result', next')" by fastforce
  obtain placed where placed: "result' = result @ placed" "mset todo = mset placed + mset next'"
      "parents_first devices result placed" "\<forall>n \<in> set next'. waits devices result n"
    using sort_pass_spec [of devices todo result] pass by auto
  consider "todo = []" | "todo \<noteq> []" "length next' = length todo"
    | "todo \<noteq> []" "length next' \<noteq> length todo" by blast
  then show ?case
  proof cases
    case 1
    with \<open>mset (result @ todo) = mset (gkeys devices)\<close> \<open>parents_first devices [] result\<close>
    show ?thesis unfolding sort_loop.simps [of devices todo result] by simp
  next
    case 2
    have "placed = []" using arg_cong [OF placed(2), of size] 2 by simp
    then have "mset (result @ next') = mset (gkeys devices)" using placed(2) 1(3) by simp
    moreover have "next' \<noteq> []" using 2 by auto
    ultimately show ?thesis
      using 2 pass placed(4) 1(2) unfolding sort_loop.simps [of devices todo result] by auto
  next
    case 3
    have "parents_first devices [] result'" "mset (result' @ next') = mset (gkeys devices)"
      using 1(2,3) placed by (simp_all add: parents_first_append)
    then show ?thesis
      using 1(1) [OF 3(1) HOL.refl pass [symmetric] 3(2)] 3 pass
      unfolding sort_loop.simps [of devices todo result] by simp
  qed
qed

lemma parents_first_placeable:
  assumes "parents_first devices seen ns" "set ns \<subseteq> set (gkeys devices)"
    and "\<forall>n \<in> set seen. placeable devices n"
  shows "\<forall>n \<in> set ns. placeable devices n"
  using assms
proof (induction ns arbitrary: seen)
  case (Cons n ns)
  have n: "n \<in> set (gkeys devices)" and ns: "set ns \<subseteq> set (gkeys devices)"
    using Cons.prems(2) by simp_all
  have "placeable devices n"
  proof (cases "device_parent devices n")
    case None
    with n show ?thesis by (rule placeable.root)
  next
    case (Some p)
    with Cons.prems(1,3) have "placeable devices p" by simp
    with n Some show ?thesis by (rule placeable.child)
  qed
  with Cons.IH [of "seen @ [n]"] Cons.prems(1,3) ns show ?case by simp
qed simp

lemma not_placeable_stuck:
  assumes "\<forall>n \<in> set stuck. waits devices placed n"
    and "set (gkeys devices) = set placed \<union> set stuck" "placeable devices n"
  shows "n \<notin> set stuck"
  using assms(3)
proof (induction rule: placeable.induct)
  case (child n p)
  then have "p \<in> set placed" using assms(2) by (auto elim: placeable.cases)
  with child assms(1) show ?case by (auto simp: waits_def)
qed (use assms(1) in \<open>auto simp: waits_def\<close>)

lemma sortDevices_spec:
  "case sortDevices devices of
      Inr sorted' \<Rightarrow> mset sorted' = mset (gkeys devices) \<and> parents_first devices [] sorted'
    | Inl e \<Rightarrow> (\<exists>stuck placed. e = DeviceCycle stuck \<and> stuck \<noteq> []
        \<and> mset (placed @ stuck) = mset (gkeys devices) \<and> parents_first devices [] placed
        \<and> (\<forall>n \<in> set stuck. waits devices placed n))"
  unfolding sortDevices_def by (rule sort_loop_spec) simp_all

text \<open>C10: \<open>sortDevices\<close> is correct on every map of devices: either it returns the names of the map,
  each once, every device after its parent; or some device has no chain of parents inside the map,
  and the error names exactly those devices. It returns in both cases: there is no third one.\<close>

theorem sortDevices_correct:
  "case sortDevices devices of
     Inr sorted' \<Rightarrow> mset sorted' = mset (gkeys devices) \<and> parents_first devices [] sorted'
   | Inl e \<Rightarrow> (\<exists>stuck. e = DeviceCycle stuck \<and> stuck \<noteq> []
       \<and> set stuck = {n \<in> set (gkeys devices). \<not> placeable devices n})"
proof (cases "sortDevices devices")
  case (Inl e)
  then obtain stuck placed where *: "e = DeviceCycle stuck" "stuck \<noteq> []"
    "mset (placed @ stuck) = mset (gkeys devices)" "parents_first devices [] placed"
    "\<forall>n \<in> set stuck. waits devices placed n"
    using sortDevices_spec [of devices] by auto
  have keys: "set (gkeys devices) = set placed \<union> set stuck"
    using mset_eq_setD [OF *(3)] by simp
  have "\<forall>n \<in> set placed. placeable devices n"
    using parents_first_placeable [OF *(4)] keys by simp
  with keys not_placeable_stuck [OF *(5) keys]
  have "set stuck = {n \<in> set (gkeys devices). \<not> placeable devices n}" by blast
  with Inl *(1,2) show ?thesis by auto
qed (use sortDevices_spec [of devices] in simp)

section \<open>The manifest the parser returns\<close>

text \<open>The values the JSON decoder produces: at every depth the keys of an object are distinct.\<close>

inductive json_ok :: "gval \<Rightarrow> bool" where
  leaf: "(\<forall>o'. v \<noteq> GMap o') \<Longrightarrow> (\<forall>xs. v \<noteq> GSlice xs) \<Longrightarrow> json_ok v"
| object: "gmap_ok o' \<Longrightarrow> (\<forall>(k, v) \<in> set o'. json_ok v) \<Longrightarrow> json_ok (GMap o')"
| array: "(\<forall>v \<in> set xs. json_ok v) \<Longrightarrow> json_ok (GSlice xs)"

inductive_cases json_ok_GMapE: "json_ok (GMap o')"
inductive_cases json_ok_GSliceE: "json_ok (GSlice xs)"

lemma json_ok_map_of: "json_ok (GMap o') \<Longrightarrow> map_of o' k = Some v \<Longrightarrow> json_ok v"
  by (auto elim!: json_ok_GMapE dest!: map_of_SomeD)

lemma json_ok_get_map: "json_ok (GMap o') \<Longrightarrow> get_map o' k = Some d \<Longrightarrow> json_ok (GMap d)"
  by (auto simp: get_map_def split: option.splits gval.splits dest: json_ok_map_of)

lemma json_ok_get_slice:
  "json_ok (GMap o') \<Longrightarrow> get_slice o' k = Some xs \<Longrightarrow> v \<in> set xs \<Longrightarrow> json_ok v"
  by (auto simp: get_slice_def split: option.splits gval.splits dest!: json_ok_map_of elim: json_ok_GSliceE)

text \<open>
  What the stage runner relies on: the devices of a stage are listed parents first, a mount names
  a device of the same stage, and every module object carries the name it is filed under.
\<close>

fun devices_closed :: "(string \<rightharpoonup> device) \<Rightarrow> (string \<times> device) list \<Rightarrow> bool" where
  "devices_closed seen [] = True"
| "devices_closed seen ((n, d) # ds) =
     (dev_Name d = n
      \<and> (case dev_Parent d of None \<Rightarrow> True | Some p \<Rightarrow> seen (dev_Name p) = Some p)
      \<and> devices_closed (seen(n \<mapsto> d)) ds)"

definition mount_ok :: "device omap \<Rightarrow> string \<Rightarrow> mount \<Rightarrow> bool" where
  "mount_ok devs n mnt \<longleftrightarrow> mnt_Name mnt = n
     \<and> (case mnt_Device mnt of None \<Rightarrow> True | Some d \<Rightarrow> om_Get devs (dev_Name d) = Some d)"

definition stage_ok :: "stage \<Rightarrow> bool" where
  "stage_ok s \<longleftrightarrow> om_inv (st_Inputs s) \<and> om_inv (st_Devices s) \<and> om_inv (st_Mounts s)
     \<and> devices_closed Map.empty (om_items (st_Devices s))
     \<and> (\<forall>(n, ip) \<in> set (om_items (st_Inputs s)). in_Name ip = n \<and> gmap_ok (in_Refs ip))
     \<and> (\<forall>(n, mnt) \<in> set (om_items (st_Mounts s)). mount_ok (st_Devices s) n mnt)"

lemma devices_closed_append:
  "devices_closed seen (xs @ ys) \<longleftrightarrow> devices_closed seen xs \<and> devices_closed (seen ++ map_of (rev xs)) ys"
proof (induction xs arbitrary: seen)
  case (Cons x xs)
  obtain n d where x: "x = (n, d)" by (cases x)
  have "seen(n \<mapsto> d) ++ map_of (rev xs) = seen ++ map_of (rev (x # xs))"
    by (simp add: x fun_eq_iff map_add_def split: option.split)
  then show ?case unfolding x by (simp add: Cons fun_upd_def)
qed simp

lemma map_of_rev: "distinct (map fst xs) \<Longrightarrow> map_of (rev xs) = map_of xs"
  by (subst map_of_inject_set) (simp_all add: rev_map [symmetric])

lemma devices_closed_names: "devices_closed seen ds \<Longrightarrow> (n, d) \<in> set ds \<Longrightarrow> dev_Name d = n"
  by (induction seen ds rule: devices_closed.induct) auto

lemma om_Get_items: "om_inv m \<Longrightarrow> om_Get m k = Some v \<Longrightarrow> (k, v) \<in> set (om_items m)"
  by (metis map_of_om_items map_of_SomeD om_Get_def)

lemma update_subset: "set (AList.update k v xs) \<subseteq> insert (k, v) (set xs)"
  by (induction xs) auto

lemma set_om_items_Set:
  "om_inv m \<Longrightarrow> set (om_items (om_Set m k v)) \<subseteq> insert (k, v) (set (om_items m))"
  using update_subset [of k v "om_items m"] by (simp add: om_items_Set)

text \<open>\<open>in_progress L m0 p0 m\<close>: \<open>m\<close> is \<open>m0\<close> with the pipeline \<open>p0\<close> at its end, some of whose stages are
  already parsed.\<close>

definition in_progress :: "golib \<Rightarrow> manifest \<Rightarrow> pipeline \<Rightarrow> stage list \<Rightarrow> manifest \<Rightarrow> bool" where
  "in_progress L m0 p0 ss m \<longleftrightarrow>
     m = m0\<lparr>mf_Pipelines := mf_Pipelines m0 @ [p0\<lparr>pl_Stages := ss\<rparr>]\<rparr>
     \<and> pipeline_chain L (p0\<lparr>pl_Stages := ss\<rparr>) \<and> (\<forall>s \<in> set ss. stage_ok s)"

lemma in_progress_cur_stage: "in_progress L m0 p0 (ss @ [s]) m \<Longrightarrow> cur_stage m = s"
  by (simp add: in_progress_def cur_stage_def)

lemma in_progress_set_stage:
  assumes "in_progress L m0 p0 (ss @ [s]) m" "stage_ok s'"
    and "st_Base s' = st_Base s" "st_Build s' = st_Build s" "st_SourceEpoch s' = st_SourceEpoch s"
  shows "in_progress L m0 p0 (ss @ [s']) (set_stage m s')"
  using assms
  by (auto simp: in_progress_def set_stage_def set_pipeline_def pipeline_chain_def chained_snoc)

lemma in_progress_AddStage:
  assumes "in_progress L m0 p0 ss m"
  shows "\<exists>s. in_progress L m0 p0 (ss @ [s])
           (set_pipeline m (AddStage L (last (mf_Pipelines m)) ty ex caps opts
              (pl_SourceEpoch (last (mf_Pipelines m)))))
         \<and> st_Devices s = NewOrderedMap \<and> st_Type s = ty"
proof -
  let ?p = "p0\<lparr>pl_Stages := ss\<rparr>"
  have m: "m = m0\<lparr>mf_Pipelines := mf_Pipelines m0 @ [?p]\<rparr>" "pipeline_chain L ?p" "\<forall>s \<in> set ss. stage_ok s"
    using assms by (simp_all add: in_progress_def)
  have "pipeline_chain L (AddStage L ?p ty ex caps opts (pl_SourceEpoch ?p))"
    using m(2) by (rule pipeline_chain_AddStage)
  with m show ?thesis
    by (auto simp: in_progress_def set_pipeline_def AddStage_def Let_def stage_ok_def)
qed

text \<open>One more device, input or mount keeps a stage in order.\<close>

lemma stage_ok_device:
  assumes "stage_ok s" "name \<notin> set (om_keys (st_Devices s))" "dev_Name d = name"
    and "\<And>p. dev_Parent d = Some p \<Longrightarrow> \<exists>n. om_Get (st_Devices s) n = Some p"
  shows "stage_ok (s\<lparr>st_Devices := om_Set (st_Devices s) name d\<rparr>)"
proof -
  have inv: "om_inv (st_Devices s)" and closed: "devices_closed Map.empty (om_items (st_Devices s))"
    using assms(1) by (simp_all add: stage_ok_def)
  have items: "om_items (om_Set (st_Devices s) name d) = om_items (st_Devices s) @ [(name, d)]"
    using inv assms(2) by (simp add: om_items_Set update_append_fresh)
  have found: "om_Get (st_Devices s) (dev_Name p) = Some p" if "om_Get (st_Devices s) n = Some p" for n p
    using devices_closed_names [OF closed om_Get_items [OF inv that]] that by simp
  have "map_of (rev (om_items (st_Devices s))) = om_Get (st_Devices s)"
    using inv by (subst map_of_rev) (auto simp: om_inv_def map_of_om_items om_Get_def fun_eq_iff)
  then have "devices_closed Map.empty (om_items (om_Set (st_Devices s) name d))"
    using closed assms(3,4) found by (auto simp: items devices_closed_append split: option.split)
  moreover have "mount_ok (om_Set (st_Devices s) name d) n mnt" if "mount_ok (st_Devices s) n mnt" for n mnt
    using that assms(2) inv om.get_keys [OF inv, of "dev_Name (the (mnt_Device mnt))"]
    by (auto simp: mount_ok_def om.get_put om_Keys_def split: option.splits)
  ultimately show ?thesis using assms(1) by (auto simp: stage_ok_def)
qed

lemma stage_ok_input:
  assumes "stage_ok s" "in_Name ip = name" "gmap_ok (in_Refs ip)"
  shows "stage_ok (s\<lparr>st_Inputs := om_Set (st_Inputs s) name ip\<rparr>)"
  using assms set_om_items_Set [of "st_Inputs s" name ip] by (auto simp: stage_ok_def)

lemma stage_ok_mount:
  assumes "stage_ok s" "mount_ok (st_Devices s) name mnt"
  shows "stage_ok (s\<lparr>st_Mounts := om_Set (st_Mounts s) name mnt\<rparr>)"
  using assms set_om_items_Set [of "st_Mounts s" name mnt] by (auto simp: stage_ok_def)

lemma loadDevice_in_progress:
  assumes "in_progress L m0 p0 (ss @ [s]) m" "name \<notin> set (om_keys (st_Devices s))"
    and "loadDevice R name desc m = Inr m'"
  shows "\<exists>s'. in_progress L m0 p0 (ss @ [s']) m' \<and> set (om_keys (st_Devices s')) = insert name (set (om_keys (st_Devices s)))"
proof -
  have cur: "cur_stage m = s" using assms(1) by (rule in_progress_cur_stage)
  have ok: "stage_ok s" using assms(1) by (simp add: in_progress_def)
  obtain d where m': "m' = set_stage m (s\<lparr>st_Devices := om_Set (st_Devices s) name d\<rparr>)"
    and "dev_Name d = name" "\<And>p. dev_Parent d = Some p \<Longrightarrow> \<exists>n. om_Get (st_Devices s) n = Some p"
    using assms(3) cur
    by (fastforce simp: loadDevice_def Let_def bindR_eq_Inr split: if_splits option.splits)
  then have ok': "stage_ok (s\<lparr>st_Devices := om_Set (st_Devices s) name d\<rparr>)"
    using stage_ok_device [OF ok assms(2)] by blast
  have "set (om_keys (om_Set (st_Devices s) name d)) = insert name (set (om_keys (st_Devices s)))"
    by (auto simp: om_Set_def Let_def om_inv_def domIff) (use ok in \<open>auto simp: stage_ok_def om_inv_def\<close>)
  then show ?thesis
    unfolding m' using in_progress_set_stage [OF assms(1) ok'] by fastforce
qed

lemma loadInput_in_progress:
  assumes "in_progress L m0 p0 (ss @ [s]) m" "loadInput L R name desc m = Inr m'" "json_ok (GMap desc)"
  shows "\<exists>s'. in_progress L m0 p0 (ss @ [s']) m'"
proof -
  have cur: "cur_stage m = s" using assms(1) by (rule in_progress_cur_stage)
  have ok: "stage_ok s" using assms(1) by (simp add: in_progress_def)
  have refs: "gmap_ok refs" if "load_refs L b m r = Inr refs" for b r refs
  proof -
    have item: "gmap_ok acc'" if "load_ref_item L b m item acc = Inr acc'" "gmap_ok acc" for item acc acc'
      using that by (auto simp: load_ref_item_def bindR_eq_Inr split: gval.splits)
    show ?thesis
      using that
      by (auto simp: load_refs_def bindR_eq_Inr split: option.splits gval.splits
          elim!: foldE_invariant [where P = gmap_ok] intro: item)
  qed
  obtain ip where m': "m' = set_stage m (s\<lparr>st_Inputs := om_Set (st_Inputs s) name ip\<rparr>)"
    and "in_Name ip = name" "gmap_ok (in_Refs ip)"
    using assms(2) cur
    by (fastforce simp: loadInput_def Let_def bindR_eq_Inr mapErr_eq_Inr split: if_splits intro: refs)
  then have "stage_ok (s\<lparr>st_Inputs := om_Set (st_Inputs s) name ip\<rparr>)"
    using stage_ok_input [OF ok] by blast
  then show ?thesis
    unfolding m' using in_progress_set_stage [OF assms(1)] by fastforce
qed

lemma loadMount_in_progress:
  assumes "in_progress L m0 p0 (ss @ [s]) m" "loadMount R desc m = Inr m'"
  shows "\<exists>s'. in_progress L m0 p0 (ss @ [s']) m'"
proof -
  have cur: "cur_stage m = s" using assms(1) by (rule in_progress_cur_stage)
  have ok: "stage_ok s" using assms(1) by (simp add: in_progress_def)
  then have found: "om_Get (st_Devices s) (dev_Name p) = Some p" if "om_Get (st_Devices s) n = Some p" for n p
    using devices_closed_names om_Get_items that unfolding stage_ok_def by metis
  obtain name mnt where m': "m' = set_stage m (s\<lparr>st_Mounts := om_Set (st_Mounts s) name mnt\<rparr>)"
    and "mnt_Name mnt = name" "\<And>d. mnt_Device mnt = Some d \<Longrightarrow> \<exists>n. om_Get (st_Devices s) n = Some d"
    using assms(2) cur
    by (fastforce simp: loadMount_def Let_def bindR_eq_Inr mapErr_eq_Inr split: if_splits option.splits)
  then have "mount_ok (st_Devices s) name mnt"
    using found by (auto simp: mount_ok_def split: option.split)
  then have "stage_ok (s\<lparr>st_Mounts := om_Set (st_Mounts s) name mnt\<rparr>)"
    using stage_ok_mount [OF ok] by blast
  then show ?thesis
    unfolding m' using in_progress_set_stage [OF assms(1)] by fastforce
qed

lemma parse_devices_in_progress:
  assumes "in_progress L m0 p0 (ss @ [s]) m" "om_keys (st_Devices s) = []"
    and "parse_devices R desc m = Inr m'" "json_ok (GMap desc)"
  shows "\<exists>s'. in_progress L m0 p0 (ss @ [s']) m'"
proof (cases "get_map desc ''devices''")
  case None
  with assms show ?thesis by (auto simp: parse_devices_def)
next
  case (Some devs)
  have loop: "\<exists>s'. in_progress L m0 p0 (ss @ [s']) m'"
    if "foldE (load_sorted_device R devs) ns m = Inr m'" "distinct ns"
      "set ns \<inter> set (om_keys (st_Devices s)) = {}" "in_progress L m0 p0 (ss @ [s]) m" for ns s m
    using that
  proof (induction ns arbitrary: s m)
    case (Cons n ns)
    then obtain m1 where m1: "load_sorted_device R devs n m = Inr m1" "foldE (load_sorted_device R devs) ns m1 = Inr m'"
      by (auto simp: bindR_eq_Inr)
    then obtain s1 where "in_progress L m0 p0 (ss @ [s1]) m1"
      "set (om_keys (st_Devices s1)) = insert n (set (om_keys (st_Devices s)))"
      using Cons.prems loadDevice_in_progress [of L m0 p0 ss s m n R _ m1]
      by (auto simp: load_sorted_device_def split: option.splits gval.splits)
    with Cons.IH [OF m1(2), of s1] Cons.prems show ?case by auto
  qed auto
  obtain ns where ns: "sortDevices devs = Inr ns" "foldE (load_sorted_device R devs) ns m = Inr m'"
    using assms(3) Some by (auto simp: parse_devices_def bindR_eq_Inr)
  have "gmap_ok devs"
    using json_ok_get_map [OF assms(4) Some] by (auto elim: json_ok_GMapE)
  moreover have "mset ns = mset (gkeys devs)"
    using sortDevices_spec [of devs] ns(1) by simp
  ultimately have "distinct ns" by (metis gmap_ok_def mset_eq_imp_distinct_iff)
  then show ?thesis using loop [OF ns(2), of s] assms(1,2) by simp
qed

lemma parse_inputs_in_progress:
  assumes "in_progress L m0 p0 (ss @ [s]) m" "parse_inputs L R desc m = Inr m'" "json_ok (GMap desc)"
  shows "\<exists>s'. in_progress L m0 p0 (ss @ [s']) m'"
proof (cases "get_map desc ''inputs''")
  case None
  with assms show ?thesis by (auto simp: parse_inputs_def)
next
  case (Some inputs)
  have ok: "json_ok v" if "(n, v) \<in> set inputs" for n v
    using json_ok_get_map [OF assms(3) Some] that by (auto elim: json_ok_GMapE)
  show ?thesis
    using assms(2) unfolding parse_inputs_def Some option.case
  proof (elim foldE_invariant)
    show "\<exists>s'. in_progress L m0 p0 (ss @ [s']) m" using assms(1) by blast
  qed (auto split: gval.splits dest!: ok dest: loadInput_in_progress)
qed

lemma parse_mounts_in_progress:
  assumes "in_progress L m0 p0 (ss @ [s]) m" "parse_mounts R desc m = Inr m'"
  shows "\<exists>s'. in_progress L m0 p0 (ss @ [s']) m'"
proof (cases "get_slice desc ''mounts''")
  case None
  with assms show ?thesis by (auto simp: parse_mounts_def)
next
  case (Some mounts)
  show ?thesis
    using assms(2) unfolding parse_mounts_def Some option.case
  proof (elim foldE_invariant)
    show "\<exists>s'. in_progress L m0 p0 (ss @ [s']) m" using assms(1) by blast
  qed (auto split: gval.splits dest: loadMount_in_progress)
qed

lemma parseStage_in_progress:
  assumes "in_progress L m0 p0 ss m" "parseStage L R desc m = Inr m'" "json_ok (GMap desc)"
  shows "\<exists>s'. in_progress L m0 p0 (ss @ [s']) m'"
proof -
  obtain md :: gomodule and m2 m3 where steps:
    "parse_devices R desc (set_pipeline m (AddStage L (last (mf_Pipelines m)) (get_string0 desc ''type'') (md_Path md)
       (md_Caps md) (get_map desc ''options'') (pl_SourceEpoch (last (mf_Pipelines m))))) = Inr m2"
    "parse_inputs L R desc m2 = Inr m3" "parse_mounts R desc m3 = Inr m'"
    using assms(2)
    by (simp add: parseStage_def Let_def bindR_eq_Inr mapErr_eq_Inr split: if_splits)
      blast
  obtain s1 where "in_progress L m0 p0 (ss @ [s1]) (set_pipeline m (AddStage L (last (mf_Pipelines m))
      (get_string0 desc ''type'') (md_Path md) (md_Caps md) (get_map desc ''options'')
      (pl_SourceEpoch (last (mf_Pipelines m)))))" "om_keys (st_Devices s1) = []"
    using in_progress_AddStage [OF assms(1)] by (force simp: NewOrderedMap_def)
  then obtain s2 where "in_progress L m0 p0 (ss @ [s2]) m2"
    using parse_devices_in_progress [OF _ _ steps(1) assms(3)] by blast
  then obtain s3 where "in_progress L m0 p0 (ss @ [s3]) m3"
    using parse_inputs_in_progress [OF _ steps(2) assms(3)] by blast
  then show ?thesis using parse_mounts_in_progress [OF _ steps(3)] by blast
qed

lemma parse_stages_in_progress:
  assumes "in_progress L m0 p0 ss m" "parse_stages L R desc m = Inr m'" "json_ok (GMap desc)"
  shows "\<exists>ss'. in_progress L m0 p0 ss' m'"
proof (cases "get_slice desc ''stages''")
  case None
  with assms show ?thesis by (auto simp: parse_stages_def)
next
  case (Some stages)
  have ok: "json_ok v" if "v \<in> set stages" for v
    using json_ok_get_slice [OF assms(3) Some that] .
  show ?thesis
    using assms(2) unfolding parse_stages_def Some option.case
  proof (elim foldE_invariant)
    show "\<exists>ss'. in_progress L m0 p0 ss' m" using assms(1) by blast
  qed (auto split: gval.splits dest!: ok dest: parseStage_in_progress)
qed

text \<open>Parsing a pipeline appends it to the manifest and changes nothing else but \<open>byName\<close>.\<close>

lemma parsePipeline_appends:
  assumes "parsePipeline L R desc m = Inr m'" "json_ok (GMap desc)"
  obtains p where "pl_Name p = get_string0 desc ''name''" "pl_Name p \<noteq> []"
    "pipeline_build L desc m = Inr (pl_Build p)" "pipeline_runner R desc = Inr (pl_Runner p)"
    "pipeline_epoch desc = Inr (pl_SourceEpoch p)" "pipeline_chain L p"
    "\<forall>s \<in> set (pl_Stages p). stage_ok s" "m' = add_pipeline L m p"
proof -
  let ?name = "get_string0 desc ''name''"
  let ?p = "\<lambda>b r e ss. \<lparr>pl_Name = ?name, pl_Build = b, pl_Runner = r, pl_Stages = ss, pl_SourceEpoch = e\<rparr>"
  obtain b r e where name: "?name \<noteq> []" and b: "pipeline_build L desc m = Inr b"
    and r: "pipeline_runner R desc = Inr r" and e: "pipeline_epoch desc = Inr e"
    and stages: "parse_stages L R desc (add_pipeline L m (?p b r e [])) = Inr m'"
    using assms(1) by (auto simp: parsePipeline_def Let_def bindR_eq_Inr mapErr_eq_Inr split: if_splits)
  define m0 where "m0 = (add_pipeline L m (?p b r e []))\<lparr>mf_Pipelines := mf_Pipelines m\<rparr>"
  have added: "add_pipeline L m (?p b r e ss) = m0\<lparr>mf_Pipelines := mf_Pipelines m @ [?p b r e ss]\<rparr>" for ss
    by (simp add: m0_def add_pipeline_def append_pipeline_def Let_def)
  have "mf_Pipelines m0 = mf_Pipelines m" by (simp add: m0_def)
  note added = added [folded this]
  have "in_progress L m0 (?p b r e []) [] (add_pipeline L m (?p b r e []))"
    unfolding in_progress_def added by (simp add: pipeline_chain_def)
  then obtain ss where "in_progress L m0 (?p b r e []) ss m'"
    using parse_stages_in_progress [OF _ stages assms(2)] by blast
  then have "m' = add_pipeline L m (?p b r e ss)" "pipeline_chain L (?p b r e ss)" "\<forall>s \<in> set ss. stage_ok s"
    by (simp_all add: in_progress_def added)
  with name b r e show ?thesis by (intro that [of "?p b r e ss"]) simp_all
qed

lemma Pipeline_ID_runner [simp]: "Pipeline_ID L (p\<lparr>pl_Runner := r\<rparr>) = Pipeline_ID L p"
  by (simp add: Pipeline_ID_def)

text \<open>
  What \<open>byName\<close> holds: for each name the last pipeline of that name, possibly through a pointer to
  an array the slice has left behind.
\<close>

definition ref_ok :: "pipeline list \<Rightarrow> string \<Rightarrow> pl_ref \<Rightarrow> bool" where
  "ref_ok ps n r = (let i = (case r of Live i \<Rightarrow> i | Stale i q \<Rightarrow> i) in
     i < length ps \<and> pl_Name (ps ! i) = n \<and> (\<forall>j. i < j \<and> j < length ps \<longrightarrow> pl_Name (ps ! j) \<noteq> n)
     \<and> (case r of Live i \<Rightarrow> True | Stale i q \<Rightarrow> q\<lparr>pl_Runner := pl_Runner (ps ! i)\<rparr> = ps ! i))"

definition names_ok :: "manifest \<Rightarrow> bool" where
  "names_ok m \<longleftrightarrow> (\<forall>n. case mf_byName m n of
       None \<Rightarrow> n \<notin> pl_Name ` set (mf_Pipelines m)
     | Some r \<Rightarrow> ref_ok (mf_Pipelines m) n r)"

lemma ref_ok_append: "ref_ok ps n r \<Longrightarrow> pl_Name p \<noteq> n \<Longrightarrow> ref_ok (ps @ [p]) n r"
  by (cases r) (auto simp: ref_ok_def Let_def nth_append)

lemma ref_ok_stale: "ref_ok ps n (Live i) \<Longrightarrow> ref_ok ps n (Stale i (ps ! i))"
  by (simp add: ref_ok_def)

lemma names_ok_add_pipeline:
  assumes "names_ok m"
  shows "names_ok (add_pipeline L m p)"
proof -
  let ?ps = "mf_Pipelines m" and ?m' = "add_pipeline L m p"
  have ps: "mf_Pipelines ?m' = ?ps @ [p]"
    by (simp add: add_pipeline_def append_pipeline_def Let_def)
  have "case mf_byName ?m' n of None \<Rightarrow> n \<notin> pl_Name ` set (?ps @ [p]) | Some r \<Rightarrow> ref_ok (?ps @ [p]) n r" for n
  proof (cases "n = pl_Name p")
    case True
    then have "mf_byName ?m' n = Some (Live (length ?ps))"
      by (simp add: add_pipeline_def append_pipeline_def Let_def)
    with True show ?thesis by (auto simp: ref_ok_def Let_def)
  next
    case False
    then have old: "mf_byName ?m' n = mf_byName m n
        \<or> (\<exists>i. mf_byName m n = Some (Live i) \<and> mf_byName ?m' n = Some (Stale i (?ps ! i)))"
      by (cases "mf_byName m n")
        (auto simp: add_pipeline_def append_pipeline_def Let_def split: pl_ref.splits)
    have "case mf_byName m n of None \<Rightarrow> n \<notin> pl_Name ` set ?ps | Some r \<Rightarrow> ref_ok ?ps n r"
      using assms by (simp add: names_ok_def)
    with old False show ?thesis
      by (auto split: option.splits intro!: ref_ok_append dest: ref_ok_stale)
  qed
  then show ?thesis unfolding names_ok_def ps by blast
qed

lemma names_ok_runners:
  assumes "names_ok m" "\<And>p. \<exists>r. f p = p\<lparr>pl_Runner := r\<rparr>"
  shows "names_ok (m\<lparr>mf_Pipelines := map f (mf_Pipelines m)\<rparr>)"
proof -
  have name: "pl_Name (f p) = pl_Name p" for p using assms(2) [of p] by (metis pipeline.select_convs(1) pipeline.surjective pipeline.update_convs(3))
  have run: "q\<lparr>pl_Runner := pl_Runner (f p)\<rparr> = f p" if "q\<lparr>pl_Runner := pl_Runner p\<rparr> = p" for p q
  proof -
    obtain r where "f p = p\<lparr>pl_Runner := r\<rparr>" using assms(2) by blast
    then have "f p = (q\<lparr>pl_Runner := pl_Runner p\<rparr>)\<lparr>pl_Runner := r\<rparr>" using that by simp
    then show ?thesis by simp
  qed
  have "ref_ok (map f ps) n r" if "ref_ok ps n r" for ps n r
    using that by (cases r) (auto simp: ref_ok_def Let_def name intro: run)
  moreover have "pl_Name ` set (map f ps) = pl_Name ` set ps" for ps by (simp add: name image_image)
  ultimately have "case mf_byName m n of
      None \<Rightarrow> n \<notin> pl_Name ` set (map f (mf_Pipelines m))
    | Some r \<Rightarrow> ref_ok (map f (mf_Pipelines m)) n r" for n
    using assms(1) [unfolded names_ok_def, rule_format, of n] by (cases "mf_byName m n") simp_all
  then show ?thesis unfolding names_ok_def by (simp cong: option.case_cong del: image_image set_map)
qed

text \<open>The invariant of the loop over the pipelines.\<close>

definition manifest_ok :: "golib \<Rightarrow> manifest \<Rightarrow> bool" where
  "manifest_ok L m \<longleftrightarrow> names_ok m \<and> (\<forall>p \<in> set (mf_Pipelines m).
     pl_Name p \<noteq> [] \<and> pipeline_chain L p \<and> (\<forall>s \<in> set (pl_Stages p). stage_ok s))"

lemma fixup_runner_only: "\<exists>r. fixup_runner rs h p = p\<lparr>pl_Runner := r\<rparr>"
  by (cases "pl_Build p") (auto simp: fixup_runner_def split: option.split intro: exI [of _ "pl_Runner p"])

lemma parsePipeline_ok:
  assumes "parsePipeline L R desc m = Inr m'" "json_ok (GMap desc)" "manifest_ok L m"
  shows "manifest_ok L m'"
proof -
  obtain p where "pl_Name p \<noteq> []" "pipeline_chain L p" "\<forall>s \<in> set (pl_Stages p). stage_ok s"
    and m': "m' = add_pipeline L m p"
    using parsePipeline_appends [OF assms(1,2)] by blast
  moreover have "mf_Pipelines m' = mf_Pipelines m @ [p]"
    by (simp add: m' add_pipeline_def append_pipeline_def Let_def)
  ultimately show ?thesis
    using assms(3) names_ok_add_pipeline by (auto simp: manifest_ok_def)
qed

lemma fixupRunners_ok:
  assumes "fixupRunners L R m = Inr m'" "manifest_ok L m"
  shows "manifest_ok L m'"
proof -
  obtain rs h where m': "m' = m\<lparr>mf_Pipelines := map (fixup_runner rs h) (mf_Pipelines m)\<rparr>"
    using assms(1) by (auto simp: fixupRunners_def bindR_eq_Inr Let_def)
  have same: "pl_Name (fixup_runner rs h p) = pl_Name p" "pl_Stages (fixup_runner rs h p) = pl_Stages p"
    "pl_Build (fixup_runner rs h p) = pl_Build p" "pl_SourceEpoch (fixup_runner rs h p) = pl_SourceEpoch p" for p
    by (auto simp: fixup_runner_def split: option.split)
  have "names_ok m'"
    unfolding m' using assms(2) fixup_runner_only by (intro names_ok_runners) (auto simp: manifest_ok_def)
  with assms(2) show ?thesis
    by (auto simp: manifest_ok_def m' same pipeline_chain_def)
qed

lemma Parse_phases:
  assumes "Parse L ctx R desc = Inr m"
  obtains m1 m2 where "mf_Pipelines m1 = []" "mf_byName m1 = Map.empty"
    "parse_pipelines L ctx R desc m1 = Inr m2" "fixupRunners L R m2 = Inr m"
proof -
  define m0 where "m0 = empty_manifest\<lparr>mf_Metadata := fold (\<lambda>(k, v). gset k v) (get_map0 desc ''metadata'') []\<rparr>"
  obtain m1 m2 where m1: "(case get_map desc ''sources'' of
        None \<Rightarrow> Inr m0 | Some sources \<Rightarrow> foldE (parse_source R) sources m0) = Inr m1"
    and rest: "parse_pipelines L ctx R desc m1 = Inr m2" "fixupRunners L R m2 = Inr m"
    using assms unfolding Parse_def Let_def m0_def
    by (simp add: bindR_eq_Inr split: if_splits) blast
  let ?P = "\<lambda>m. mf_Pipelines m = [] \<and> mf_byName m = Map.empty"
  have m0: "?P m0" by (simp add: m0_def empty_manifest_def)
  have "?P m1"
  proof (cases "get_map desc ''sources''")
    case (Some sources)
    with m1 have "foldE (parse_source R) sources m0 = Inr m1" by simp
    then show ?thesis
      by (rule foldE_invariant [where P = ?P]) (use m0 in \<open>auto simp: parse_source_def bindR_eq_Inr split: gval.splits\<close>)
  qed (use m1 m0 in simp)
  with rest show ?thesis by (intro that) simp_all
qed

lemma Parse_ok:
  assumes "json_ok (GMap desc)" "Parse L ctx R desc = Inr m"
  shows "manifest_ok L m"
proof -
  obtain m1 m2 where m: "mf_Pipelines m1 = []" "mf_byName m1 = Map.empty"
    "parse_pipelines L ctx R desc m1 = Inr m2" "fixupRunners L R m2 = Inr m"
    using Parse_phases [OF assms(2)] .
  have m1: "manifest_ok L m1" using m(1,2) by (simp add: manifest_ok_def names_ok_def)
  have "manifest_ok L m2"
  proof (cases "get_slice desc ''pipelines''")
    case (Some pipelines)
    have ok: "json_ok v" if "(i, v) \<in> set (enumerate 0 pipelines)" for i v
      using json_ok_get_slice [OF assms(1) Some, of v] that by (auto simp: in_set_enumerate_eq)
    show ?thesis
      using m(3) unfolding parse_pipelines_def Some option.case
      by (rule foldE_invariant [where P = "manifest_ok L"])
        (auto simp: m1 split: option.splits gval.splits dest!: ok dest: parsePipeline_ok)
  qed (use m(3) m1 in \<open>simp add: parse_pipelines_def\<close>)
  then show ?thesis using fixupRunners_ok [OF m(4)] by blast
qed

text \<open>A concrete manifest, and a registry that knows every module.\<close>

definition demo_api :: registry_api where
  "demo_api = \<lparr>api_Module = (\<lambda>k n. Inr \<lparr>md_Name = n, md_Kind = k, md_Path = ''/lib/'' @ n,
       md_Desc = [], md_Info = [], md_Caps = [], md_Schemas = []\<rparr>),
     api_DetectRunner = (\<lambda>n. Inr \<lparr>ri_Distro = n, ri_Version = 0, ri_Path = ''/runners/'' @ n\<rparr>),
     api_DetectHostRunner = Inr \<lparr>ri_Distro = ''linux'', ri_Version = 0, ri_Path = ''/runners/linux''\<rparr>\<rparr>"

definition demo_devices :: gobject where
  "demo_devices = [(''lv'', GMap [(''type'', GString ''lvm2''), (''parent'', GString ''disk'')]),
     (''disk'', GMap [(''type'', GString ''loop'')])]"

definition demo_desc :: "gval \<Rightarrow> gobject" where
  "demo_desc devices = [(''version'', GString ''2''), (''pipelines'', GSlice
     [GMap [(''name'', GString ''build''), (''runner'', GString ''fedora38'')],
      GMap [(''name'', GString ''os''), (''runner'', GString ''rhel9''),
        (''stages'', GSlice [GMap [(''type'', GString ''mkfs''), (''devices'', devices)]])]])]"

lemmas parse_eval =
  Parse_def demo_desc_def demo_devices_def demo_api_def get_string0_def get_string_def get_map0_def get_map_def
  empty_manifest_def parse_pipelines_def get_slice_def parsePipeline_def pipeline_build_def
  pipeline_runner_def pipeline_epoch_def parse_stages_def add_pipeline_def append_pipeline_def
  fixupRunners_def runners_by_id_def fixup_runner_def Pipeline_lookup_def deref_def Let_def
  parseStage_def AddStage_def Pipeline_idPtr_def set_pipeline_def set_stage_def cur_stage_def
  parse_devices_def parse_inputs_def parse_mounts_def load_sorted_device_def loadDevice_def

lemma demo_sorted: "sortDevices demo_devices = Inr [''disk'', ''lv'']"
  by (simp add: sortDevices_def sort_loop.simps demo_devices_def device_parent_def get_string_def)

lemma demo_json_ok: "json_ok (GMap (demo_desc (GMap demo_devices)))"
  by (auto simp: demo_desc_def demo_devices_def gmap_ok_def intro!: json_ok.object json_ok.array)
    (rule json_ok.leaf; simp)+

lemma demo_parses:
  "\<exists>m. Parse demo_lib (\<lambda>_. None) demo_api (demo_desc (GMap demo_devices)) = Inr m
     \<and> length (mf_Pipelines m) = 2 \<and> pl_Runner (mf_Pipelines m ! 0) = \<lparr>run_Name = [], run_Path = ''/runners/linux''\<rparr>
     \<and> map_option pl_Runner (Pipeline_lookup m ''build'')
        = Some \<lparr>run_Name = ''fedora38'', run_Path = ''/runners/fedora38''\<rparr>"
  using demo_sorted unfolding demo_devices_def by (simp add: parse_eval om_Set_def NewOrderedMap_def om_Get_def)

text \<open>C5: Whatever manifest the parser accepts, the typed manifest is well formed: pipelines are named;
  every stage names the stage before it as its base and carries its pipeline's build root and
  source epoch; in every stage the devices are listed parents first, each with a parent device of
  the same stage, and mounts point at devices of their own stage; inputs, devices and mounts are
  filed under their own names.\<close>

theorem Parse_wellformed:
  assumes "json_ok (GMap desc)" "Parse L ctx R desc = Inr m" "p \<in> set (mf_Pipelines m)"
  shows "pl_Name p \<noteq> [] \<and> pipeline_chain L p \<and> (\<forall>s \<in> set (pl_Stages p). stage_ok s)"
  using Parse_ok [OF assms(1,2)] assms(3) by (simp add: manifest_ok_def)

theorem Parse_wellformed_witness:
  "\<exists>m. Parse demo_lib (\<lambda>_. None) demo_api (demo_desc (GMap demo_devices)) = Inr m
     \<and> length (mf_Pipelines m) = 2 \<and> \<not> (\<exists>s \<in> set (pl_Stages (mf_Pipelines m ! 1)). \<not> stage_ok s)"
proof -
  obtain m where m: "Parse demo_lib (\<lambda>_. None) demo_api (demo_desc (GMap demo_devices)) = Inr m"
    "length (mf_Pipelines m) = 2" using demo_parses by blast
  with Parse_wellformed [OF demo_json_ok m(1), of "mf_Pipelines m ! 1"] show ?thesis by auto
qed

lemma Parse_lookup_spec:
  assumes "json_ok (GMap desc)" "Parse L ctx R desc = Inr m"
  shows "case Pipeline_lookup m n of
      None \<Rightarrow> \<forall>p \<in> set (mf_Pipelines m). pl_Name p \<noteq> n
    | Some p \<Rightarrow> (\<exists>i < length (mf_Pipelines m). pl_Name p = n
        \<and> p\<lparr>pl_Runner := pl_Runner (mf_Pipelines m ! i)\<rparr> = mf_Pipelines m ! i
        \<and> Pipeline_ID L p = Pipeline_ID L (mf_Pipelines m ! i)
        \<and> (\<forall>j. i < j \<and> j < length (mf_Pipelines m) \<longrightarrow> pl_Name (mf_Pipelines m ! j) \<noteq> n))"
proof -
  have ok: "case mf_byName m n of None \<Rightarrow> n \<notin> pl_Name ` set (mf_Pipelines m)
      | Some r \<Rightarrow> ref_ok (mf_Pipelines m) n r"
    using Parse_ok [OF assms] by (simp add: manifest_ok_def names_ok_def)
  show ?thesis
  proof (cases "mf_byName m n")
    case None
    with ok show ?thesis by (auto simp: Pipeline_lookup_def)
  next
    case (Some r)
    obtain i where i: "i = (case r of Live i \<Rightarrow> i | Stale i q \<Rightarrow> i)" by simp
    have ref: "i < length (mf_Pipelines m)" "pl_Name (mf_Pipelines m ! i) = n"
      "\<forall>j. i < j \<and> j < length (mf_Pipelines m) \<longrightarrow> pl_Name (mf_Pipelines m ! j) \<noteq> n"
      using ok Some by (simp_all add: ref_ok_def Let_def i)
    have same: "(deref m r)\<lparr>pl_Runner := pl_Runner (mf_Pipelines m ! i)\<rparr> = mf_Pipelines m ! i"
    proof (cases r)
      case (Stale k q)
      with ok Some i have "q\<lparr>pl_Runner := pl_Runner (mf_Pipelines m ! i)\<rparr> = mf_Pipelines m ! i"
        by (simp add: ref_ok_def Let_def)
      with Stale i show ?thesis by (cases q; cases "mf_Pipelines m ! i") (simp add: deref_def)
    qed (simp add: deref_def i)
    have "pl_Name (deref m r) = pl_Name (mf_Pipelines m ! i)"
      "Pipeline_ID L (deref m r) = Pipeline_ID L (mf_Pipelines m ! i)"
      using arg_cong [OF same, of pl_Name] arg_cong [OF same, of "Pipeline_ID L"]
      by simp_all
    with Some ref same show ?thesis by (auto simp: Pipeline_lookup_def)
  qed
qed

text \<open>A lookup by name finds the last pipeline of that name and nothing else; of that pipeline
  everything but the runner is as in the list of pipelines. (The runner is the one field the parser
  writes after the pointer may have gone stale.)\<close>

theorem Parse_lookup:
  assumes "json_ok (GMap desc)" "Parse L ctx R desc = Inr m"
  shows "case Pipeline_lookup m n of
      None \<Rightarrow> \<forall>p \<in> set (mf_Pipelines m). pl_Name p \<noteq> n
    | Some p \<Rightarrow> (\<exists>i < length (mf_Pipelines m). pl_Name p = n
        \<and> p\<lparr>pl_Runner := pl_Runner (mf_Pipelines m ! i)\<rparr> = mf_Pipelines m ! i
        \<and> Pipeline_ID L p = Pipeline_ID L (mf_Pipelines m ! i)
        \<and> (\<forall>j. i < j \<and> j < length (mf_Pipelines m) \<longrightarrow> pl_Name (mf_Pipelines m ! j) \<noteq> n))"
  using assms by (rule Parse_lookup_spec)

theorem Parse_lookup_witness:
  "\<exists>m p. Parse demo_lib (\<lambda>_. None) demo_api (demo_desc (GMap demo_devices)) = Inr m
     \<and> Pipeline_lookup m ''build'' = Some p \<and> pl_Name p = ''build''"
proof -
  obtain m where m: "Parse demo_lib (\<lambda>_. None) demo_api (demo_desc (GMap demo_devices)) = Inr m"
    "map_option pl_Runner (Pipeline_lookup m ''build'')
      = Some \<lparr>run_Name = ''fedora38'', run_Path = ''/runners/fedora38''\<rparr>" using demo_parses by blast
  with Parse_lookup [OF demo_json_ok m(1), of "''build''"] show ?thesis by (auto split: option.splits)
qed

text \<open>The runner a lookup by name hands out can be the one the manifest declares for the pipeline
  itself, although the list of pipelines holds the runner \<open>fixupRunners\<close> gave it: in a manifest of
  two pipelines the pointer to the first is stale once the second is appended. \<open>Build\<close> looks
  pipelines up by name.\<close>

theorem Parse_stale_runner:
  "\<exists>m. Parse demo_lib (\<lambda>_. None) demo_api (demo_desc (GMap demo_devices)) = Inr m
     \<and> pl_Runner (mf_Pipelines m ! 0) = \<lparr>run_Name = [], run_Path = ''/runners/linux''\<rparr>
     \<and> map_option pl_Runner (Pipeline_lookup m ''build'')
        = Some \<lparr>run_Name = ''fedora38'', run_Path = ''/runners/fedora38''\<rparr>"
  using demo_parses by blast

text \<open>After \<open>fixupRunners\<close> a pipeline without a build root runs on the host's runner, and a
  pipeline with one runs on the runner declared by the last pipeline whose ID is that build root,
  or keeps its own when there is none; nothing else of the manifest changes.\<close>

theorem fixupRunners_spec:
  assumes "api_DetectHostRunner R = Inr ri"
  shows "fixupRunners L R m = Inr (m\<lparr>mf_Pipelines := map (\<lambda>p. p\<lparr>pl_Runner :=
     (case pl_Build p of
        None \<Rightarrow> \<lparr>run_Name = [], run_Path = ri_Path ri\<rparr>
      | Some b \<Rightarrow> (let qs = filter (\<lambda>q. Pipeline_ID L q = b \<and> b \<noteq> []) (mf_Pipelines m)
                  in if qs = [] then pl_Runner p else pl_Runner (last qs)))\<rparr>) (mf_Pipelines m)\<rparr>)"
proof -
  have runners: "runners_by_id L ps b =
      (let qs = filter (\<lambda>q. Pipeline_ID L q = b \<and> b \<noteq> []) ps
       in if qs = [] then None else Some (pl_Runner (last qs)))" for ps b
    by (induction ps rule: rev_induct) (auto simp: runners_by_id_def Let_def)
  have "p\<lparr>pl_Runner := pl_Runner p\<rparr> = p" for p :: pipeline by simp
  then show ?thesis
    using assms
    by (auto simp: fixupRunners_def fixup_runner_def runners Let_def split: option.split)
qed

theorem fixupRunners_spec_witness:
  "fixupRunners demo_lib demo_api empty_manifest = Inr empty_manifest"
  by (subst fixupRunners_spec) (simp_all add: demo_api_def empty_manifest_def)

section \<open>Panics\<close>

text \<open>The devices of every stage are objects.\<close>

definition devices_are_objects :: "gobject \<Rightarrow> bool" where
  "devices_are_objects desc \<longleftrightarrow>
     (\<forall>ps pd ss sd ds n v. get_slice desc ''pipelines'' = Some ps \<and> GMap pd \<in> set ps
        \<and> get_slice pd ''stages'' = Some ss \<and> GMap sd \<in> set ss
        \<and> get_map sd ''devices'' = Some ds \<and> map_of ds n = Some v \<longrightarrow> (\<exists>o'. v = GMap o'))"

definition no_panic :: "parse_error + 'a \<Rightarrow> bool" where
  "no_panic r \<longleftrightarrow> (\<forall>n. r \<noteq> Inl (Panic n))"

lemma no_panic_simps [simp]:
  "no_panic (Inr x)" "no_panic (Inl e) \<longleftrightarrow> (\<forall>n. e \<noteq> Panic n)"
  by (auto simp: no_panic_def)

lemma no_panic_bindR: "no_panic r \<Longrightarrow> (\<And>x. r = Inr x \<Longrightarrow> no_panic (f x)) \<Longrightarrow> no_panic (bindR r f)"
  by (cases r) auto

lemma no_panic_mapErr [simp]: "(\<And>e n. f e \<noteq> Panic n) \<Longrightarrow> no_panic (mapErr f r)"
  by (cases r) auto

lemma no_panic_wrapE: "no_panic r \<Longrightarrow> (\<And>e n. f e \<noteq> Panic n) \<Longrightarrow> no_panic (mapErr (wrapE f) r)"
  by (cases r) (auto simp: wrapE_def split: parse_error.split)

lemma no_panic_foldE: "(\<And>x s. x \<in> set xs \<Longrightarrow> no_panic (f x s)) \<Longrightarrow> no_panic (foldE f xs s)"
  by (induction xs arbitrary: s) (auto intro: no_panic_bindR)

lemmas no_panic_intros = no_panic_bindR no_panic_wrapE no_panic_foldE

lemma no_panic_toInt: "no_panic (toInt v)"
  by (cases v) (simp_all add: toInt_def)

lemma no_panic_resolve: "no_panic (resolve_if L b ref m)" "no_panic (resolveRef L ref m)"
  by (auto simp: resolve_if_def resolveRef_def Let_def split: option.split)

lemma no_panic_load_refs: "no_panic (load_refs L b m refs)"
  by (auto simp: load_refs_def load_ref_item_def split: option.split gval.split
      intro!: no_panic_intros no_panic_resolve)

lemma no_panic_loads:
  "no_panic (loadDevice R name desc m)" "no_panic (loadInput L R name desc m)" "no_panic (loadMount R desc m)"
  by (auto simp: loadDevice_def loadInput_def loadMount_def Let_def split: option.split
      intro!: no_panic_intros no_panic_load_refs no_panic_toInt)

lemma no_panic_sortDevices: "no_panic (sortDevices ds)"
  using sortDevices_spec [of ds] by (auto simp: no_panic_def split: sum.splits)

lemma no_panic_parse_devices:
  assumes "\<And>ds n v. get_map desc ''devices'' = Some ds \<Longrightarrow> map_of ds n = Some v \<Longrightarrow> \<exists>o'. v = GMap o'"
  shows "no_panic (parse_devices R desc m)"
proof (cases "get_map desc ''devices''")
  case (Some ds)
  have "no_panic (load_sorted_device R ds n m)" if "n \<in> set (gkeys ds)" for n m
  proof -
    obtain v where v: "map_of ds n = Some v" using \<open>n \<in> set (gkeys ds)\<close> by (metis map_of_eq_None_iff not_None_eq set_map)
    with assms Some obtain o' where "v = GMap o'" by blast
    with v show ?thesis by (simp add: load_sorted_device_def no_panic_loads)
  qed
  moreover have "set ns = set (gkeys ds)" if "sortDevices ds = Inr ns" for ns
    using sortDevices_spec [of ds] that mset_eq_setD [of ns "gkeys ds"] by simp
  ultimately show ?thesis
    unfolding parse_devices_def Some option.case
    by (intro no_panic_bindR no_panic_sortDevices no_panic_foldE) blast
qed (simp add: parse_devices_def)

lemma no_panic_pipeline_parts:
  "no_panic (pipeline_build L desc m)" "no_panic (pipeline_runner R desc)" "no_panic (pipeline_epoch desc)"
  by (auto simp: pipeline_build_def pipeline_runner_def pipeline_epoch_def Let_def split: option.split
      intro!: no_panic_bindR no_panic_resolve)

lemma no_panic_parsePipeline:
  assumes "devices_are_objects desc" "get_slice desc ''pipelines'' = Some ps" "GMap pd \<in> set ps"
  shows "no_panic (parsePipeline L R pd m)"
proof -
  have devices: "no_panic (parse_devices R sd m)"
    if "get_slice pd ''stages'' = Some ss" "GMap sd \<in> set ss" for ss sd m
    using assms that unfolding devices_are_objects_def by (intro no_panic_parse_devices) blast
  have io: "no_panic (parse_inputs L R sd m)" "no_panic (parse_mounts R sd m)" for sd m
    by (auto simp: parse_inputs_def parse_mounts_def no_panic_loads split: option.split gval.split
        intro!: no_panic_foldE)
  have stage: "no_panic (parseStage L R sd m)"
    if "get_slice pd ''stages'' = Some ss" "GMap sd \<in> set ss" for ss sd m
    by (auto simp: parseStage_def Let_def intro!: no_panic_bindR no_panic_wrapE devices [OF that] io)
  have stages: "no_panic (parse_stages L R pd m)" for m
    using stage
    by (auto simp: parse_stages_def split: option.split gval.split intro!: no_panic_foldE)
  show ?thesis
  proof (cases "get_string0 pd ''name'' = []")
    case False
    have "no_panic (mapErr (wrapE (InPipeline (get_string0 pd ''name'')))
        (bindR (pipeline_build L pd m) (\<lambda>build. bindR (pipeline_runner R pd) (\<lambda>runner.
          bindR (pipeline_epoch pd) (\<lambda>epoch. parse_stages L R pd (add_pipeline L m
            \<lparr>pl_Name = get_string0 pd ''name'', pl_Build = build, pl_Runner = runner, pl_Stages = [],
             pl_SourceEpoch = epoch\<rparr>))))))"
      by (intro no_panic_wrapE no_panic_bindR no_panic_pipeline_parts stages) simp
    with False show ?thesis by (simp only: parsePipeline_def Let_def if_False)
  qed (simp add: parsePipeline_def)
qed

text \<open>C14: The parser never panics on a manifest whose device entries are all objects: the unchecked
  type assertion on the entries of \<open>devices\<close> is the only one that can fail.\<close>

theorem Parse_no_panic:
  assumes "devices_are_objects desc"
  shows "Parse L ctx R desc \<noteq> Inl (Panic n)"
proof -
  have "no_panic (parse_pipelines L ctx R desc m)" for m
  proof (cases "get_slice desc ''pipelines''")
    case (Some ps)
    have "no_panic (case ctx i of Some e \<Rightarrow> Inl (Cancelled e)
        | None \<Rightarrow> (case v of GMap pd \<Rightarrow> parsePipeline L R pd m | _ \<Rightarrow> Inr m))"
      if "(i, v) \<in> set (enumerate 0 ps)" for i v m
      using that no_panic_parsePipeline [OF assms Some, of _ L R m]
      by (auto simp: in_set_enumerate_eq split: option.split gval.split dest: nth_mem)
    then show ?thesis
      unfolding parse_pipelines_def Some option.case by (auto intro!: no_panic_foldE)
  qed (simp add: parse_pipelines_def)
  moreover have "no_panic (fixupRunners L R m)" for m
    by (auto simp: fixupRunners_def Let_def intro!: no_panic_intros)
  moreover have "no_panic (foldE (parse_source R) sources m)" for sources m
    by (auto simp: parse_source_def split: gval.split intro!: no_panic_intros)
  ultimately have "no_panic (Parse L ctx R desc)"
    by (auto simp: Parse_def Let_def split: option.split intro!: no_panic_bindR)
  then show ?thesis by (simp add: no_panic_def)
qed

theorem Parse_no_panic_witness:
  "Parse demo_lib (\<lambda>_. None) demo_api (demo_desc (GMap demo_devices)) \<noteq> Inl (Panic ''lv'')"
  by (rule Parse_no_panic)
    (auto simp: devices_are_objects_def demo_desc_def demo_devices_def get_slice_def get_map_def
      split: if_splits)

text \<open>A manifest with a device entry that is not an object does crash the parser: \<open>sortDevices\<close>
  accepts the entry and the loop over its result asserts it to be an object.\<close>

theorem Parse_can_panic:
  "Parse demo_lib (\<lambda>_. None) demo_api (demo_desc (GMap [(''disk'', GString ''loop'')])) = Inl (Panic ''disk'')"
proof -
  have "sortDevices [(''disk'', GString ''loop'')] = Inr [''disk'']"
    by (simp add: sortDevices_def sort_loop.simps device_parent_def)
  then show ?thesis
    by (simp add: parse_eval wrapE_def)
qed

end
