(* ===== verification/Depsolve.thy ===== *)
theory Depsolve
  imports ParseFacts
begin

text \<open>
  \<^verbatim>\<open>manifest/depsolve.go\<close>: the order in which the pipelines needed for the targets are built. The
  worklist \<open>check\<close> is a slice used as a stack; here its top is the head of the list. \<open>has\<close> is
  \<open>store.Contains\<close>, \<open>ctx i\<close> what the \<open>i\<close>-th poll of \<open>ctx.Err()\<close> returns. The loop visits a
  pipeline again for every path that leads to it and does not end on a cyclic graph, so it runs on
  fuel, \<open>None\<close> meaning that the fuel ran out; \<open>Depsolve_terminates\<close> gives the graphs on which it ends.
\<close>

section \<open>The worklist\<close>

text \<open>The pipelines the inputs of the stages refer to, from the last stage down to a cached one.\<close>

fun push_stage_deps :: "golib \<Rightarrow> manifest \<Rightarrow> (string \<Rightarrow> bool) \<Rightarrow> stage list \<Rightarrow> pipeline option list \<Rightarrow> pipeline option list" where
  "push_stage_deps L m has [] check = check"
| "push_stage_deps L m has (s # below) check =
     (if has (Stage_ID L s) then check
      else push_stage_deps L m has below
        (fold (\<lambda>dep check. case PipelineByID L m dep of None \<Rightarrow> check | Some dp \<Rightarrow> Some dp # check)
          (Stage_Dependencies s) check))"

definition push_deps :: "golib \<Rightarrow> manifest \<Rightarrow> (string \<Rightarrow> bool) \<Rightarrow> pipeline \<Rightarrow> pipeline option list \<Rightarrow> pipeline option list" where
  "push_deps L m has pl check =
     (let check1 = (case pl_Build pl of None \<Rightarrow> check | Some b \<Rightarrow> PipelineByID L m b # check)
      in push_stage_deps L m has (rev (pl_Stages pl)) check1)"

definition move_to_end :: "string \<Rightarrow> (string \<rightharpoonup> pipeline) \<Rightarrow> string list \<Rightarrow> string list" where
  "move_to_end id' buildMap buildKeys =
     (if buildMap id' \<noteq> None then filter (\<lambda>k. k \<noteq> id') buildKeys @ [id'] else buildKeys @ [id'])"

fun depsolve_loop ::
    "nat \<Rightarrow> golib \<Rightarrow> manifest \<Rightarrow> (string \<Rightarrow> bool) \<Rightarrow> (nat \<Rightarrow> string option) \<Rightarrow> nat
     \<Rightarrow> pipeline option list \<Rightarrow> string list \<Rightarrow> (string \<rightharpoonup> pipeline)
     \<Rightarrow> (string + string list \<times> (string \<rightharpoonup> pipeline)) option" where
  "depsolve_loop fuel L m has ctx i [] buildKeys buildMap = Some (Inr (buildKeys, buildMap))"
| "depsolve_loop 0 L m has ctx i (pl # check) buildKeys buildMap = None"
| "depsolve_loop (Suc fuel) L m has ctx i (pl # check) buildKeys buildMap =
     (case ctx i of
        Some e \<Rightarrow> Some (Inl e)
      | None \<Rightarrow>
          (case pl of
             None \<Rightarrow> depsolve_loop fuel L m has ctx (Suc i) check buildKeys buildMap
           | Some p \<Rightarrow>
               (let id' = Pipeline_ID L p in
                if id' = [] \<or> has id'
                then depsolve_loop fuel L m has ctx (Suc i) check buildKeys buildMap
                else depsolve_loop fuel L m has ctx (Suc i) (push_deps L m has p check)
                       (move_to_end id' buildMap buildKeys) (buildMap(id' \<mapsto> p)))))"

text \<open>A target is a name or an ID; one that is neither is skipped.\<close>

definition find_pipeline :: "golib \<Rightarrow> manifest \<Rightarrow> string \<Rightarrow> pipeline option" where
  "find_pipeline L m t =
     (case Pipeline_lookup m t of Some p \<Rightarrow> Some p | None \<Rightarrow> PipelineByID L m t)"

definition depsolve_targets :: "golib \<Rightarrow> manifest \<Rightarrow> string list \<Rightarrow> pipeline option list" where
  "depsolve_targets L m targets =
     fold (\<lambda>t check. case find_pipeline L m t of None \<Rightarrow> check | Some p \<Rightarrow> Some p # check) targets []"

definition Depsolve ::
    "nat \<Rightarrow> golib \<Rightarrow> (nat \<Rightarrow> string option) \<Rightarrow> manifest \<Rightarrow> (string \<Rightarrow> bool) \<Rightarrow> string list
     \<Rightarrow> (string + string list) option" where
  "Depsolve fuel L ctx m has targets =
     map_option (map_sum id (\<lambda>(buildKeys, buildMap). rev (map (\<lambda>k. pl_Name (the (buildMap k))) buildKeys)))
       (depsolve_loop fuel L m has ctx 0 (depsolve_targets L m targets) [] Map.empty)"

section \<open>The build graph\<close>

text \<open>
  The specification. \<open>needed\<close> pipelines have stages and are not cached; \<open>deps\<close> are the pipelines
  one depends on, through its build root and through the inputs of the stages after the last
  cached one; \<open>wanted\<close> is what the targets need.
\<close>

definition needed :: "golib \<Rightarrow> (string \<Rightarrow> bool) \<Rightarrow> pipeline \<Rightarrow> bool" where
  "needed L has p \<longleftrightarrow> Pipeline_ID L p \<noteq> [] \<and> \<not> has (Pipeline_ID L p)"

definition live_stages :: "golib \<Rightarrow> (string \<Rightarrow> bool) \<Rightarrow> pipeline \<Rightarrow> stage list" where
  "live_stages L has p = takeWhile (\<lambda>s. \<not> has (Stage_ID L s)) (rev (pl_Stages p))"

definition dep_ids :: "golib \<Rightarrow> (string \<Rightarrow> bool) \<Rightarrow> pipeline \<Rightarrow> string set" where
  "dep_ids L has p = set_option (pl_Build p) \<union> (\<Union>s \<in> set (live_stages L has p). set (Stage_Dependencies s))"

definition deps :: "golib \<Rightarrow> manifest \<Rightarrow> (string \<Rightarrow> bool) \<Rightarrow> pipeline \<Rightarrow> pipeline set" where
  "deps L m has p = {q. \<exists>d \<in> dep_ids L has p. PipelineByID L m d = Some q}"

inductive wanted :: "golib \<Rightarrow> manifest \<Rightarrow> (string \<Rightarrow> bool) \<Rightarrow> string list \<Rightarrow> pipeline \<Rightarrow> bool"
  for L m has targets where
  target: "t \<in> set targets \<Longrightarrow> find_pipeline L m t = Some p \<Longrightarrow> needed L has p \<Longrightarrow> wanted L m has targets p"
| dep: "wanted L m has targets p \<Longrightarrow> q \<in> deps L m has p \<Longrightarrow> needed L has q \<Longrightarrow> wanted L m has targets q"

lemma in_fold_push:
  "Some q \<in> set (fold (\<lambda>x acc. case f x of None \<Rightarrow> acc | Some y \<Rightarrow> Some y # acc) xs acc)
     \<longleftrightarrow> Some q \<in> set acc \<or> (\<exists>x \<in> set xs. f x = Some q)"
  by (induction xs arbitrary: acc) (auto split: option.split)

lemma in_push_stage_deps:
  "Some q \<in> set (push_stage_deps L m has ss check) \<longleftrightarrow> Some q \<in> set check
     \<or> (\<exists>s \<in> set (takeWhile (\<lambda>s. \<not> has (Stage_ID L s)) ss). \<exists>d \<in> set (Stage_Dependencies s). PipelineByID L m d = Some q)"
  by (induction ss arbitrary: check) (auto simp: in_fold_push)

lemma in_push_deps:
  "Some q \<in> set (push_deps L m has p check) \<longleftrightarrow> Some q \<in> set check \<or> q \<in> deps L m has p"
  by (auto simp: push_deps_def in_push_stage_deps deps_def dep_ids_def live_stages_def split: option.splits)

lemma in_depsolve_targets:
  "Some p \<in> set (depsolve_targets L m targets) \<longleftrightarrow> (\<exists>t \<in> set targets. find_pipeline L m t = Some p)"
  by (simp add: depsolve_targets_def in_fold_push)

section \<open>What a run of the loop computes\<close>

text \<open>\<open>before xs x y\<close>: \<open>x\<close> stands before \<open>y\<close> in \<open>xs\<close>.\<close>

definition before :: "'a list \<Rightarrow> 'a \<Rightarrow> 'a \<Rightarrow> bool" where
  "before xs x y \<longleftrightarrow> (\<exists>us vs. xs = us @ x # vs \<and> y \<in> set vs)"

lemma before_Nil [simp]: "\<not> before [] x y"
  by (simp add: before_def)

lemma before_Cons: "before (z # xs) x y \<longleftrightarrow> x = z \<and> y \<in> set xs \<or> before xs x y"
proof
  assume "before (z # xs) x y"
  then obtain us vs where *: "z # xs = us @ x # vs" "y \<in> set vs" by (auto simp: before_def)
  show "x = z \<and> y \<in> set xs \<or> before xs x y"
  proof (cases us)
    case (Cons u us')
    with * have "xs = us' @ x # vs" by simp
    with * show ?thesis unfolding before_def by blast
  qed (use * in simp)
next
  assume "x = z \<and> y \<in> set xs \<or> before xs x y"
  then show "before (z # xs) x y"
    unfolding before_def by (metis append_Cons append_Nil)
qed

lemma before_append:
  "before (xs @ ys) x y \<longleftrightarrow> before xs x y \<or> before ys x y \<or> x \<in> set xs \<and> y \<in> set ys"
  by (induction xs) (auto simp: before_Cons)

lemma before_in_set: "before xs x y \<Longrightarrow> x \<in> set xs \<and> y \<in> set xs"
  by (auto simp: before_def)

lemma before_filter: "before (filter P xs) x y \<longleftrightarrow> P x \<and> P y \<and> before xs x y"
  by (induction xs) (auto simp: before_Cons)

lemma before_rev: "before (rev xs) x y \<longleftrightarrow> before xs y x"
  by (induction xs) (auto simp: before_Cons before_append)

text \<open>
  The loop invariant, over the set \<open>V\<close> of pipelines visited so far: everything visited is wanted,
  what it depends on is visited or waiting, and in \<open>keys\<close> it comes later or is still waiting.
\<close>

definition depsolve_inv ::
    "golib \<Rightarrow> manifest \<Rightarrow> (string \<Rightarrow> bool) \<Rightarrow> string list \<Rightarrow> pipeline set \<Rightarrow> pipeline option list
     \<Rightarrow> string list \<Rightarrow> (string \<rightharpoonup> pipeline) \<Rightarrow> bool" where
  "depsolve_inv L m has targets V check keys bm \<longleftrightarrow>
     distinct keys \<and> set keys = dom bm \<and> set keys = Pipeline_ID L ` V
     \<and> (\<forall>p \<in> V. wanted L m has targets p)
     \<and> (\<forall>k p. bm k = Some p \<longrightarrow> p \<in> V \<and> Pipeline_ID L p = k)
     \<and> (\<forall>q. Some q \<in> set check \<and> needed L has q \<longrightarrow> wanted L m has targets q)
     \<and> (\<forall>t \<in> set targets. \<forall>p. find_pipeline L m t = Some p \<and> needed L has p \<longrightarrow> p \<in> V \<or> Some p \<in> set check)
     \<and> (\<forall>p \<in> V. \<forall>q \<in> deps L m has p. needed L has q \<longrightarrow> q \<in> V \<or> Some q \<in> set check)
     \<and> (\<forall>k p. bm k = Some p \<longrightarrow> (\<forall>q \<in> deps L m has p. needed L has q \<longrightarrow>
           before keys k (Pipeline_ID L q) \<or> Some q \<in> set check))"

lemma depsolve_inv_init: "depsolve_inv L m has targets {} (depsolve_targets L m targets) [] Map.empty"
  by (auto simp: depsolve_inv_def in_depsolve_targets intro: wanted.target)

lemma depsolve_inv_skip:
  assumes inv: "depsolve_inv L m has targets V (pl # check) keys bm"
    and skip: "\<And>p. pl = Some p \<Longrightarrow> \<not> needed L has p"
  shows "depsolve_inv L m has targets V check keys bm"
proof -
  have red: "Some q \<in> set check" if "needed L has q" "Some q \<in> set (pl # check)" for q
    using that skip by auto
  note parts = inv [unfolded depsolve_inv_def]
  have "\<forall>q. Some q \<in> set check \<and> needed L has q \<longrightarrow> wanted L m has targets q"
    using parts by simp
  moreover have "\<forall>t \<in> set targets. \<forall>p. find_pipeline L m t = Some p \<and> needed L has p \<longrightarrow> p \<in> V \<or> Some p \<in> set check"
    using parts red by blast
  moreover have "\<forall>p \<in> V. \<forall>q \<in> deps L m has p. needed L has q \<longrightarrow> q \<in> V \<or> Some q \<in> set check"
    using parts red by blast
  moreover have "\<forall>k p. bm k = Some p \<longrightarrow> (\<forall>q \<in> deps L m has p. needed L has q \<longrightarrow>
      before keys k (Pipeline_ID L q) \<or> Some q \<in> set check)"
    using parts red by blast
  ultimately show ?thesis using parts unfolding depsolve_inv_def by blast
qed

lemma move_to_end:
  "distinct keys \<Longrightarrow> set keys = dom bm \<Longrightarrow> move_to_end k bm keys = filter (\<lambda>x. x \<noteq> k) keys @ [k]"
  by (auto simp: move_to_end_def domIff intro!: filter_True [symmetric])

lemma depsolve_inv_visit:
  assumes inv: "depsolve_inv L m has targets V (Some p # check) keys bm" and p: "needed L has p"
  shows "depsolve_inv L m has targets (insert p V) (push_deps L m has p check)
           (move_to_end (Pipeline_ID L p) bm keys) (bm(Pipeline_ID L p \<mapsto> p))"
proof -
  let ?k = "Pipeline_ID L p"
  have keys: "distinct keys" "set keys = dom bm" "set keys = Pipeline_ID L ` V"
    using inv unfolding depsolve_inv_def by blast+
  have wp: "wanted L m has targets p" using inv p by (simp add: depsolve_inv_def)
  have push: "Some q \<in> set (push_deps L m has p check) \<longleftrightarrow> Some q \<in> set check \<or> q \<in> deps L m has p" for q
    by (rule in_push_deps)
  have new: "move_to_end ?k bm keys = filter (\<lambda>x. x \<noteq> ?k) keys @ [?k]"
    using keys(1,2) by (rule move_to_end)
  have order: "before (filter (\<lambda>x. x \<noteq> ?k) keys @ [?k]) k (Pipeline_ID L q) \<or> Some q \<in> set check \<or> q \<in> deps L m has p"
    if k: "(bm(?k \<mapsto> p)) k = Some p'" and q: "q \<in> deps L m has p'" "needed L has q" for k p' q
  proof (cases "k = ?k")
    case True
    with k q show ?thesis by simp
  next
    case False
    with k have bm: "bm k = Some p'" by simp
    with inv q have "before keys k (Pipeline_ID L q) \<or> Some q \<in> set (Some p # check)"
      unfolding depsolve_inv_def by blast
    moreover have "k \<in> set keys" using bm keys(2) by auto
    ultimately show ?thesis
      using False by (auto simp: before_append before_filter)
  qed
  show ?thesis
    unfolding depsolve_inv_def new push
  proof (intro conjI)
    show "\<forall>k p'. (bm(?k \<mapsto> p)) k = Some p' \<longrightarrow> (\<forall>q \<in> deps L m has p'. needed L has q \<longrightarrow>
       before (filter (\<lambda>x. x \<noteq> ?k) keys @ [?k]) k (Pipeline_ID L q) \<or> Some q \<in> set check \<or> q \<in> deps L m has p)"
      using order by blast
    show "\<forall>q. (Some q \<in> set check \<or> q \<in> deps L m has p) \<and> needed L has q \<longrightarrow> wanted L m has targets q"
      using inv wp by (auto simp: depsolve_inv_def intro: wanted.dep)
  qed (use inv keys wp in \<open>auto simp: depsolve_inv_def\<close>)
qed

lemma depsolve_loop_inv:
  assumes "depsolve_loop fuel L m has ctx i check keys bm = Some (Inr (keys', bm'))"
    and "depsolve_inv L m has targets V check keys bm"
  shows "\<exists>V'. depsolve_inv L m has targets V' [] keys' bm'"
  using assms
proof (induction fuel L m has ctx i check keys bm arbitrary: V rule: depsolve_loop.induct)
  case (3 fuel L m has ctx i pl check keys bm)
  show ?case
  proof (cases "\<exists>p. pl = Some p \<and> needed L has p")
    case True
    then obtain p where p: "pl = Some p" "needed L has p" by blast
    note inv = depsolve_inv_visit [OF 3(5) [unfolded p(1)] p(2)]
    show ?thesis
      by (rule "3.IH"(3) [OF _ p(1) HOL.refl _ _ inv])
        (use 3(4) p in \<open>auto simp: needed_def Let_def fun_upd_def split: option.splits\<close>)
  next
    case False
    then have inv: "depsolve_inv L m has targets V check keys bm"
      using depsolve_inv_skip [OF 3(5)] by blast
    from False 3(4) have "depsolve_loop fuel L m has ctx (Suc i) check keys bm = Some (Inr (keys', bm'))"
      and none: "ctx i = None"
      by (auto simp: needed_def Let_def split: option.splits if_splits)
    then show ?thesis
      using "3.IH"(1) [OF none _ _ inv] "3.IH"(2) [OF none _ HOL.refl _ _ inv] False
      by (cases pl) (auto simp: needed_def)
  qed
qed auto

lemma Depsolve_result:
  assumes "Depsolve fuel L ctx m has targets = Some (Inr names)"
  shows "\<exists>ps. names = map pl_Name ps \<and> distinct (map (Pipeline_ID L) ps)
    \<and> Pipeline_ID L ` set ps = Pipeline_ID L ` {p. wanted L m has targets p}
    \<and> (\<forall>p \<in> set ps. wanted L m has targets p
         \<and> (\<forall>q \<in> deps L m has p. needed L has q \<longrightarrow>
              before (map (Pipeline_ID L) ps) (Pipeline_ID L q) (Pipeline_ID L p)))"
proof -
  obtain keys bm where loop: "depsolve_loop fuel L m has ctx 0 (depsolve_targets L m targets) [] Map.empty
      = Some (Inr (keys, bm))" and names: "names = rev (map (\<lambda>k. pl_Name (the (bm k))) keys)"
  proof -
    obtain r where r: "depsolve_loop fuel L m has ctx 0 (depsolve_targets L m targets) [] Map.empty = Some r"
      "map_sum id (\<lambda>(buildKeys, buildMap). rev (map (\<lambda>k. pl_Name (the (buildMap k))) buildKeys)) r = Inr names"
      using assms unfolding Depsolve_def by blast
    then show ?thesis using that by (cases r) auto
  qed
  obtain V where inv: "depsolve_inv L m has targets V [] keys bm"
    using depsolve_loop_inv [OF loop depsolve_inv_init] by blast
  have keys: "distinct keys" "set keys = dom bm" "set keys = Pipeline_ID L ` V"
    and V: "\<forall>p \<in> V. wanted L m has targets p"
    and bm: "\<And>k p. bm k = Some p \<Longrightarrow> p \<in> V \<and> Pipeline_ID L p = k"
    and tg: "\<And>t p. t \<in> set targets \<Longrightarrow> find_pipeline L m t = Some p \<Longrightarrow> needed L has p \<Longrightarrow> p \<in> V"
    and cl: "\<And>p q. p \<in> V \<Longrightarrow> q \<in> deps L m has p \<Longrightarrow> needed L has q \<Longrightarrow> q \<in> V"
    and ord: "\<And>k p q. bm k = Some p \<Longrightarrow> q \<in> deps L m has p \<Longrightarrow> needed L has q \<Longrightarrow> before keys k (Pipeline_ID L q)"
    using inv by (auto simp: depsolve_inv_def)
  have all: "p \<in> V" if "wanted L m has targets p" for p
    using that by induction (auto intro: tg cl)
  let ?ps = "rev (map (\<lambda>k. the (bm k)) keys)"
  have get: "bm k = Some (the (bm k))" "Pipeline_ID L (the (bm k)) = k" if "k \<in> set keys" for k
    using that keys(2) bm by fastforce+
  have ids: "map (Pipeline_ID L) ?ps = rev keys"
    using get(2) by (simp add: rev_map [symmetric] comp_def map_idI)
  show ?thesis
  proof (intro exI [of _ ?ps] conjI ballI impI)
    show "names = map pl_Name ?ps" by (simp add: names rev_map [symmetric] comp_def)
    show "distinct (map (Pipeline_ID L) ?ps)" using keys(1) by (simp only: ids distinct_rev)
    have "Pipeline_ID L ` set ?ps = set (map (Pipeline_ID L) ?ps)" by simp
    also have "\<dots> = Pipeline_ID L ` V" by (simp only: ids keys(3) set_rev)
    also have "V = {p. wanted L m has targets p}" using V all by blast
    finally show "Pipeline_ID L ` set ?ps = Pipeline_ID L ` {p. wanted L m has targets p}" .
  next
    fix p assume "p \<in> set ?ps"
    then obtain k where k: "k \<in> set keys" "p = the (bm k)" by auto
    with get bm V show "wanted L m has targets p" by blast
    fix q assume "q \<in> deps L m has p" "needed L has q"
    then have "before keys k (Pipeline_ID L q)" using ord get(1) [OF k(1)] k(2) by blast
    then show "before (map (Pipeline_ID L) ?ps) (Pipeline_ID L q) (Pipeline_ID L p)"
      using get(2) [OF k(1)] k(2) by (simp only: ids before_rev)
  qed
qed

section \<open>Termination\<close>

lemma depsolve_loop_more_fuel:
  "depsolve_loop fuel L m has ctx i check keys bm = Some r \<Longrightarrow> fuel \<le> fuel' \<Longrightarrow>
   depsolve_loop fuel' L m has ctx i check keys bm = Some r"
proof (induction fuel L m has ctx i check keys bm arbitrary: fuel' rule: depsolve_loop.induct)
  case (3 fuel L m has ctx i pl check keys bm)
  obtain n where n: "fuel' = Suc n" "fuel \<le> n" using 3(5) by (cases fuel') auto
  show ?case
  proof (cases "ctx i")
    case None
    show ?thesis
    proof (cases pl)
      case (Some p)
      show ?thesis
      proof (cases "Pipeline_ID L p = [] \<or> has (Pipeline_ID L p)")
        case True
        with "3.IH"(2) [OF None Some HOL.refl True _ n(2)] 3(4) None Some show ?thesis
          by (simp add: n(1) Let_def)
      next
        case False
        with "3.IH"(3) [OF None Some HOL.refl False _ n(2)] 3(4) None Some show ?thesis
          by (simp add: n(1) Let_def fun_upd_def)
      qed
    qed (use "3.IH"(1) [OF None _ _ n(2)] 3(4) None in \<open>simp add: n(1)\<close>)
  qed (use 3(4) in \<open>simp add: n(1)\<close>)
qed auto

text \<open>
  An entry of the worklist weighs nothing unless it is needed; visiting a needed one replaces it by
  lighter ones.
\<close>

definition weight :: "golib \<Rightarrow> (string \<Rightarrow> bool) \<Rightarrow> (pipeline \<Rightarrow> nat) \<Rightarrow> pipeline option \<Rightarrow> nat" where
  "weight L has r pl = (case pl of None \<Rightarrow> 0 | Some p \<Rightarrow> if needed L has p then Suc (r p) else 0)"

lemma push_deps_indep: "push_deps L m has p check = push_deps L m has p [] @ check"
proof -
  have fold: "fold (\<lambda>x acc. case f x of None \<Rightarrow> acc | Some y \<Rightarrow> Some y # acc) ds (a @ b)
      = fold (\<lambda>x acc. case f x of None \<Rightarrow> acc | Some y \<Rightarrow> Some y # acc) ds a @ b"
    for f :: "string \<Rightarrow> pipeline option" and ds a b
    by (induction ds arbitrary: a) (auto split: option.split simp flip: append_Cons)
  have stages: "push_stage_deps L m has ss (a @ b) = push_stage_deps L m has ss a @ b" for ss a b
    by (induction ss arbitrary: a) (simp_all add: fold)
  show ?thesis
    using stages [of _ "case pl_Build p of None \<Rightarrow> [] | Some b \<Rightarrow> [PipelineByID L m b]" check]
    by (cases "pl_Build p") (simp_all add: push_deps_def)
qed

lemma Depsolve_returns:
  assumes rank: "\<And>p q. wanted L m has targets p \<Longrightarrow> q \<in> deps L m has p \<Longrightarrow> needed L has q \<Longrightarrow> (r q :: nat) < r p"
  shows "\<exists>fuel res. \<forall>fuel' \<ge> fuel. Depsolve fuel' L ctx m has targets = Some res"
proof -
  let ?w = "\<lambda>check. image_mset (weight L has r) (mset check)"
  let ?ok = "\<lambda>check. \<forall>p. Some p \<in> set check \<and> needed L has p \<longrightarrow> wanted L m has targets p"
  have "?ok check \<Longrightarrow> \<exists>fuel res. depsolve_loop fuel L m has ctx i check keys bm = Some res" for check i keys bm
  proof (induction check arbitrary: i keys bm rule: wf_induct_rule [OF wf_inv_image [OF wf_mult [OF wf_less], of ?w]])
    case (1 check)
    show ?case
    proof (cases check)
      case Nil
      then show ?thesis by auto
    next
      case (Cons pl rest)
      have less: "\<exists>fuel res. depsolve_loop fuel L m has ctx (Suc i) check' keys' bm' = Some res"
        if "check' = xs @ rest" "\<forall>x \<in> set xs. weight L has r x < weight L has r pl" "?ok check'" for check' xs keys' bm'
      proof (rule 1(1) [OF _ that(3)])
        show "(check', check) \<in> inv_image (mult {(x, y). x < y}) ?w"
          using one_step_implies_mult [of "{#weight L has r pl#}" "?w xs" "{(x, y). x < y}" "?w rest"] that
          by (auto simp: Cons add.commute)
      qed
      have "\<exists>fuel res. depsolve_loop (Suc fuel) L m has ctx i (pl # rest) keys bm = Some res"
      proof (cases "\<exists>p. pl = Some p \<and> needed L has p")
        case True
        then obtain p where p: "pl = Some p" "needed L has p" by blast
        have wp: "wanted L m has targets p" using 1(2) p by (simp add: Cons)
        have "weight L has r x < weight L has r pl" if "x \<in> set (push_deps L m has p [])" for x
          using that p rank [OF wp] in_push_deps [of _ L m has p "[]"]
          by (auto simp: weight_def split: option.split)
        moreover have "?ok (push_deps L m has p rest)"
          using 1(2) wp by (auto simp: Cons in_push_deps intro: wanted.dep)
        ultimately show ?thesis using less [OF push_deps_indep] p
          by (auto simp: needed_def Let_def split: option.split)
      next
        case False
        with less [of rest "[]"] 1(2) show ?thesis
          by (cases pl) (auto simp: Cons needed_def Let_def split: option.split)
      qed
      then show ?thesis unfolding Cons by blast
    qed
  qed
  moreover have "?ok (depsolve_targets L m targets)"
    by (auto simp: in_depsolve_targets intro: wanted.target)
  ultimately obtain fuel res
    where "depsolve_loop fuel L m has ctx 0 (depsolve_targets L m targets) [] Map.empty = Some res"
    by blast
  then show ?thesis
    using depsolve_loop_more_fuel unfolding Depsolve_def by (metis option.map(2))
qed

text \<open>C11: On an acyclic graph \<open>Depsolve\<close> terminates: when the wanted pipelines can be ranked so that a
  needed dependency ranks below the pipeline that depends on it, there is an amount of fuel from
  which on the result is there and does not change any more.\<close>

theorem Depsolve_terminates:
  assumes rank: "\<And>p q. wanted L m has targets p \<Longrightarrow> q \<in> deps L m has p \<Longrightarrow> needed L has q \<Longrightarrow> (r q :: nat) < r p"
  shows "\<exists>fuel res. \<forall>fuel' \<ge> fuel. Depsolve fuel' L ctx m has targets = Some res"
  by (rule Depsolve_returns) (rule rank)

section \<open>An example\<close>

definition demo_build :: pipeline where
  "demo_build = demo_pipeline ''build'' ''/lib''"

definition demo_os :: pipeline where
  "demo_os = AddStage demo_lib
     \<lparr>pl_Name = ''os'', pl_Build = Some (Pipeline_ID demo_lib demo_build),
      pl_Runner = \<lparr>run_Name = [], run_Path = ''/r''\<rparr>, pl_Stages = [], pl_SourceEpoch = None\<rparr>
     ''org.osbuild.tar'' ''/lib'' [] None None"

definition demo_graph :: manifest where
  "demo_graph = \<lparr>mf_Metadata = [], mf_Pipelines = [demo_build, demo_os], mf_cap = 2, mf_Sources = [],
     mf_byName = [''build'' \<mapsto> Live 0, ''os'' \<mapsto> Live 1]\<rparr>"

lemma demo_graph_facts:
  "pl_Name demo_build = ''build''" "pl_Build demo_build = None" "pl_Name demo_os = ''os''"
  "pl_Build demo_os = Some (Pipeline_ID demo_lib demo_build)"
  "dep_ids demo_lib (\<lambda>_. False) demo_build = {}"
  "dep_ids demo_lib (\<lambda>_. False) demo_os = {Pipeline_ID demo_lib demo_build}"
  "push_deps demo_lib demo_graph (\<lambda>_. False) demo_build check = check"
  "push_deps demo_lib demo_graph (\<lambda>_. False) demo_os check = Some demo_build # check"
  by (simp_all add: demo_build_def demo_os_def demo_pipeline_def AddStage_def dep_ids_def live_stages_def
      Stage_Dependencies_def push_deps_def PipelineByID_def demo_graph_def)

lemma demo_graph_ids:
  "Pipeline_ID demo_lib demo_build \<noteq> []" "Pipeline_ID demo_lib demo_os \<noteq> []"
  "Pipeline_ID demo_lib demo_os \<noteq> Pipeline_ID demo_lib demo_build"
proof -
  have hex: "hex_encode s = [] \<longleftrightarrow> s = []" for s
    using hex_encode_inj [of s "[]"] by (auto simp: hex_encode_def)
  have ne: "Stage_ID demo_lib s \<noteq> []" for s
    by (simp add: Stage_ID_def digest_hex_def hex stage_preimage_def marshal_bytes_def Marshal_def marshalString_def)
  have build: "Pipeline_ID demo_lib demo_build = Stage_ID demo_lib (last (pl_Stages demo_build))"
    and os: "Pipeline_ID demo_lib demo_os = Stage_ID demo_lib (last (pl_Stages demo_os))"
    by (simp_all add: Pipeline_ID_def demo_build_def demo_os_def demo_pipeline_def AddStage_def)
  with ne show "Pipeline_ID demo_lib demo_build \<noteq> []" "Pipeline_ID demo_lib demo_os \<noteq> []" by simp_all
  show "Pipeline_ID demo_lib demo_os \<noteq> Pipeline_ID demo_lib demo_build"
  proof
    assume "Pipeline_ID demo_lib demo_os = Pipeline_ID demo_lib demo_build"
    then have "stage_preimage demo_lib (last (pl_Stages demo_os)) = stage_preimage demo_lib (last (pl_Stages demo_build))"
      unfolding build os Stage_ID_def by (auto dest: digest_hex_inj)
    from stage_preimage_parts(2) [OF this] show False
      by (simp add: demo_build_def demo_os_def demo_pipeline_def AddStage_def marshal_bytes_def
          Marshal_def marshalString_def)
  qed
qed

lemma demo_Depsolve: "Depsolve 2 demo_lib (\<lambda>_. None) demo_graph (\<lambda>_. False) [''os''] = Some (Inr [''build'', ''os''])"
proof -
  have "depsolve_targets demo_lib demo_graph [''os''] = [Some demo_os]"
    by (simp add: depsolve_targets_def find_pipeline_def Pipeline_lookup_def deref_def demo_graph_def)
  then show ?thesis
    by (simp add: Depsolve_def numeral_2_eq_2 demo_graph_facts demo_graph_ids Let_def move_to_end_def)
qed

text \<open>C4: When \<open>Depsolve\<close> returns, its result lists, each once, exactly the pipelines the targets need
  that are not cached: a target with stages and without a cached tree, and whatever such a pipeline
  depends on through its build root or through the inputs of its uncached stages. Every pipeline
  comes after all the uncached pipelines it depends on.\<close>

theorem Depsolve_correct:
  assumes "Depsolve fuel L ctx m has targets = Some (Inr names)"
  shows "\<exists>ps. names = map pl_Name ps \<and> distinct (map (Pipeline_ID L) ps)
    \<and> Pipeline_ID L ` set ps = Pipeline_ID L ` {p. wanted L m has targets p}
    \<and> (\<forall>p \<in> set ps. wanted L m has targets p
         \<and> (\<forall>q \<in> deps L m has p. needed L has q \<longrightarrow>
              before (map (Pipeline_ID L) ps) (Pipeline_ID L q) (Pipeline_ID L p)))"
  using assms by (rule Depsolve_result)

theorem Depsolve_correct_witness:
  "\<exists>ps. map pl_Name ps = [''build'', ''os''] \<and> distinct (map (Pipeline_ID demo_lib) ps)"
  using Depsolve_correct [OF demo_Depsolve] by metis

lemma demo_wanted:
  assumes "wanted demo_lib demo_graph (\<lambda>_. False) [''os''] p"
  shows "p \<in> {demo_build, demo_os}"
  using assms
  by induction
    (auto simp: find_pipeline_def Pipeline_lookup_def deref_def demo_graph_def deps_def PipelineByID_def
      split: if_splits)

theorem Depsolve_terminates_witness:
  "\<exists>fuel res. \<not> (\<exists>fuel' \<ge> fuel. Depsolve fuel' demo_lib (\<lambda>_. None) demo_graph (\<lambda>_. False) [''os''] \<noteq> Some res)"
proof -
  have "\<exists>fuel res. \<forall>fuel' \<ge> fuel. Depsolve fuel' demo_lib (\<lambda>_. None) demo_graph (\<lambda>_. False) [''os''] = Some res"
  proof (rule Depsolve_terminates [where r = "\<lambda>p. if pl_Name p = ''os'' then 1 else 0"])
    fix p q
    assume "wanted demo_lib demo_graph (\<lambda>_. False) [''os''] p" "q \<in> deps demo_lib demo_graph (\<lambda>_. False) p"
    then show "(if pl_Name q = ''os'' then 1 else 0) < (if pl_Name p = ''os'' then 1 else (0::nat))"
      using demo_wanted [of p]
      by (auto simp: deps_def demo_graph_facts PipelineByID_def demo_graph_def)
  qed
  then show ?thesis by blast
qed

end
