(* ===== verification/Checkpoint.thy ===== *)
theory Checkpoint
  imports Manifest
begin

text \<open>
  \<^verbatim>\<open>manifest/checkpoint.go\<close>: marking the stages whose results are kept. \<open>Match\<close> is
  \<^verbatim>\<open>filepath.Match\<close>: \<open>*\<close> stands for any bytes but a slash, \<open>?\<close> for one rune but a slash, \<open>[...]\<close>
  for one rune of a class, a backslash quotes. A malformed pattern matches nothing, because the
  code drops the error.
\<close>

section \<open>Glob patterns\<close>

datatype glob =
    GStar
  | GAny
  | GLit char
  | GClass bool "(nat \<times> nat) list"

text \<open>One rune of a class, with its quoting: the rune and what follows it.\<close>

definition class_rune :: "string \<Rightarrow> (nat \<times> string) option" where
  "class_rune s =
     (case s of
        [] \<Rightarrow> None
      | c # cs \<Rightarrow>
          (if c = CHR ''-'' \<or> c = CHR '']'' then None
           else let body = (if c = CHR 0x5C then cs else s) in
             if body = [] then None
             else let (r, w) = decode_rune body in
               if r = rune_error \<and> w = 1 then None
               else if drop w body = [] then None
               else Some (r, drop w body)))"

text \<open>The ranges of a class, up to its closing bracket; an empty class is malformed.\<close>

fun parse_class :: "nat \<Rightarrow> bool \<Rightarrow> string \<Rightarrow> (nat \<times> nat) list \<Rightarrow> ((nat \<times> nat) list \<times> string) option" where
  "parse_class 0 first s acc = None"
| "parse_class (Suc fuel) first s acc =
     (if \<not> first \<and> s \<noteq> [] \<and> hd s = CHR '']'' then Some (rev acc, tl s)
      else case class_rune s of
        None \<Rightarrow> None
      | Some (lo, rest) \<Rightarrow>
          (if rest \<noteq> [] \<and> hd rest = CHR ''-''
           then (case class_rune (tl rest) of
                   None \<Rightarrow> None
                 | Some (hi, rest2) \<Rightarrow> parse_class fuel False rest2 ((lo, hi) # acc))
           else parse_class fuel False rest ((lo, lo) # acc)))"

fun parse_glob :: "nat \<Rightarrow> string \<Rightarrow> glob list option" where
  "parse_glob fuel [] = Some []"
| "parse_glob 0 (c # cs) = None"
| "parse_glob (Suc fuel) (c # cs) =
     (if c = CHR ''*'' then map_option ((#) GStar) (parse_glob fuel cs)
      else if c = CHR ''?'' then map_option ((#) GAny) (parse_glob fuel cs)
      else if c = CHR 0x5C then
        (case cs of [] \<Rightarrow> None | d # ds \<Rightarrow> map_option ((#) (GLit d)) (parse_glob fuel ds))
      else if c = CHR ''['' then
        (let (neg, body) = (if cs \<noteq> [] \<and> hd cs = CHR ''^'' then (True, tl cs) else (False, cs)) in
         case parse_class (Suc (length body)) True body [] of
           None \<Rightarrow> None
         | Some (ranges, rest) \<Rightarrow> map_option ((#) (GClass neg ranges)) (parse_glob fuel rest))
      else map_option ((#) (GLit c)) (parse_glob fuel cs))"

fun glob_matches :: "glob list \<Rightarrow> string \<Rightarrow> bool" where
  "glob_matches [] s = (s = [])"
| "glob_matches (GLit c # g) s = (s \<noteq> [] \<and> hd s = c \<and> glob_matches g (tl s))"
| "glob_matches (GAny # g) s =
     (s \<noteq> [] \<and> hd s \<noteq> CHR ''/'' \<and> glob_matches g (drop (snd (decode_rune s)) s))"
| "glob_matches (GClass neg rs # g) s =
     (s \<noteq> [] \<and> (let (r, w) = decode_rune s in
        (neg \<noteq> list_ex (\<lambda>(lo, hi). lo \<le> r \<and> r \<le> hi) rs) \<and> glob_matches g (drop w s)))"
| "glob_matches (GStar # g) s =
     list_ex (\<lambda>n. CHR ''/'' \<notin> set (take n s) \<and> glob_matches g (drop n s)) [0..<Suc (length s)]"

definition Match :: "string \<Rightarrow> string \<Rightarrow> bool" where
  "Match pattern name =
     (case parse_glob (Suc (length pattern)) pattern of None \<Rightarrow> False | Some g \<Rightarrow> glob_matches g name)"

fun matching :: "string \<Rightarrow> string list \<Rightarrow> bool" where
  "matching haystack [] = False"
| "matching haystack (p # patterns) = (Match p haystack \<or> matching haystack patterns)"

text \<open>A pattern without special characters matches itself and nothing else; \<open>*\<close> matches every name
  without a slash.\<close>

lemma glob_matches_literal: "glob_matches (map GLit p) s \<longleftrightarrow> s = p"
proof (induction p arbitrary: s)
  case (Cons c p)
  then show ?case by (cases s) auto
qed simp

lemma parse_glob_literal:
  "set p \<inter> {CHR ''*'', CHR ''?'', CHR ''['', CHR 0x5C} = {} \<Longrightarrow> length p \<le> fuel \<Longrightarrow>
   parse_glob fuel p = Some (map GLit p)"
proof (induction p arbitrary: fuel)
  case (Cons c p)
  then show ?case by (cases fuel) auto
qed simp

lemma Match_literal:
  "set p \<inter> {CHR ''*'', CHR ''?'', CHR ''['', CHR 0x5C} = {} \<Longrightarrow> Match p s \<longleftrightarrow> s = p"
  by (simp add: Match_def parse_glob_literal glob_matches_literal)

lemma Match_star: "Match ''*'' s \<longleftrightarrow> CHR ''/'' \<notin> set s"
  by (auto simp: Match_def list_ex_iff dest: in_set_takeD intro: bexI [of _ "length s"])

section \<open>Marking\<close>

definition set_checkpoint :: "stage \<Rightarrow> stage" where
  "set_checkpoint s = s\<lparr>st_Checkpoint := True\<rparr>"

text \<open>The loop over the stages: the stages as they are left, and the set of IDs selected.\<close>

fun mark_stages :: "golib \<Rightarrow> string list \<Rightarrow> stage list \<Rightarrow> string set \<Rightarrow> stage list \<times> string set" where
  "mark_stages L patterns [] selected = ([], selected)"
| "mark_stages L patterns (s # ss) selected =
     (let hit = matching (Stage_ID L s) patterns \<or> matching (Stage_Name s) patterns;
          s' = (if hit then set_checkpoint s else s);
          selected' = (if hit then insert (Stage_ID L s') selected else selected);
          (ss', selected'') = mark_stages L patterns ss selected'
      in (s' # ss', selected''))"

definition mark_pipeline :: "golib \<Rightarrow> string list \<Rightarrow> pipeline \<Rightarrow> string set \<Rightarrow> pipeline \<times> string set" where
  "mark_pipeline L patterns p selected =
     (if pl_Stages p = [] then (p, selected)
      else
        let (stages, selected') =
              (if matching (pl_Name p) patterns
               then (butlast (pl_Stages p) @ [set_checkpoint (last (pl_Stages p))],
                     insert (Stage_ID L (set_checkpoint (last (pl_Stages p)))) selected)
               else (pl_Stages p, selected));
            (stages', selected'') = mark_stages L patterns stages selected'
        in (p\<lparr>pl_Stages := stages'\<rparr>, selected''))"

fun mark_pipelines :: "golib \<Rightarrow> string list \<Rightarrow> pipeline list \<Rightarrow> string set \<Rightarrow> pipeline list \<times> string set" where
  "mark_pipelines L patterns [] selected = ([], selected)"
| "mark_pipelines L patterns (p # ps) selected =
     (let (p', selected') = mark_pipeline L patterns p selected;
          (ps', selected'') = mark_pipelines L patterns ps selected'
      in (p' # ps', selected''))"

definition MarkCheckpoints :: "golib \<Rightarrow> manifest \<Rightarrow> string list \<Rightarrow> manifest \<times> string set" where
  "MarkCheckpoints L m patterns =
     (let (ps, selected) = mark_pipelines L patterns (mf_Pipelines m) {}
      in (m\<lparr>mf_Pipelines := ps\<rparr>, selected))"

section \<open>Specification\<close>

lemma Stage_ID_checkpoint [simp]: "Stage_ID L (s\<lparr>st_Checkpoint := c\<rparr>) = Stage_ID L s"
  by (simp add: Stage_ID_def stage_preimage_def stage_tail_def input_ids_def mount_ids_def Stage_Name_def)

lemma Stage_Name_checkpoint [simp]: "Stage_Name (s\<lparr>st_Checkpoint := c\<rparr>) = Stage_Name s"
  by (simp add: Stage_Name_def)

text \<open>A stage is hit by its ID, by its type, or, when it is the last one, by its pipeline's name.\<close>

definition stage_hit :: "golib \<Rightarrow> string list \<Rightarrow> pipeline \<Rightarrow> nat \<Rightarrow> bool" where
  "stage_hit L patterns p i \<longleftrightarrow>
     matching (Stage_ID L (pl_Stages p ! i)) patterns
     \<or> matching (st_Type (pl_Stages p ! i)) patterns
     \<or> Suc i = length (pl_Stages p) \<and> matching (pl_Name p) patterns"

definition mark :: "bool \<Rightarrow> stage \<Rightarrow> stage" where
  "mark b s = s\<lparr>st_Checkpoint := st_Checkpoint s \<or> b\<rparr>"

definition marked_pipeline :: "golib \<Rightarrow> string list \<Rightarrow> pipeline \<Rightarrow> pipeline" where
  "marked_pipeline L patterns p =
     p\<lparr>pl_Stages := map (\<lambda>i. mark (stage_hit L patterns p i) (pl_Stages p ! i)) [0..<length (pl_Stages p)]\<rparr>"

definition hit_ids :: "golib \<Rightarrow> string list \<Rightarrow> pipeline \<Rightarrow> string set" where
  "hit_ids L patterns p = {Stage_ID L (pl_Stages p ! i) |i. i < length (pl_Stages p) \<and> stage_hit L patterns p i}"

lemma mark_simps [simp]:
  "Stage_ID L (mark b s) = Stage_ID L s" "Stage_Name (mark b s) = Stage_Name s"
  "mark False s = s" "Stage_ID L (set_checkpoint s) = Stage_ID L s"
  "Stage_Name (set_checkpoint s) = Stage_Name s"
  by (simp_all add: mark_def set_checkpoint_def)

lemma mark_mark [simp]: "mark a (mark b s) = mark (a \<or> b) s"
  by (cases a; cases b) (simp_all add: mark_def)

lemma set_checkpoint_mark: "set_checkpoint s = mark True s"
  by (simp add: mark_def set_checkpoint_def)

definition own_hit :: "golib \<Rightarrow> string list \<Rightarrow> stage \<Rightarrow> bool" where
  "own_hit L patterns s \<longleftrightarrow> matching (Stage_ID L s) patterns \<or> matching (Stage_Name s) patterns"

lemma own_hit_mark [simp]: "own_hit L patterns (mark b s) = own_hit L patterns s"
  by (simp add: own_hit_def)

lemma mark_stages_spec:
  "mark_stages L patterns ss selected =
     (map (\<lambda>s. mark (own_hit L patterns s) s) ss, selected \<union> Stage_ID L ` {s \<in> set ss. own_hit L patterns s})"
proof (induction ss arbitrary: selected)
  case (Cons s ss)
  have "(if own_hit L patterns s then set_checkpoint s else s) = mark (own_hit L patterns s) s"
    by (simp add: set_checkpoint_mark)
  with Cons show ?case by (auto simp: Let_def own_hit_def)
qed simp

lemma mark_pipeline_spec:
  "mark_pipeline L patterns p selected = (marked_pipeline L patterns p, selected \<union> hit_ids L patterns p)"
proof (cases "pl_Stages p" rule: rev_cases)
  case Nil
  then show ?thesis by (simp add: mark_pipeline_def marked_pipeline_def hit_ids_def)
next
  case (snoc ss t)
  let ?n = "matching (pl_Name p) patterns" and ?own = "own_hit L patterns"
  have hit: "stage_hit L patterns p i \<longleftrightarrow> (if i < length ss then ?own (ss ! i) else ?own t \<or> ?n)"
    if "i < Suc (length ss)" for i
    using that snoc by (auto simp: stage_hit_def own_hit_def Stage_Name_def nth_append less_Suc_eq)
  have stages: "map (\<lambda>i. mark (stage_hit L patterns p i) (pl_Stages p ! i)) [0..<length (pl_Stages p)]
      = map (\<lambda>s. mark (?own s) s) ss @ [mark (?own t \<or> ?n) t]"
    by (rule nth_equalityI) (auto simp: snoc nth_append less_Suc_eq hit simp del: upt_Suc)
  have marked: "marked_pipeline L patterns p
      = p\<lparr>pl_Stages := map (\<lambda>s. mark (?own s) s) ss @ [mark (?own t \<or> ?n) t]\<rparr>"
    by (simp only: marked_pipeline_def stages)
  have "hit_ids L patterns p = Stage_ID L ` {s \<in> set ss. ?own s} \<union> (if ?own t \<or> ?n then {Stage_ID L t} else {})"
  proof -
    have idx: "{i. i < length (pl_Stages p) \<and> stage_hit L patterns p i}
        = {i. i < length ss \<and> ?own (ss ! i)} \<union> (if ?own t \<or> ?n then {length ss} else {})"
      by (auto simp: snoc hit less_Suc_eq)
    have "hit_ids L patterns p = (\<lambda>i. Stage_ID L (pl_Stages p ! i)) ` {i. i < length (pl_Stages p) \<and> stage_hit L patterns p i}"
      by (auto simp: hit_ids_def)
    also have "\<dots> = (\<lambda>i. Stage_ID L (ss ! i)) ` {i. i < length ss \<and> ?own (ss ! i)}
        \<union> (if ?own t \<or> ?n then {Stage_ID L t} else {})"
      unfolding idx by (auto simp: image_Un snoc nth_append intro!: rev_image_eqI)
    also have "(\<lambda>i. Stage_ID L (ss ! i)) ` {i. i < length ss \<and> ?own (ss ! i)} = Stage_ID L ` {s \<in> set ss. ?own s}"
      by (auto simp: in_set_conv_nth intro!: rev_image_eqI)
    finally show ?thesis .
  qed
  then show ?thesis
    by (auto simp: mark_pipeline_def marked snoc mark_stages_spec Let_def set_checkpoint_mark)
qed

lemma mark_pipelines_spec:
  "mark_pipelines L patterns ps selected =
     (map (marked_pipeline L patterns) ps, selected \<union> (\<Union>p \<in> set ps. hit_ids L patterns p))"
  by (induction ps arbitrary: selected) (auto simp: mark_pipeline_spec Let_def)

text \<open>C16: \<open>MarkCheckpoints\<close> sets the checkpoint flag of exactly the stages hit by a pattern, on top of
  those already set, changes nothing else, and returns the IDs of exactly the stages it hit.\<close>

theorem MarkCheckpoints_spec:
  "MarkCheckpoints L m patterns =
     (m\<lparr>mf_Pipelines := map (marked_pipeline L patterns) (mf_Pipelines m)\<rparr>,
      \<Union>p \<in> set (mf_Pipelines m). hit_ids L patterns p)"
  by (simp add: MarkCheckpoints_def mark_pipelines_spec)

end
