(* ===== verification/Describe.thy ===== *)
theory Describe
  imports ParseFacts
begin

text \<open>
  \<^verbatim>\<open>manifest/describe.go\<close>: from the typed manifest back to the JSON form. The map literals and
  assignments of the code become updates of an association list, in their order.
\<close>

section \<open>Parts of a stage\<close>

definition set_if :: "bool \<Rightarrow> string \<Rightarrow> gval \<Rightarrow> gobject \<Rightarrow> gobject" where
  "set_if b k v m = (if b then gset k v m else m)"

definition describeDevice :: "device \<Rightarrow> gobject" where
  "describeDevice d =
     (let desc = set_if (dev_Options d \<noteq> []) ''options'' (GMap (dev_Options d)) [(''type'', GString (dev_Type d))]
      in (case dev_Parent d of None \<Rightarrow> desc | Some p \<Rightarrow> gset ''parent'' (GString (dev_Name p)) desc))"

definition describe_ref :: "golib \<Rightarrow> manifest \<Rightarrow> bool \<Rightarrow> minput \<Rightarrow> string \<Rightarrow> string" where
  "describe_ref L m withID ip ref =
     (if in_Origin ip = ''org.osbuild.pipeline'' \<and> \<not> withID
      then (case PipelineByID L m ref of None \<Rightarrow> ref | Some bp \<Rightarrow> ''name:'' @ pl_Name bp)
      else ref)"

definition describeInput :: "golib \<Rightarrow> minput \<Rightarrow> manifest \<Rightarrow> bool \<Rightarrow> gobject" where
  "describeInput L ip m withID =
     (let desc = set_if (in_Options ip \<noteq> []) ''options'' (GMap (in_Options ip))
                   [(''type'', GString (in_Type ip)), (''origin'', GString (in_Origin ip))];
          refs = fold (\<lambda>(ref, opts) refs. gset (describe_ref L m withID ip ref) opts refs) (in_Refs ip) []
      in set_if (in_Refs ip \<noteq> []) ''references'' (GMap refs) desc)"

definition describeMount :: "mount \<Rightarrow> gobject" where
  "describeMount mnt =
     (let desc0 = [(''name'', GString (mnt_Name mnt)), (''type'', GString (mnt_Type mnt))];
          desc1 = set_if (mnt_Target mnt \<noteq> []) ''target'' (GString (mnt_Target mnt)) desc0;
          desc2 = (case mnt_Device mnt of None \<Rightarrow> desc1 | Some d \<Rightarrow> gset ''source'' (GString (dev_Name d)) desc1);
          desc3 = set_if (mnt_Options mnt \<noteq> []) ''options'' (GMap (mnt_Options mnt)) desc2
      in (case mnt_Partition mnt of None \<Rightarrow> desc3 | Some i \<Rightarrow> gset ''partition'' (GInt i) desc3))"

definition describeStage :: "golib \<Rightarrow> stage \<Rightarrow> manifest \<Rightarrow> bool \<Rightarrow> gobject" where
  "describeStage L s m withID =
     (let desc0 = [(''type'', GString (st_Type s))];
          desc1 = set_if withID ''id'' (GString (Stage_ID L s)) desc0;
          desc2 = set_if (st_Options s \<noteq> []) ''options'' (GMap (st_Options s)) desc1;
          devs = om_Range (st_Devices s) (\<lambda>name d devs. (True, gset name (GMap (describeDevice (the d))) devs)) [];
          desc3 = set_if (om_Len (st_Devices s) > 0) ''devices'' (GMap devs) desc2;
          inputs = om_Range (st_Inputs s)
            (\<lambda>name ip inputs. (True, gset name (GMap (describeInput L (the ip) m withID)) inputs)) [];
          desc4 = set_if (om_Len (st_Inputs s) > 0) ''inputs'' (GMap inputs) desc3;
          mounts = om_Range (st_Mounts s) (\<lambda>name mnt mounts. (True, mounts @ [GMap (describeMount (the mnt))])) []
      in set_if (om_Len (st_Mounts s) > 0) ''mounts'' (GSlice mounts) desc4)"

section \<open>Pipelines and the manifest\<close>

definition describePipeline :: "golib \<Rightarrow> pipeline \<Rightarrow> manifest \<Rightarrow> (string \<rightharpoonup> runner) \<Rightarrow> bool \<Rightarrow> gobject" where
  "describePipeline L p m rs withID =
     (let desc0 = [(''name'', GString (pl_Name p))];
          desc1 = (case pl_Build p of
              None \<Rightarrow> desc0
            | Some b \<Rightarrow> gset ''build''
                (GString (if withID then b
                          else (case PipelineByID L m b of Some bp \<Rightarrow> ''name:'' @ pl_Name bp | None \<Rightarrow> b))) desc0);
          desc2 = (case rs (Pipeline_ID L p) of
              None \<Rightarrow> desc1
            | Some r \<Rightarrow> set_if (run_Name r \<noteq> []) ''runner'' (GString (run_Name r)) desc1);
          desc3 = (case pl_SourceEpoch p of None \<Rightarrow> desc2 | Some e \<Rightarrow> gset ''source-epoch'' (GInt e) desc2)
      in gset ''stages'' (GSlice (map (\<lambda>s. GMap (describeStage L s m withID)) (pl_Stages p))) desc3)"

definition describe_runners :: "golib \<Rightarrow> manifest \<Rightarrow> string \<rightharpoonup> runner" where
  "describe_runners L m =
     fold (\<lambda>p rs. if pl_Build p \<noteq> None then rs(Pipeline_ID L p \<mapsto> pl_Runner p) else rs)
       (mf_Pipelines m) Map.empty"

definition describe_source :: "source \<Rightarrow> gobject" where
  "describe_source s =
     set_if (src_Options s \<noteq> []) ''options'' (GMap (src_Options s))
       (set_if (src_Items s \<noteq> []) ''items'' (GMap (src_Items s)) [])"

definition Describe :: "golib \<Rightarrow> manifest \<Rightarrow> bool \<Rightarrow> gobject" where
  "Describe L m withID =
     (let rs = describe_runners L m;
          pls = map (\<lambda>p. GMap (describePipeline L p m rs withID)) (mf_Pipelines m);
          result = [(''version'', GString ''2''), (''pipelines'', GSlice pls)];
          result1 = set_if (mf_Metadata m \<noteq> []) ''metadata'' (GMap (mf_Metadata m)) result;
          sources = fold (\<lambda>s sources. gset (src_Type s) (GMap (describe_source s)) sources) (mf_Sources m) []
      in set_if (mf_Sources m \<noteq> []) ''sources'' (GMap sources) result1)"

section \<open>What a description shows\<close>

lemma get_set_if [simp]: "map_of (set_if b k v m) x = (if b \<and> x = k then Some v else map_of m x)"
  by (simp add: set_if_def)

lemma describe_runners_eq:
  "describe_runners L m i =
     (let qs = filter (\<lambda>q. Pipeline_ID L q = i \<and> pl_Build q \<noteq> None) (mf_Pipelines m)
      in if qs = [] then None else Some (pl_Runner (last qs)))"
proof -
  have "fold (\<lambda>p rs. if pl_Build p \<noteq> None then rs(Pipeline_ID L p \<mapsto> pl_Runner p) else rs) ps Map.empty i =
     (let qs = filter (\<lambda>q. Pipeline_ID L q = i \<and> pl_Build q \<noteq> None) ps
      in if qs = [] then None else Some (pl_Runner (last qs)))" for ps
    by (induction ps rule: rev_induct) (auto simp: Let_def)
  then show ?thesis by (simp add: describe_runners_def)
qed

text \<open>
  The \<open>runner\<close> a manifest declares for a pipeline is the one that pipelines built in it run on.
  \<open>described_runner\<close> is the one a description gives for it.
\<close>

definition described_runner :: "golib \<Rightarrow> manifest \<Rightarrow> pipeline \<Rightarrow> string option" where
  "described_runner L m p = get_string (describePipeline L p m (describe_runners L m) False) ''runner''"

lemma described_runner_eq:
  "described_runner L m p = (case describe_runners L m (Pipeline_ID L p) of
     None \<Rightarrow> None | Some r \<Rightarrow> if run_Name r = [] then None else Some (run_Name r))"
  by (auto simp: described_runner_def describePipeline_def Let_def get_string_def split: option.split)

lemma described_runner_own:
  "described_runner L m p =
     (let qs = filter (\<lambda>q. Pipeline_ID L q = Pipeline_ID L p \<and> pl_Build q \<noteq> None) (mf_Pipelines m)
      in if qs = [] \<or> run_Name (pl_Runner (last qs)) = [] then None
         else Some (run_Name (pl_Runner (last qs))))"
  by (simp add: described_runner_eq describe_runners_eq Let_def split: option.split)

lemma demo_ids:
  "Stage_ID demo_lib s \<noteq> []"
  "st_Type s = ''rpm'' \<Longrightarrow> st_Type t = ''tar'' \<Longrightarrow> Stage_ID demo_lib s \<noteq> Stage_ID demo_lib t"
  "st_Type s = ''rpm'' \<Longrightarrow> st_Type t = ''tar'' \<Longrightarrow> Stage_ID demo_lib t \<noteq> Stage_ID demo_lib s"
proof -
  have hex: "hex_encode s = [] \<longleftrightarrow> s = []" for s
    using hex_encode_inj [of s "[]"] by (auto simp: hex_encode_def)
  show "Stage_ID demo_lib s \<noteq> []"
    by (simp add: Stage_ID_def digest_hex_def hex stage_preimage_def marshal_bytes_def Marshal_def marshalString_def)
  have neq: "Stage_ID demo_lib s \<noteq> Stage_ID demo_lib t" if "st_Type s = ''rpm''" "st_Type t = ''tar''" for s t
  proof
    assume "Stage_ID demo_lib s = Stage_ID demo_lib t"
    then have "stage_preimage demo_lib s = stage_preimage demo_lib t"
      unfolding Stage_ID_def by (auto dest: digest_hex_inj)
    from stage_preimage_parts(1) [OF this] that have "marshalString ''rpm'' = marshalString ''tar''"
      by (simp add: Stage_Name_def marshal_bytes_def Marshal_def)
    then have "''rpm'' = ''tar''"
      by (rule marshalString_inj_safe) (simp_all add: html_safe_def)
    then show False by simp
  qed
  then show "st_Type s = ''rpm'' \<Longrightarrow> st_Type t = ''tar'' \<Longrightarrow> Stage_ID demo_lib s \<noteq> Stage_ID demo_lib t"
    "st_Type s = ''rpm'' \<Longrightarrow> st_Type t = ''tar'' \<Longrightarrow> Stage_ID demo_lib t \<noteq> Stage_ID demo_lib s"
    by (metis, metis)
qed

definition demo_built :: gobject where
  "demo_built = [(''version'', GString ''2''), (''pipelines'', GSlice
     [GMap [(''name'', GString ''build''), (''runner'', GString ''fedora38''),
        (''stages'', GSlice [GMap [(''type'', GString ''rpm'')]])],
      GMap [(''name'', GString ''os''), (''build'', GString ''name:build''), (''runner'', GString ''rhel9''),
        (''stages'', GSlice [GMap [(''type'', GString ''tar'')]])]])]"

text \<open>\<open>Describe\<close> does not print the runners the manifest was given: of a manifest that declares
  \<open>fedora38\<close> for its build pipeline and \<open>rhel9\<close> for the pipeline built in it, the description has no
  runner for the former and \<open>fedora38\<close> for the latter. The runners are collected under the ID of
  the pipeline they run, not of the build root they belong to.\<close>

theorem Describe_moves_runners:
  "\<exists>m. Parse demo_lib (\<lambda>_. None) demo_api demo_built = Inr m
     \<and> map (described_runner demo_lib m) (mf_Pipelines m) = [None, Some ''fedora38'']"
  by (simp add: demo_built_def parse_eval HasPrefix_def resolveRef_def Pipeline_ID_def demo_ids
      described_runner_own)

end
