(* ===== verification/Validate.thy ===== *)
theory Validate
  imports Parse
begin

text \<open>
  \<^verbatim>\<open>registry/schema.go\<close> (results and their paths) and \<^verbatim>\<open>manifest/validate.go\<close>: every module a
  manifest mentions is checked against the schema of that module. The schema compiler and checker
  (a third-party package) is a parameter: \<open>sch_check\<close> gives what compiling the schema and checking a
  value against it ends in. \<open>schema kind name\<close> is \<open>reg.Schema(kind, name, "2").Data\<close>.
\<close>

section \<open>Results\<close>

datatype path_elem = PName string | PIndex nat

record verror =
  ve_Message :: string
  ve_Path :: "path_elem list"

record vresult =
  vr_Origin :: string
  vr_Errors :: "verror list"

text \<open>The tree of causes of a failed check, and the ways a check ends.\<close>

datatype vcause = VCause (vc_Error: string) (vc_Causes: "vcause list")

datatype voutcome = SchemaBroken string | SchemaOk | SchemaViolated vcause | CheckFailed string

definition Valid :: "vresult \<Rightarrow> bool" where
  "Valid r \<longleftrightarrow> length (vr_Errors r) = 0"

definition merge_error :: "path_elem list \<Rightarrow> verror \<Rightarrow> verror" where
  "merge_error pathPrefix e = \<lparr>ve_Message = ve_Message e, ve_Path = pathPrefix @ ve_Path e\<rparr>"

definition Merge :: "vresult \<Rightarrow> vresult \<Rightarrow> path_elem list \<Rightarrow> vresult" where
  "Merge r other pathPrefix = r\<lparr>vr_Errors := vr_Errors r @ map (merge_error pathPrefix) (vr_Errors other)\<rparr>"

text \<open>\<open>ValidationError.ID\<close>: \<open>.name\<close> for names, \<open>[i]\<close> for indices.\<close>

fun elem_ID :: "path_elem \<Rightarrow> string" where
  "elem_ID (PName v) = ''.'' @ v"
| "elem_ID (PIndex i) = ''['' @ nat_str i @ '']''"

definition verror_ID :: "verror \<Rightarrow> string" where
  "verror_ID e = concat (map elem_ID (ve_Path e))"

fun collectErrors :: "vcause \<Rightarrow> verror list" where
  "collectErrors (VCause msg causes) =
     (if causes = [] then [\<lparr>ve_Message = msg, ve_Path = []\<rparr>] else concat (map collectErrors causes))"

definition Schema_Validate :: "(gobject \<Rightarrow> gval \<Rightarrow> voutcome) \<Rightarrow> string \<Rightarrow> gobject option \<Rightarrow> gval \<Rightarrow> vresult" where
  "Schema_Validate sch_check name data target =
     \<lparr>vr_Origin = name, vr_Errors =
        (case data of
           None \<Rightarrow> []
         | Some d \<Rightarrow>
             (case sch_check d target of
                SchemaBroken msg \<Rightarrow> [\<lparr>ve_Message = msg, ve_Path = []\<rparr>]
              | SchemaOk \<Rightarrow> []
              | SchemaViolated ve \<Rightarrow> collectErrors ve
              | CheckFailed msg \<Rightarrow> [\<lparr>ve_Message = msg, ve_Path = []\<rparr>]))\<rparr>"

section \<open>The walk over the manifest\<close>

text \<open>
  Looking a schema up and merging the outcome under a path. The loop state is the result and the
  number of times \<open>ctx.Err()\<close> was polled; \<open>Inl\<close> is the early return of a cancelled context.
\<close>

type_synonym vctx = "(gobject \<Rightarrow> gval \<Rightarrow> voutcome) \<times> (string \<Rightarrow> string \<Rightarrow> gobject option)"

definition check_module :: "vctx \<Rightarrow> string \<Rightarrow> string \<Rightarrow> gval \<Rightarrow> path_elem list \<Rightarrow> vresult \<Rightarrow> vresult" where
  "check_module V kind name target path result =
     (case snd V kind name of
        None \<Rightarrow> result
      | Some d \<Rightarrow> Merge result (Schema_Validate (fst V) name (Some d) target) path)"

definition validateStageModules :: "vctx \<Rightarrow> gobject \<Rightarrow> string \<Rightarrow> string \<Rightarrow> nat \<Rightarrow> nat \<Rightarrow> vresult \<Rightarrow> vresult" where
  "validateStageModules V stage kind field pidx sidx result =
     (case get_map stage field of
        None \<Rightarrow> result
      | Some items \<Rightarrow>
          fold (\<lambda>(name, idesc) result.
            case idesc of
              GMap id' \<Rightarrow>
                (let itemType = get_string0 id' ''type'' in
                 if itemType = [] then result
                 else check_module V kind itemType (GMap id')
                        [PName ''pipelines'', PIndex pidx, PName ''stages'', PIndex sidx, PName field, PName name] result)
            | _ \<Rightarrow> result) items result)"

definition validateStageMounts :: "vctx \<Rightarrow> gobject \<Rightarrow> nat \<Rightarrow> nat \<Rightarrow> vresult \<Rightarrow> vresult" where
  "validateStageMounts V stage pidx sidx result =
     (case get_slice stage ''mounts'' of
        None \<Rightarrow> result
      | Some mounts \<Rightarrow>
          fold (\<lambda>(midx, mdesc) result.
            case mdesc of
              GMap md \<Rightarrow>
                (let mountType = get_string0 md ''type'' in
                 if mountType = [] then result
                 else check_module V ''Mount'' mountType (GMap md)
                        [PName ''pipelines'', PIndex pidx, PName ''stages'', PIndex sidx, PName ''mounts'', PIndex midx] result)
            | _ \<Rightarrow> result) (enumerate 0 mounts) result)"

definition cancelled_result :: "vresult \<Rightarrow> string \<Rightarrow> vresult" where
  "cancelled_result result e = result\<lparr>vr_Errors := vr_Errors result @ [\<lparr>ve_Message = e, ve_Path = []\<rparr>]\<rparr>"

definition validate_source ::
    "vctx \<Rightarrow> (nat \<Rightarrow> string option) \<Rightarrow> string \<times> gval \<Rightarrow> nat \<times> vresult \<Rightarrow> vresult + nat \<times> vresult" where
  "validate_source V ctx e s =
     (case (e, s) of ((name, sdesc), (polls, result)) \<Rightarrow>
        (case ctx polls of
           Some err \<Rightarrow> Inl (cancelled_result result err)
         | None \<Rightarrow> Inr (Suc polls, check_module V ''Source'' name sdesc [PName ''sources'', PName name] result)))"

definition validate_stage ::
    "vctx \<Rightarrow> (nat \<Rightarrow> string option) \<Rightarrow> nat \<Rightarrow> nat \<times> gval \<Rightarrow> nat \<times> vresult \<Rightarrow> vresult + nat \<times> vresult" where
  "validate_stage V ctx pidx e s =
     (case (e, s) of ((sidx, sdesc), (polls, result)) \<Rightarrow>
        (case ctx polls of
           Some err \<Rightarrow> Inl (cancelled_result result err)
         | None \<Rightarrow>
             Inr (Suc polls,
               (case sdesc of
                  GMap sd \<Rightarrow>
                    validateStageMounts V sd pidx sidx
                      (validateStageModules V sd ''Input'' ''inputs'' pidx sidx
                        (validateStageModules V sd ''Device'' ''devices'' pidx sidx
                          (check_module V ''Stage'' (get_string0 sd ''type'') (GMap sd)
                            [PName ''pipelines'', PIndex pidx, PName ''stages'', PIndex sidx] result)))
                | _ \<Rightarrow> result))))"

definition validate_pipeline ::
    "vctx \<Rightarrow> (nat \<Rightarrow> string option) \<Rightarrow> nat \<times> gval \<Rightarrow> nat \<times> vresult \<Rightarrow> vresult + nat \<times> vresult" where
  "validate_pipeline V ctx e s =
     (case snd e of
        GMap pd \<Rightarrow> (case get_slice pd ''stages'' of
            None \<Rightarrow> Inr s
          | Some stages \<Rightarrow> foldE (validate_stage V ctx (fst e)) (enumerate 0 stages) s)
      | _ \<Rightarrow> Inr s)"

definition Validate :: "vctx \<Rightarrow> (nat \<Rightarrow> string option) \<Rightarrow> gobject \<Rightarrow> vresult" where
  "Validate V ctx desc =
     (let r0 = check_module V ''Manifest'' [] (GMap desc) [] \<lparr>vr_Origin = ''osbuild'', vr_Errors = []\<rparr>;
          walk = bindR (case get_map desc ''sources'' of
                    None \<Rightarrow> Inr (0, r0) | Some sources \<Rightarrow> foldE (validate_source V ctx) sources (0, r0))
                  (\<lambda>s. case get_slice desc ''pipelines'' of
                    None \<Rightarrow> Inr s | Some pipelines \<Rightarrow> foldE (validate_pipeline V ctx) (enumerate 0 pipelines) s)
      in (case walk of Inl r \<Rightarrow> r | Inr (polls, r) \<Rightarrow> r))"

definition format_error :: "verror \<Rightarrow> string" where
  "format_error e = (let id' = verror_ID e in
     if id' = [] then ''  '' @ ve_Message e @ [CHR 10]
     else ''  '' @ id' @ '': '' @ ve_Message e @ [CHR 10])"

definition FormatValidationErrors :: "vresult \<Rightarrow> string" where
  "FormatValidationErrors result =
     (if Valid result then []
      else fold (\<lambda>e msg. msg @ format_error e) (vr_Errors result) (''Validation failed:'' @ [CHR 10]))"

section \<open>Specification\<close>

text \<open>
  The fragments of a manifest that have to conform to a schema: the manifest itself, every source,
  every stage, and every device, input and mount of a stage that names its type, each with the
  kind and name of its module and its path.
\<close>

type_synonym fragment = "string \<times> string \<times> gval \<times> path_elem list"

definition stage_modules :: "gobject \<Rightarrow> string \<Rightarrow> string \<Rightarrow> path_elem list \<Rightarrow> fragment list" where
  "stage_modules sd kind field path =
     concat (map (\<lambda>(n, v). case v of
         GMap i \<Rightarrow> if get_string0 i ''type'' = [] then []
                  else [(kind, get_string0 i ''type'', GMap i, path @ [PName field, PName n])]
       | _ \<Rightarrow> [])
       (get_map0 sd field))"

definition get_slice0 :: "gobject \<Rightarrow> string \<Rightarrow> gval list" where
  "get_slice0 o' k = (case get_slice o' k of None \<Rightarrow> [] | Some xs \<Rightarrow> xs)"

definition stage_mounts :: "gobject \<Rightarrow> path_elem list \<Rightarrow> fragment list" where
  "stage_mounts sd path =
     concat (map (\<lambda>(i, v). case v of
         GMap md \<Rightarrow> if get_string0 md ''type'' = [] then []
                  else [(''Mount'', get_string0 md ''type'', GMap md, path @ [PName ''mounts'', PIndex i])]
       | _ \<Rightarrow> [])
       (enumerate 0 (get_slice0 sd ''mounts'')))"

definition stage_fragments :: "nat \<Rightarrow> nat \<times> gval \<Rightarrow> fragment list" where
  "stage_fragments pidx e =
     (let path = [PName ''pipelines'', PIndex pidx, PName ''stages'', PIndex (fst e)] in
      case snd e of
        GMap sd \<Rightarrow> (''Stage'', get_string0 sd ''type'', GMap sd, path)
          # stage_modules sd ''Device'' ''devices'' path @ stage_modules sd ''Input'' ''inputs'' path
          @ stage_mounts sd path
      | _ \<Rightarrow> [])"

definition pipeline_fragments :: "nat \<times> gval \<Rightarrow> fragment list" where
  "pipeline_fragments e =
     (case snd e of
        GMap pd \<Rightarrow> concat (map (stage_fragments (fst e)) (enumerate 0 (get_slice0 pd ''stages'')))
      | _ \<Rightarrow> [])"

definition fragments :: "gobject \<Rightarrow> fragment list" where
  "fragments desc =
     (''Manifest'', [], GMap desc, [])
     # map (\<lambda>(n, v). (''Source'', n, v, [PName ''sources'', PName n])) (get_map0 desc ''sources'')
     @ concat (map pipeline_fragments (enumerate 0 (get_slice0 desc ''pipelines'')))"

definition fragment_errors :: "vctx \<Rightarrow> fragment \<Rightarrow> verror list" where
  "fragment_errors V f =
     (case f of (kind, name, v, path) \<Rightarrow>
        map (merge_error path) (vr_Errors (Schema_Validate (fst V) name (snd V kind name) v)))"

definition add_errors :: "vctx \<Rightarrow> fragment list \<Rightarrow> vresult \<Rightarrow> vresult" where
  "add_errors V fs r = r\<lparr>vr_Errors := vr_Errors r @ concat (map (fragment_errors V) fs)\<rparr>"

lemma add_errors_Nil [simp]: "add_errors V [] r = r"
  by (simp add: add_errors_def)

lemma add_errors_add [simp]: "add_errors V gs (add_errors V fs r) = add_errors V (fs @ gs) r"
  by (simp add: add_errors_def)

lemma check_module_add: "check_module V kind name v path r = add_errors V [(kind, name, v, path)] r"
  by (cases "snd V kind name")
    (simp_all add: check_module_def add_errors_def fragment_errors_def Merge_def Schema_Validate_def)

lemma fold_add_errors:
  assumes "\<And>x r. g x r = add_errors V (f x) r"
  shows "fold g xs r = add_errors V (concat (map f xs)) r"
  by (induction xs arbitrary: r) (simp_all add: assms)

lemma validateStageModules_add:
  "validateStageModules V sd kind field pidx sidx r =
     add_errors V (stage_modules sd kind field [PName ''pipelines'', PIndex pidx, PName ''stages'', PIndex sidx]) r"
  unfolding validateStageModules_def stage_modules_def get_map0_def
  by (cases "get_map sd field")
    (auto intro!: fold_add_errors simp: check_module_add Let_def split: gval.split)

lemma validateStageMounts_add:
  "validateStageMounts V sd pidx sidx r =
     add_errors V (stage_mounts sd [PName ''pipelines'', PIndex pidx, PName ''stages'', PIndex sidx]) r"
  unfolding validateStageMounts_def stage_mounts_def get_slice0_def
  by (cases "get_slice sd ''mounts''")
    (auto intro!: fold_add_errors simp: check_module_add Let_def split: gval.split)

text \<open>Without cancellation every loop of the walk only adds the errors of its fragments.\<close>

lemma foldE_add_errors:
  assumes "\<And>x polls r. \<exists>polls'. g x (polls, r) = Inr (polls', add_errors V (f x) r)"
  shows "\<exists>polls'. foldE g xs (polls, r) = Inr (polls', add_errors V (concat (map f xs)) r)"
proof (induction xs arbitrary: polls r)
  case (Cons x xs)
  obtain polls1 where x: "g x (polls, r) = Inr (polls1, add_errors V (f x) r)" using assms by blast
  show ?case using Cons [of polls1 "add_errors V (f x) r"] by (simp add: x)
qed simp

lemma validate_stage_add:
  assumes "\<And>i. ctx i = None"
  shows "\<exists>polls'. validate_stage V ctx pidx e (polls, r) = Inr (polls', add_errors V (stage_fragments pidx e) r)"
  by (cases e) (auto simp: validate_stage_def assms stage_fragments_def Let_def check_module_add
      validateStageModules_add validateStageMounts_add split: gval.split)

lemma validate_pipeline_add:
  assumes "\<And>i. ctx i = None"
  shows "\<exists>polls'. validate_pipeline V ctx e (polls, r) = Inr (polls', add_errors V (pipeline_fragments e) r)"
  using foldE_add_errors [where g = "validate_stage V ctx (fst e)" and f = "stage_fragments (fst e)",
      OF validate_stage_add [OF assms]]
  by (auto simp: validate_pipeline_def pipeline_fragments_def get_slice0_def split: gval.split option.split)

lemma validate_source_add:
  assumes "\<And>i. ctx i = None"
  shows "\<exists>polls'. validate_source V ctx e (polls, r)
     = Inr (polls', add_errors V [case e of (n, v) \<Rightarrow> (''Source'', n, v, [PName ''sources'', PName n])] r)"
  by (cases e) (simp add: validate_source_def assms check_module_add)

text \<open>C15: Unless it is cancelled, \<open>Validate\<close> reports exactly the errors of the fragments of the
  manifest, in their order and under their paths: no module reference is skipped, none is checked
  twice, and the manifest is valid iff every fragment conforms to the schema of its module.\<close>

theorem Validate_checks_fragments:
  assumes "\<And>i. ctx i = None"
  shows "vr_Errors (Validate V ctx desc) = concat (map (fragment_errors V) (fragments desc))
    \<and> (Valid (Validate V ctx desc) \<longleftrightarrow> list_all (\<lambda>f. fragment_errors V f = []) (fragments desc))"
proof -
  let ?r = "\<lparr>vr_Origin = ''osbuild'', vr_Errors = []\<rparr>"
  let ?sources = "map (\<lambda>(n, v). (''Source'', n, v, [PName ''sources'', PName n])) (get_map0 desc ''sources'')"
  let ?pipelines = "concat (map pipeline_fragments (enumerate 0 (get_slice0 desc ''pipelines'')))"
  define r0 where "r0 = check_module V ''Manifest'' [] (GMap desc) [] ?r"
  have "\<exists>polls. (case get_map desc ''sources'' of None \<Rightarrow> Inr (0, r0)
        | Some ss \<Rightarrow> foldE (validate_source V ctx) ss (0, r0)) = (Inr (polls, add_errors V ?sources r0) :: vresult + nat \<times> vresult)"
    using foldE_add_errors [where g = "validate_source V ctx"
        and f = "\<lambda>e. [case e of (n, v) \<Rightarrow> (''Source'', n, v, [PName ''sources'', PName n])]",
        OF validate_source_add [OF assms]]
    by (auto simp: get_map0_def concat_map_singleton split: option.split)
  then obtain polls1 where s: "(case get_map desc ''sources'' of None \<Rightarrow> Inr (0, r0)
        | Some ss \<Rightarrow> foldE (validate_source V ctx) ss (0, r0)) = (Inr (polls1, add_errors V ?sources r0) :: vresult + nat \<times> vresult)" ..
  have "\<exists>polls. (case get_slice desc ''pipelines'' of None \<Rightarrow> Inr (polls1, r)
        | Some ps \<Rightarrow> foldE (validate_pipeline V ctx) (enumerate 0 ps) (polls1, r))
      = (Inr (polls, add_errors V ?pipelines r) :: vresult + nat \<times> vresult)" for r
    using foldE_add_errors [where g = "validate_pipeline V ctx" and f = pipeline_fragments,
        OF validate_pipeline_add [OF assms]]
    by (auto simp: get_slice0_def split: option.split)
  then obtain polls2 where p: "(case get_slice desc ''pipelines'' of None \<Rightarrow> Inr (polls1, add_errors V ?sources r0)
        | Some ps \<Rightarrow> foldE (validate_pipeline V ctx) (enumerate 0 ps) (polls1, add_errors V ?sources r0))
      = (Inr (polls2, add_errors V ?pipelines (add_errors V ?sources r0)) :: vresult + nat \<times> vresult)" by blast
  have "Validate V ctx desc = add_errors V ?pipelines (add_errors V ?sources r0)"
    unfolding Validate_def Let_def r0_def [symmetric] s by (simp add: p)
  also have "\<dots> = add_errors V (fragments desc) ?r"
    by (simp add: r0_def check_module_add fragments_def)
  finally have "vr_Errors (Validate V ctx desc) = concat (map (fragment_errors V) (fragments desc))"
    by (simp add: add_errors_def)
  then show ?thesis by (simp add: Valid_def list_all_iff)
qed

theorem Validate_checks_fragments_witness:
  "\<forall>V. vr_Errors (Validate V (\<lambda>_. None) []) = concat (map (fragment_errors V) (fragments []))"
  using Validate_checks_fragments [of "\<lambda>_. None"] by blast

text \<open>A valid result formats to the empty string, an invalid one to a line per error below the
  heading, in order, each with its path when it has one.\<close>

lemma FormatValidationErrors_lines:
  "FormatValidationErrors r = (if vr_Errors r = [] then []
     else ''Validation failed:'' @ [CHR 10]
       @ concat (map (\<lambda>e. ''  '' @ (if verror_ID e = [] then [] else verror_ID e @ '': '') @ ve_Message e @ [CHR 10])
           (vr_Errors r)))"
proof -
  have step: "format_error = (\<lambda>e. ''  '' @ (if verror_ID e = [] then [] else verror_ID e @ '': '') @ ve_Message e @ [CHR 10])"
    by (simp add: format_error_def Let_def fun_eq_iff)
  have "fold (\<lambda>e msg. msg @ format_error e) es msg = msg @ concat (map format_error es)" for es msg
    by (induction es arbitrary: msg) simp_all
  then show ?thesis by (simp only: FormatValidationErrors_def Valid_def step length_0_conv append_assoc)
qed

end
