(* ===== verification/HostTree.thy ===== *)
theory HostTree
  imports Prelude
begin

text \<open>
  \<^verbatim>\<open>store/hosttree.go\<close>: the bind mounts that show parts of the host inside the store, and what
  removing the directory does while they are mounted. The state is the temporary directory, the
  mounts below it as pairs of source and destination, and the host directories whose contents
  \<open>os.RemoveAll\<close> has deleted through a mount (the mounts are not read-only). A directory that holds
  a mount cannot be removed itself.
\<close>

datatype hcall = TempDir | MkdirSub string | BindMount string | UmountAll

record hoststate =
  hs_dir :: bool
  hs_mounts :: "(string \<times> string) list"
  hs_lost :: "string list"

text \<open>The name \<open>dir\<close> stands for the temporary directory; sub-directories are relative to it.\<close>

definition host_subs :: "string list" where
  "host_subs = [''usr'', ''etc/containers'']"

definition host_binds :: "(string \<times> string) list" where
  "host_binds = [(''.'', ''.''), (''/usr'', ''usr''), (''/etc/containers'', ''etc/containers'')]"

definition host_RemoveAll :: "hoststate \<Rightarrow> hoststate" where
  "host_RemoveAll s = s\<lparr>hs_dir := (hs_mounts s \<noteq> []),
     hs_lost := hs_lost s @ filter (\<lambda>src. src \<noteq> ''.'') (map fst (hs_mounts s))\<rparr>"

definition umount_all :: "(hcall \<Rightarrow> bool) \<Rightarrow> hoststate \<Rightarrow> hoststate" where
  "umount_all ok s = (if ok UmountAll then s\<lparr>hs_mounts := []\<rparr> else s)"

fun host_mkdirs :: "(hcall \<Rightarrow> bool) \<Rightarrow> string list \<Rightarrow> bool" where
  "host_mkdirs ok [] = True"
| "host_mkdirs ok (sub # subs) = (if ok (MkdirSub sub) then host_mkdirs ok subs else False)"

fun host_mount :: "(hcall \<Rightarrow> bool) \<Rightarrow> (string \<Rightarrow> bool) \<Rightarrow> (string \<times> string) list \<Rightarrow> hoststate \<Rightarrow> hoststate \<times> bool" where
  "host_mount ok present [] s = (s, True)"
| "host_mount ok present ((src, dst) # ms) s =
     (if \<not> present src then host_mount ok present ms s
      else if ok (BindMount src) then host_mount ok present ms (s\<lparr>hs_mounts := hs_mounts s @ [(src, dst)]\<rparr>)
      else (host_RemoveAll (umount_all ok s), False))"

text \<open>\<open>NewHostTree\<close>: the resulting state, and whether there is a tree.\<close>

definition NewHostTree :: "(hcall \<Rightarrow> bool) \<Rightarrow> (string \<Rightarrow> bool) \<Rightarrow> hoststate \<Rightarrow> hoststate \<times> bool" where
  "NewHostTree ok present s =
     (if \<not> ok TempDir then (s, False)
      else let s1 = s\<lparr>hs_dir := True\<rparr> in
        if \<not> host_mkdirs ok host_subs then (host_RemoveAll s1, False)
        else host_mount ok present host_binds s1)"

definition cleanupMounts :: "(hcall \<Rightarrow> bool) \<Rightarrow> hoststate \<Rightarrow> hoststate" where
  "cleanupMounts ok s = umount_all ok s"

text \<open>\<open>Close\<close>; the flag is the test that the root is still set.\<close>

definition HostTree_Close :: "(hcall \<Rightarrow> bool) \<Rightarrow> hoststate \<times> bool \<Rightarrow> hoststate \<times> bool" where
  "HostTree_Close ok h = (case h of (s, root_set) \<Rightarrow>
     if \<not> root_set then (s, False) else (host_RemoveAll (cleanupMounts ok s), False))"

section \<open>What is mounted and what is lost\<close>

text \<open>The bind mounts \<open>NewHostTree\<close> makes, in order, until one fails.\<close>

lemma host_mount_spec:
  "host_mount ok present ms s =
    (if \<forall>(src, dst) \<in> set ms. present src \<longrightarrow> ok (BindMount src)
     then (s\<lparr>hs_mounts := hs_mounts s @ filter (\<lambda>(src, dst). present src) ms\<rparr>, True)
     else (host_RemoveAll (umount_all ok (s\<lparr>hs_mounts := hs_mounts s @ filter (\<lambda>(src, dst). present src)
        (takeWhile (\<lambda>(src, dst). present src \<longrightarrow> ok (BindMount src)) ms)\<rparr>)), False))"
proof (induction ms arbitrary: s)
  case (Cons m ms)
  obtain src dst where m: "m = (src, dst)" by (cases m)
  show ?case
  proof (cases "present src")
    case True
    show ?thesis by (cases "ok (BindMount src)") (simp_all add: m True Cons)
  qed (simp add: m Cons)
qed simp

text \<open>When unmounting works, building a host tree and closing it leaves no mount, no directory and
  an untouched host, whichever other call fails; building it twice over and closing twice is the
  same.\<close>

theorem HostTree_clean:
  assumes "ok UmountAll" "s = \<lparr>hs_dir = False, hs_mounts = [], hs_lost = []\<rparr>"
  shows "HostTree_Close ok (NewHostTree ok present s) = (s, False)
    \<and> HostTree_Close ok (HostTree_Close ok (NewHostTree ok present s)) = (s, False)"
  using assms
  by (simp add: NewHostTree_def host_mount_spec HostTree_Close_def cleanupMounts_def host_RemoveAll_def umount_all_def Let_def
      split: prod.split)

theorem HostTree_clean_witness:
  "HostTree_Close (\<lambda>c. c \<noteq> BindMount ''/etc/containers'')
     (NewHostTree (\<lambda>c. c \<noteq> BindMount ''/etc/containers'') (\<lambda>_. True) \<lparr>hs_dir = False, hs_mounts = [], hs_lost = []\<rparr>)
   = (\<lparr>hs_dir = False, hs_mounts = [], hs_lost = []\<rparr>, False)"
  using HostTree_clean [of "\<lambda>c. c \<noteq> BindMount ''/etc/containers''"] by simp

text \<open>C26: A failed unmount is only logged, and the directory is removed all the same: the contents of
  the host's \<^verbatim>\<open>/usr\<close> and \<^verbatim>\<open>/etc/containers\<close> are deleted through the bind mounts that are still there.\<close>

theorem HostTree_Close_destroys:
  assumes "\<not> ok UmountAll" "\<And>c. c \<noteq> UmountAll \<Longrightarrow> ok c" "hs_lost s = []" "hs_mounts s = []"
  shows "hs_lost (fst (HostTree_Close ok (NewHostTree ok (\<lambda>_. True) s))) = [''/usr'', ''/etc/containers'']"
  using assms
  by (simp add: NewHostTree_def host_mount_spec HostTree_Close_def cleanupMounts_def host_RemoveAll_def umount_all_def Let_def
      host_binds_def host_subs_def)

theorem HostTree_Close_destroys_witness:
  "hs_lost (fst (HostTree_Close (\<lambda>c. c \<noteq> UmountAll)
     (NewHostTree (\<lambda>c. c \<noteq> UmountAll) (\<lambda>_. True) \<lparr>hs_dir = False, hs_mounts = [], hs_lost = []\<rparr>))) = [''/usr'', ''/etc/containers'']"
  by (rule HostTree_Close_destroys) simp_all

end
