(* ===== verification/Size.thy ===== *)
theory Size
  imports GoStrings "HOL-Library.Word"
begin

text \<open>
  \<^verbatim>\<open>store/size.go\<close>: size strings, computed in \<open>int64\<close> (\<open>64 word\<close>, read by \<open>sint\<close>), and the
  space a directory takes. The regular expressions of the table all have the shape
  \<open>^\s*(\d+)\s*UNIT$\<close>, so a pattern is its unit, its base and its power.
\<close>

definition sizePatterns :: "(string \<times> 64 word \<times> nat) list" where
  "sizePatterns =
     [(''kB'', 1000, 1), (''KiB'', 1024, 1), (''MB'', 1000, 2), (''MiB'', 1024, 2),
      (''GB'', 1000, 3), (''GiB'', 1024, 3), (''TB'', 1000, 4), (''TiB'', 1024, 4), ([], 1, 1)]"

definition re_space :: "char \<Rightarrow> bool" where
  "re_space c \<longleftrightarrow> byte c \<in> {9, 10, 12, 13, 32}"

text \<open>The submatch \<open>\d+\<close> when the whole string matches.\<close>

definition match_size :: "string \<Rightarrow> string \<Rightarrow> string option" where
  "match_size unit s =
     (let body = dropWhile re_space s; ds = takeWhile is_digit body;
          rest = dropWhile re_space (dropWhile is_digit body)
      in if ds \<noteq> [] \<and> rest = unit then Some ds else None)"

fun mul_times :: "nat \<Rightarrow> 64 word \<Rightarrow> 64 word \<Rightarrow> 64 word" where
  "mul_times 0 base result = result"
| "mul_times (Suc i) base result = mul_times i base (result * base)"

fun parse_patterns :: "(string \<times> 64 word \<times> nat) list \<Rightarrow> string \<Rightarrow> string + 64 word" where
  "parse_patterns [] s = Inl s"
| "parse_patterns ((unit, base, pow') # ps) s =
     (case match_size unit s of
        None \<Rightarrow> parse_patterns ps s
      | Some m \<Rightarrow> if Atoi_ok m then Inr (mul_times pow' base (word_of_int (Atoi_val m))) else Inl s)"

definition ParseSize :: "string \<Rightarrow> string + 64 word" where
  "ParseSize s = (if TrimSpace s = ''unlimited'' then Inr (- 1) else parse_patterns sizePatterns s)"

section \<open>Disk usage\<close>

text \<open>
  A directory is the list of its entries in the order of a walk, the directory itself first, under
  the empty path.
\<close>

record fnode =
  fn_mtime :: int
  fn_blocks :: int
  fn_data :: string
  fn_locked :: bool

type_synonym dirtree = "(string \<times> fnode) list"

definition calculateSpace :: "dirtree \<Rightarrow> int" where
  "calculateSpace d = fold (\<lambda>(path, n) total. total + fn_blocks n * 512) d 0"

lemma calculateSpace_sum: "calculateSpace d = (\<Sum>(path, n)\<leftarrow>d. fn_blocks n * 512)"
proof -
  have "fold (\<lambda>(path, n) total. total + fn_blocks n * 512) d t = t + (\<Sum>(path, n)\<leftarrow>d. fn_blocks n * 512)" for t
    by (induction d arbitrary: t) (auto simp: case_prod_beta)
  then show ?thesis by (simp add: calculateSpace_def)
qed

section \<open>Correctness of the size parser\<close>

lemma mul_times_power: "mul_times k b r = r * b ^ k"
  by (induction k arbitrary: r) (simp_all add: mult.assoc mult.commute)

lemma space_prefix_digit: "is_digit c \<Longrightarrow> space_prefix (c # cs) = 0"
  by (auto simp: space_prefix_def space_runes_def is_digit_def upt_rec filter_empty_conv)

lemma trim_right_prefix: "\<exists>k. trim_right s = take k s"
proof (induction s rule: trim_right.induct)
  case (1 s)
  show ?case
  proof (cases "space_suffix s = 0 \<or> s = []")
    case True
    then show ?thesis by (subst trim_right.simps) (auto intro: exI [of _ "length s"])
  next
    case False
    then obtain k where "trim_right (take (length s - space_suffix s) s) = take k (take (length s - space_suffix s) s)"
      using 1 by blast
    with False show ?thesis by (subst trim_right.simps) auto
  qed
qed

lemma TrimSpace_digit:
  assumes "is_digit c"
  shows "TrimSpace (c # cs) \<noteq> ''unlimited''"
proof -
  have "trim_left (c # cs) = c # cs"
    using space_prefix_digit [OF assms] by (subst trim_left.simps) simp
  then obtain k where "TrimSpace (c # cs) = take k (c # cs)"
    using trim_right_prefix [of "c # cs"] by (auto simp: TrimSpace_def)
  moreover have "c \<noteq> CHR ''u''" using assms by (auto simp: is_digit_def)
  ultimately show ?thesis by (cases k) auto
qed

lemma match_size_nat_str:
  assumes "unit = [] \<or> \<not> is_digit (hd unit) \<and> \<not> re_space (hd unit)"
  shows "match_size unit' (nat_str n @ unit) = (if unit = unit' then Some (nat_str n) else None)"
proof -
  have digits: "list_all is_digit (nat_str n)" by simp
  obtain c cs where n: "nat_str n = c # cs" using nat_str_not_Nil [of n] by (cases "nat_str n") auto
  have "\<not> re_space c" using digits by (auto simp: n re_space_def is_digit_def)
  then have 1: "dropWhile re_space (nat_str n @ unit) = nat_str n @ unit" by (simp add: n)
  have all: "\<forall>c \<in> set (nat_str n). is_digit c" using digits by (simp add: list_all_iff)
  have tw: "takeWhile is_digit unit = []" "dropWhile is_digit unit = unit" "dropWhile re_space unit = unit"
    using assms by (cases unit; simp)+
  show ?thesis
    using all tw by (auto simp: match_size_def 1 Let_def takeWhile_append2 dropWhile_append2)
qed

lemma parse_patterns_word:
  assumes "unit = [] \<or> \<not> is_digit (hd unit) \<and> \<not> re_space (hd unit)" "int n \<le> max_int64"
    and "(unit, base, pow') \<in> set ps" "distinct (map fst ps)"
  shows "parse_patterns ps (nat_str n @ unit) = Inr (of_nat n * base ^ pow')"
proof -
  have num: "Atoi_ok (nat_str n)" "Atoi_val (nat_str n) = int n"
    using assms(2) by (simp_all add: Atoi_ok_def Atoi_val_def Atoi_parts_nat_str)
  show ?thesis
    using assms(3,4)
  proof (induction ps)
    case (Cons p ps)
    obtain u b k where p: "p = (u, b, k)" by (cases p)
    from Cons show ?case
      by (auto simp: p match_size_nat_str [OF assms(1)] num mul_times_power rev_image_eqI)
  qed simp
qed

lemma ParseSize_word:
  assumes "(unit, base, pow') \<in> set sizePatterns" "int n \<le> max_int64"
  shows "ParseSize (nat_str n @ unit) = Inr (of_nat n * base ^ pow')"
proof -
  obtain c cs where n: "nat_str n = c # cs" using nat_str_not_Nil [of n] by (cases "nat_str n") auto
  have "list_all is_digit (nat_str n)" by simp
  then have "is_digit c" by (simp add: n)
  then have trim: "TrimSpace (nat_str n @ unit) \<noteq> ''unlimited''" by (simp add: n TrimSpace_digit)
  have unit: "unit = [] \<or> \<not> is_digit (hd unit) \<and> \<not> re_space (hd unit)"
    using assms(1) by (auto simp: sizePatterns_def is_digit_def re_space_def)
  have "distinct (map fst sizePatterns)" by (simp add: sizePatterns_def)
  with parse_patterns_word [OF unit assms(2,1)] trim show ?thesis by (simp add: ParseSize_def)
qed

text \<open>A decimal number followed by a unit of the table is read as that number times the unit, in
  64-bit arithmetic: exact when the product fits an \<open>int64\<close>, wrapped around otherwise.\<close>

theorem ParseSize_units:
  assumes "(unit, base, pow') \<in> set sizePatterns" "int n \<le> max_int64"
  shows "ParseSize (nat_str n @ unit) = Inr (of_nat n * base ^ pow')
    \<and> (int n * uint base ^ pow' \<le> max_int64 \<longrightarrow> sint (of_nat n * base ^ pow') = int n * uint base ^ pow')"
proof
  show "ParseSize (nat_str n @ unit) = Inr (of_nat n * base ^ pow')"
    using assms by (rule ParseSize_word)
  show "int n * uint base ^ pow' \<le> max_int64 \<longrightarrow> sint (of_nat n * base ^ pow') = int n * uint base ^ pow'"
  proof
    assume le: "int n * uint base ^ pow' \<le> max_int64"
    have eq: "of_nat n * base ^ pow' = (word_of_int (int n * uint base ^ pow') :: 64 word)"
      by (simp add: word_of_int_power_hom)
    have "0 \<le> int n * uint base ^ pow'" by simp
    then have "- (2 ^ 63) \<le> int n * uint base ^ pow'" by (rule order_trans [rotated]) simp
    with le show "sint (of_nat n * base ^ pow') = int n * uint base ^ pow'"
      unfolding eq sint_sbintrunc' by (subst signed_take_bit_int_eq_self) (simp_all add: max_int64_def)
  qed
qed

theorem ParseSize_units_witness:
  "ParseSize (nat_str 5 @ ''MiB'') = Inr (of_nat 5 * 1024 ^ 2) \<and> sint (of_nat 5 * 1024 ^ 2 :: 64 word) = 5242880"
  using ParseSize_units [of "''MiB''" 1024 2 5] by (simp add: sizePatterns_def max_int64_def)

text \<open>The product is not checked: \<open>16777216TiB\<close> is read as 0, which the store takes for no limit,
  and \<open>8388608TiB\<close> as a negative number, which it takes for unlimited.\<close>

theorem ParseSize_overflow:
  "ParseSize (nat_str 16777216 @ ''TiB'') = Inr 0
   \<and> map_sum id sint (ParseSize (nat_str 8388608 @ ''TiB'')) = Inr (- (2 ^ 63))"
proof -
  have "ParseSize (nat_str n @ ''TiB'') = Inr (of_nat n * 1024 ^ 4)" if "int n \<le> max_int64" for n
    using ParseSize_word [of "''TiB''" 1024 4 n] that by (simp add: sizePatterns_def)
  then show ?thesis by (simp add: max_int64_def)
qed

end
