(* ===== verification/Mtime.thy ===== *)
theory Mtime
  imports Size
begin

text \<open>
  \<^verbatim>\<open>store/mtime.go\<close>: every entry of a tree modified since the object was created gets the source
  epoch as its modification time. Times are in nanoseconds. \<open>ctx i\<close> is the \<open>i\<close>-th poll of
  \<open>ctx.Err()\<close>; setting the time of an entry with \<open>fn_locked\<close> fails with \<open>EPERM\<close>, which the code
  tolerates.
\<close>

definition nanos :: "int \<Rightarrow> int" where
  "nanos seconds = seconds * 1000000000"

definition clamp :: "int \<Rightarrow> int \<Rightarrow> fnode \<Rightarrow> fnode" where
  "clamp createdAt sourceEpoch n =
     (if fn_mtime n < nanos createdAt \<or> fn_locked n then n else n\<lparr>fn_mtime := nanos sourceEpoch\<rparr>)"

fun clamp_walk :: "(nat \<Rightarrow> string option) \<Rightarrow> nat \<Rightarrow> int \<Rightarrow> int \<Rightarrow> dirtree \<Rightarrow> dirtree \<times> string option" where
  "clamp_walk ctx i createdAt sourceEpoch [] = ([], None)"
| "clamp_walk ctx i createdAt sourceEpoch ((path, n) # es) =
     (case ctx i of
        Some e \<Rightarrow> ((path, n) # es, Some e)
      | None \<Rightarrow>
          (let (es', r) = clamp_walk ctx (Suc i) createdAt sourceEpoch es
           in ((path, clamp createdAt sourceEpoch n) # es', r)))"

text \<open>The root is clamped once by itself and once by the walk, which starts with it.\<close>

definition ClampMtime :: "(nat \<Rightarrow> string option) \<Rightarrow> dirtree \<Rightarrow> int \<Rightarrow> int \<Rightarrow> dirtree \<times> string option" where
  "ClampMtime ctx tree createdAt sourceEpoch =
     (case tree of
        [] \<Rightarrow> ([], Some ''lstat'')
      | (path, n) # es \<Rightarrow>
          clamp_walk ctx 0 createdAt sourceEpoch ((path, clamp createdAt sourceEpoch n) # es))"

lemma clamp_clamp [simp]: "clamp c e (clamp c e n) = clamp c e n"
  by (simp add: clamp_def)

lemma clamp_walk_all:
  "(\<And>i. ctx i = None) \<Longrightarrow> clamp_walk ctx i c e es = (map (\<lambda>(p, n). (p, clamp c e n)) es, None)"
  by (induction es arbitrary: i) auto

text \<open>Unless it is cancelled, \<open>ClampMtime\<close> gives every entry modified since the object was created,
  but for the immutable ones, the source epoch, leaves every other entry as it is, and changes no
  name, no content and no size; doing it again changes nothing.\<close>

theorem ClampMtime_reproducible:
  assumes "\<And>i. ctx i = None" "tree \<noteq> []"
  shows "ClampMtime ctx tree c e = (map (\<lambda>(p, n). (p, clamp c e n)) tree, None)
    \<and> ClampMtime ctx (fst (ClampMtime ctx tree c e)) c e = ClampMtime ctx tree c e
    \<and> calculateSpace (fst (ClampMtime ctx tree c e)) = calculateSpace tree"
proof -
  have eq: "ClampMtime ctx t c e = (map (\<lambda>(p, n). (p, clamp c e n)) t, None)" if "t \<noteq> []" for t
    using that assms(1) by (cases t) (auto simp: ClampMtime_def clamp_walk_all)
  have "fn_blocks (clamp c e n) = fn_blocks n" for n by (simp add: clamp_def)
  then have "calculateSpace (map (\<lambda>(p, n). (p, clamp c e n)) tree) = calculateSpace tree"
    by (simp add: calculateSpace_sum case_prod_unfold comp_def)
  then show ?thesis using assms(2) by (auto simp: eq comp_def case_prod_beta)
qed

theorem ClampMtime_reproducible_witness:
  "fst (ClampMtime (\<lambda>_. None) [([], \<lparr>fn_mtime = nanos 7, fn_blocks = 8, fn_data = [], fn_locked = False\<rparr>)] 5 1)
     = [([], \<lparr>fn_mtime = nanos 1, fn_blocks = 8, fn_data = [], fn_locked = False\<rparr>)]"
  using ClampMtime_reproducible [of "\<lambda>_. None" "[([], \<lparr>fn_mtime = nanos 7, fn_blocks = 8, fn_data = [], fn_locked = False\<rparr>)]" 5 1]
  by (simp add: clamp_def nanos_def)

end
