(* ===== verification/Metadata.thy ===== *)
theory Metadata
  imports Jsonutil
begin

text \<open>
  \<^verbatim>\<open>store/metadata.go\<close>: the JSON files in the \<^verbatim>\<open>meta\<close> directory of an object, one per key. A file is
  what decoding it gives. A writer is a temporary file that \<open>Close\<close> links to its final name; the
  stage process may have written to it in between. \<open>ok\<close> says which system calls succeed.
\<close>

datatype mfile = MEmpty | MGarbage | MJson gobject

text \<open>A metadata directory, \<open>None\<close> when it does not exist (any more).\<close>

type_synonym mdir = "(string, mfile) gmap"

datatype meta_error = CreatingMetaDir | CreatingTemp string | SyncFailed | StatFailed
  | Linking string | ReadingMeta string | OpeningMeta string | Encoding

datatype meta_call = MkdirMeta | CreateTempMeta | SyncMeta | StatMeta | LinkMeta | OpenMeta

record mwriter =
  mw_key :: string
  mw_file :: mfile

definition NewMetadata :: "(meta_call \<Rightarrow> bool) \<Rightarrow> mdir option \<Rightarrow> mdir option \<times> meta_error option" where
  "NewMetadata ok d =
     (case d of Some files \<Rightarrow> (d, None)
      | None \<Rightarrow> if ok MkdirMeta then (Some [], None) else (None, Some CreatingMetaDir))"

definition meta_Write :: "(meta_call \<Rightarrow> bool) \<Rightarrow> mdir option \<Rightarrow> string \<Rightarrow> meta_error + mwriter" where
  "meta_Write ok d key =
     (if d = None \<or> \<not> ok CreateTempMeta then Inl (CreatingTemp key)
      else Inr \<lparr>mw_key = key, mw_file = MEmpty\<rparr>)"

text \<open>Linking fails when the final name exists.\<close>

definition mw_Close :: "(meta_call \<Rightarrow> bool) \<Rightarrow> mdir option \<Rightarrow> mwriter \<Rightarrow> mdir option \<times> meta_error option" where
  "mw_Close ok d w =
     (if \<not> ok SyncMeta then (d, Some SyncFailed)
      else if \<not> ok StatMeta then (d, Some StatFailed)
      else if mw_file w = MEmpty then (d, None)
      else case d of
             None \<Rightarrow> (d, Some (Linking (mw_key w)))
           | Some files \<Rightarrow>
               if map_of files (mw_key w) \<noteq> None \<or> \<not> ok LinkMeta then (d, Some (Linking (mw_key w)))
               else (Some (gset (mw_key w) (mw_file w) files), None))"

text \<open>
  \<open>Set\<close> on a nil value does nothing. The error of the deferred \<open>Close\<close> is lost. \<open>encodable\<close> says
  whether the encoder accepts the value.
\<close>

definition meta_Set ::
    "(meta_call \<Rightarrow> bool) \<Rightarrow> bool \<Rightarrow> mdir option \<Rightarrow> string \<Rightarrow> gobject option \<Rightarrow> mdir option \<times> meta_error option" where
  "meta_Set ok encodable d key data =
     (case data of
        None \<Rightarrow> (d, None)
      | Some v \<Rightarrow>
          (case meta_Write ok d key of
             Inl e \<Rightarrow> (d, Some e)
           | Inr w \<Rightarrow>
               if encodable then (fst (mw_Close ok d (w\<lparr>mw_file := MJson v\<rparr>)), None)
               else (fst (mw_Close ok d w), Some Encoding)))"

definition meta_Get :: "(meta_call \<Rightarrow> bool) \<Rightarrow> mdir option \<Rightarrow> string \<Rightarrow> meta_error + gobject option" where
  "meta_Get ok d key =
     (case d of
        None \<Rightarrow> Inr None
      | Some files \<Rightarrow>
          (case map_of files key of
             None \<Rightarrow> Inr None
           | Some f \<Rightarrow>
               if \<not> ok OpenMeta then Inl (OpeningMeta key)
               else (case f of MJson v \<Rightarrow> Inr (Some v) | _ \<Rightarrow> Inl (ReadingMeta key))))"

text \<open>What \<open>Set\<close> stores under a key is what \<open>Get\<close> returns, and other keys keep their value; but
  only the first \<open>Set\<close> of a key counts: a later one returns no error and leaves the old value.\<close>

theorem meta_Set_Get:
  assumes "\<And>c. ok c" "d = Some files"
  shows "meta_Set ok True d key (Some v) = (fst (meta_Set ok True d key (Some v)), None)
    \<and> meta_Get ok (fst (meta_Set ok True d key (Some v))) k =
        (if k = key \<and> map_of files key = None then Inr (Some v) else meta_Get ok d k)"
  using assms
  by (auto simp: meta_Set_def meta_Write_def mw_Close_def meta_Get_def)

theorem meta_Set_Get_witness:
  "meta_Get (\<lambda>_. True) (fst (meta_Set (\<lambda>_. True) True (Some []) ''info'' (Some []))) ''info'' = Inr (Some [])
   \<and> meta_Get (\<lambda>_. True) (fst (meta_Set (\<lambda>_. True) True (Some [(''info'', MJson [(''a'', GNil)])]) ''info'' (Some []))) ''info''
     = Inr (Some [(''a'', GNil)])"
  using meta_Set_Get [of "\<lambda>_. True" "Some []" "[]" "''info''" "[]" "''info''"]
    meta_Set_Get [of "\<lambda>_. True" "Some [(''info'', MJson [(''a'', GNil)])]" "[(''info'', MJson [(''a'', GNil)])]"
      "''info''" "[]" "''info''"]
  by (simp add: meta_Get_def)

end
