(* ===== verification/ObjectStore.thy ===== *)
theory ObjectStore
  imports Mtime Metadata
begin

text \<open>
  \<^verbatim>\<open>store/store.go\<close> and \<^verbatim>\<open>store/object.go\<close>: the object store. The state holds the fields of \<open>Store\<close>,
  the heap of \<open>Object\<close>s (the store and its callers share pointers to them) and the directories of
  the cache: \<open>d_objects\<close> is \<^verbatim>\<open>objects/\<close>, \<open>d_stage\<close> is \<^verbatim>\<open>stage/\<close>, \<open>d_info\<close> and \<open>d_size\<close> are
  \<^verbatim>\<open>cache.info\<close> and \<^verbatim>\<open>cache.size\<close>. System calls that can fail do so as the environment says. Other
  processes do not touch the cache during an operation; what a crash leaves is covered by
  \<open>Commit_trace\<close>. A \<^verbatim>\<open>RemoveAll\<close> of an entry, whose error the code ignores, may fail and leave a part of
  it. Sizes are integers: the sums stay far below \<open>2 ^ 63\<close> on a real disk.
\<close>

section \<open>State\<close>

text \<open>The \<^verbatim>\<open>data\<close> directory of an object: its tree and its metadata.\<close>

record datadir =
  dd_tree :: dirtree
  dd_meta :: "mdir option"

text \<open>A directory below \<^verbatim>\<open>objects/\<close>: access time of the lock file, data, size in \<^verbatim>\<open>object.info\<close>.\<close>

record objdir =
  od_lock :: "int option"
  od_data :: "datadir option"
  od_info :: "int option"

datatype info_file = InfoMissing | InfoUnreadable | InfoGarbage | InfoNull | InfoObject gobject

datatype object_mode = ModeRead | ModeWrite

datatype data_path = InStage string | InObjects string

record object =
  ob_id :: string
  ob_mode :: object_mode
  ob_path :: data_path
  ob_stagePath :: "string option"
  ob_meta :: data_path
  ob_SourceEpoch :: "int option"

record sstore =
  s_objs :: "(string, nat) gmap"
  s_readOnly :: bool
  s_maximumSize :: int
  s_hostTree :: bool
  s_locked :: bool
  s_heap :: "nat \<Rightarrow> object"
  s_next :: nat
  d_objects :: "(string, objdir) gmap"
  d_stage :: "(string, datadir) gmap"
  d_info :: info_file
  d_size :: "int option"
  s_now :: int

datatype scall = MkdirRoot | WriteInfo | WriteSize | OpenLock | FlockShared | StatData
  | MkdirStage | WriteStageLock | MkdirObject | MkdirData | WriteObjectLock | CopyData | WriteObjectInfo
  | RemoveEntry | OpenSize | LockSize | ReadObjects | CopyBase | CopyOut | MountHost

text \<open>
  The environment of a call: which system calls succeed, the polls of the context, the listing
  of a data directory that \<open>calculateSpace\<close> walks, and what a failed \<^verbatim>\<open>RemoveAll\<close> leaves of an entry.
\<close>

record senv =
  e_ok :: "scall \<Rightarrow> bool"
  e_meta :: "meta_call \<Rightarrow> bool"
  e_ctx :: "nat \<Rightarrow> string option"
  e_walk :: "datadir \<Rightarrow> dirtree"
  e_left :: "objdir \<Rightarrow> objdir"

datatype serror = ReadOnly | NotReadOnly | SysError scall | MetaError meta_error | NotWritable
  | NoInfoMeta | NoCreated | BadCreated | ClampError string | CopyFailed | PanicNilMap

definition data_at :: "sstore \<Rightarrow> data_path \<Rightarrow> datadir option" where
  "data_at st p = (case p of
     InStage u \<Rightarrow> map_of (d_stage st) u
   | InObjects i \<Rightarrow> (case map_of (d_objects st) i of None \<Rightarrow> None | Some od \<Rightarrow> od_data od))"

definition set_data :: "data_path \<Rightarrow> datadir \<Rightarrow> sstore \<Rightarrow> sstore" where
  "set_data p d st = (case p of
     InStage u \<Rightarrow> st\<lparr>d_stage := gset u d (d_stage st)\<rparr>
   | InObjects i \<Rightarrow> (case map_of (d_objects st) i of
        None \<Rightarrow> st
      | Some od \<Rightarrow> st\<lparr>d_objects := gset i (od\<lparr>od_data := Some d\<rparr>) (d_objects st)\<rparr>))"

definition meta_at :: "sstore \<Rightarrow> data_path \<Rightarrow> mdir option" where
  "meta_at st p = (case data_at st p of None \<Rightarrow> None | Some d \<Rightarrow> dd_meta d)"

text \<open>An entry made, and one removed as far as the system lets it.\<close>

definition put_object :: "string \<Rightarrow> objdir \<Rightarrow> sstore \<Rightarrow> sstore" where
  "put_object i od st = st\<lparr>d_objects := gset i od (d_objects st)\<rparr>"

definition remove_entry :: "senv \<Rightarrow> string \<Rightarrow> sstore \<Rightarrow> sstore" where
  "remove_entry E i st =
     (case map_of (d_objects st) i of
        None \<Rightarrow> st
      | Some od \<Rightarrow>
          if e_ok E RemoveEntry then st\<lparr>d_objects := gdel i (d_objects st)\<rparr>
          else put_object i (e_left E od) st)"

definition empty_objdir :: objdir where
  "empty_objdir = \<lparr>od_lock = None, od_data = None, od_info = None\<rparr>"

definition alloc :: "object \<Rightarrow> sstore \<Rightarrow> sstore \<times> nat" where
  "alloc ob st = (st\<lparr>s_heap := (s_heap st)(s_next st := ob), s_next := Suc (s_next st)\<rparr>, s_next st)"

section \<open>Objects\<close>

definition Created :: "senv \<Rightarrow> sstore \<Rightarrow> object \<Rightarrow> serror + int" where
  "Created E st ob =
     (case meta_Get (e_meta E) (meta_at st (ob_meta ob)) ''info'' of
        Inl e \<Rightarrow> Inl (MetaError e)
      | Inr None \<Rightarrow> Inl NoInfoMeta
      | Inr (Some info) \<Rightarrow>
          (case map_of info ''created'' of
             None \<Rightarrow> Inl NoCreated
           | Some (GFloat f) \<Rightarrow> Inr (float_to_int f)
           | Some (GNumber n) \<Rightarrow> if Atoi_ok n then Inr (Atoi_val n) else Inl BadCreated
           | Some _ \<Rightarrow> Inl BadCreated))"

text \<open>\<open>Object.ClampMtime\<close>, on the tree in the object's data directory.\<close>

definition clamp_object :: "senv \<Rightarrow> sstore \<Rightarrow> object \<Rightarrow> sstore \<times> serror option" where
  "clamp_object E st ob =
     (case ob_SourceEpoch ob of
        None \<Rightarrow> (st, None)
      | Some epoch \<Rightarrow>
          (case Created E st ob of
             Inl e \<Rightarrow> (st, Some e)
           | Inr created \<Rightarrow>
               (case data_at st (ob_path ob) of
                  None \<Rightarrow> (st, Some (ClampError ''lstat''))
                | Some d \<Rightarrow>
                    (let (tree, err) = ClampMtime (e_ctx E) (dd_tree d) created epoch
                     in (set_data (ob_path ob) (d\<lparr>dd_tree := tree\<rparr>) st, map_option ClampError err)))))"

text \<open>\<open>cp -a base/. o/\<close>: what is in both comes from the base.\<close>

definition overlay :: "('k, 'v) gmap \<Rightarrow> ('k, 'v) gmap \<Rightarrow> ('k, 'v) gmap" where
  "overlay old new = fold (\<lambda>(k, v) m. gset k v m) new old"

definition overlay_data :: "datadir \<Rightarrow> datadir \<Rightarrow> datadir" where
  "overlay_data old new = \<lparr>dd_tree = overlay (dd_tree old) (dd_tree new),
     dd_meta = (case dd_meta new of None \<Rightarrow> dd_meta old
       | Some files \<Rightarrow> Some (overlay (case dd_meta old of None \<Rightarrow> [] | Some fs \<Rightarrow> fs) files))\<rparr>"

definition Object_Init :: "senv \<Rightarrow> sstore \<Rightarrow> nat \<Rightarrow> nat \<Rightarrow> sstore \<times> serror option" where
  "Object_Init E st a base =
     (let ob = s_heap st a in
      if ob_mode ob \<noteq> ModeWrite then (st, Some NotWritable)
      else case (data_at st (ob_path ob), data_at st (ob_path (s_heap st base))) of
             (Some d, Some b) \<Rightarrow>
               if e_ok E CopyBase then (set_data (ob_path ob) (overlay_data d b) st, None)
               else (st, Some (SysError CopyBase))
           | _ \<Rightarrow> (st, Some CopyFailed))"

definition Object_Finalize :: "senv \<Rightarrow> sstore \<Rightarrow> nat \<Rightarrow> sstore \<times> serror option" where
  "Object_Finalize E st a =
     (let ob = s_heap st a in
      if ob_mode ob \<noteq> ModeWrite then (st, None)
      else case clamp_object E st ob of
             (st1, Some e) \<Rightarrow> (st1, Some e)
           | (st1, None) \<Rightarrow> (st1\<lparr>s_heap := (s_heap st1)(a := ob\<lparr>ob_mode := ModeRead\<rparr>)\<rparr>, None))"

text \<open>
  \<open>Export\<close> copies the tree over what is in the target directory. The environment variable that keeps
  \<^verbatim>\<open>cp\<close> from preserving owners changes nothing that is in a \<open>dirtree\<close>, which has no owners.
\<close>

definition Object_Export :: "senv \<Rightarrow> sstore \<Rightarrow> nat \<Rightarrow> dirtree \<Rightarrow> serror + dirtree" where
  "Object_Export E st a toDir =
     (case data_at st (ob_path (s_heap st a)) of
        None \<Rightarrow> Inl CopyFailed
      | Some d \<Rightarrow> if e_ok E CopyOut then Inr (overlay toDir (dd_tree d)) else Inl (SysError CopyOut))"

definition Object_Close :: "nat \<Rightarrow> sstore \<Rightarrow> sstore" where
  "Object_Close a st =
     (let ob = s_heap st a in
      case ob_stagePath ob of
        Some u \<Rightarrow> if ob_mode ob = ModeWrite then st\<lparr>d_stage := gdel u (d_stage st)\<rparr> else st
      | None \<Rightarrow> st)"

section \<open>The cache size\<close>

definition updateCacheSize :: "senv \<Rightarrow> sstore \<Rightarrow> int \<Rightarrow> sstore \<times> bool" where
  "updateCacheSize E st diff =
     (if \<not> e_ok E OpenSize \<or> \<not> e_ok E LockSize then (st, True)
      else
        let size = (case d_size st of None \<Rightarrow> 0 | Some n \<Rightarrow> n); newSize = max 0 (size + diff) in
        if diff > 0 \<and> s_maximumSize st > 0 \<and> newSize > s_maximumSize st then (st, False)
        else (st\<lparr>d_size := Some newSize\<rparr>, True))"

definition object_size :: "senv \<Rightarrow> objdir \<Rightarrow> int" where
  "object_size E od =
     (let size = (case od_data od of None \<Rightarrow> 0 | Some d \<Rightarrow> calculateSpace (e_walk E d)) in
      if size = 0 then (case od_info od of None \<Rightarrow> 0 | Some n \<Rightarrow> n) else size)"

text \<open>The objects with a lock file, least recently used first.\<close>

definition lru_order :: "sstore \<Rightarrow> (string \<times> int) list" where
  "lru_order st = sort_key snd
     (concat (map (\<lambda>(name, od). case od_lock od of None \<Rightarrow> [] | Some t \<Rightarrow> [(name, t)])
       (sort_key fst (d_objects st))))"

fun evict :: "senv \<Rightarrow> (string \<times> int) list \<Rightarrow> int \<Rightarrow> int \<Rightarrow> sstore \<Rightarrow> sstore \<times> int" where
  "evict E [] tryToFree freed st = (st, freed)"
| "evict E ((name, lastUsed) # objs) tryToFree freed st =
     (if map_of (s_objs st) name \<noteq> None then evict E objs tryToFree freed st
      else case map_of (d_objects st) name of
        None \<Rightarrow> evict E objs tryToFree freed st
      | Some od \<Rightarrow>
          if od_lock od \<noteq> Some lastUsed then evict E objs tryToFree freed st
          else
            let size = object_size E od;
                st1 = fst (updateCacheSize E (remove_entry E name st) (- size));
                freed1 = freed + size
            in if freed1 \<ge> tryToFree then (st1, freed1) else evict E objs tryToFree freed1 st1)"

definition removeLRU :: "senv \<Rightarrow> sstore \<Rightarrow> int \<Rightarrow> sstore \<times> bool" where
  "removeLRU E st requiredSize =
     (if \<not> e_ok E ReadObjects then (st, False)
      else let (st1, freed) = evict E (lru_order st) (requiredSize * 2) 0 st
           in (st1, freed \<ge> requiredSize))"

section \<open>Store operations\<close>

definition Contains :: "sstore \<Rightarrow> string \<Rightarrow> bool" where
  "Contains st id' =
     (if id' = [] then False
      else if map_of (s_objs st) id' \<noteq> None then True
      else case map_of (d_objects st) id' of None \<Rightarrow> False | Some od \<Rightarrow> od_lock od \<noteq> None)"

definition Get :: "senv \<Rightarrow> sstore \<Rightarrow> string \<Rightarrow> sstore \<times> (serror + nat option)" where
  "Get E st id' =
     (case map_of (s_objs st) id' of
        Some a \<Rightarrow> (st, Inr (Some a))
      | None \<Rightarrow>
          (case map_of (d_objects st) id' of
             None \<Rightarrow> (st, Inr None)
           | Some od \<Rightarrow>
               (case od_data od of
                  None \<Rightarrow> (st, Inr None)
                | Some d \<Rightarrow>
                    if \<not> e_ok E StatData then (st, Inl (SysError StatData))
                    else
                      let od1 = od\<lparr>od_lock := map_option (\<lambda>_. s_now st) (od_lock od)\<rparr>;
                          (m, err) = NewMetadata (e_meta E) (dd_meta d);
                          st1 = st\<lparr>d_objects := gset id' (od1\<lparr>od_data := Some (d\<lparr>dd_meta := m\<rparr>)\<rparr>) (d_objects st)\<rparr>
                      in case err of
                           Some e \<Rightarrow> (st1, Inl (MetaError e))
                         | None \<Rightarrow>
                             (let (st2, a) = alloc \<lparr>ob_id = id', ob_mode = ModeRead, ob_path = InObjects id',
                                     ob_stagePath = None, ob_meta = InObjects id', ob_SourceEpoch = None\<rparr> st1
                              in (st2, Inr (Some a))))))"

text \<open>\<open>uuid\<close> is what \<open>newUUID\<close> draws.\<close>

definition New_object :: "senv \<Rightarrow> sstore \<Rightarrow> string \<Rightarrow> string \<Rightarrow> sstore \<times> (serror + nat)" where
  "New_object E st uuid id' =
     (if s_readOnly st then (st, Inl ReadOnly)
      else if \<not> e_ok E MkdirStage then (st, Inl (SysError MkdirStage))
      else if \<not> e_ok E WriteStageLock then (st, Inl (SysError WriteStageLock))
      else
        case NewMetadata (e_meta E) None of
          (_, Some e) \<Rightarrow> (st, Inl (MetaError e))
        | (m, None) \<Rightarrow>
            (case meta_Set (e_meta E) True m ''info'' (Some [(''created'', GFloat (FFin (of_int (s_now st))))]) of
               (_, Some e) \<Rightarrow> (st, Inl (MetaError e))
             | (m1, None) \<Rightarrow>
                 (let root = ([], \<lparr>fn_mtime = nanos (s_now st), fn_blocks = 0, fn_data = [], fn_locked = False\<rparr>);
                      st1 = st\<lparr>d_stage := gset uuid \<lparr>dd_tree = [root], dd_meta = m1\<rparr> (d_stage st)\<rparr>;
                      (st2, a) = alloc \<lparr>ob_id = id', ob_mode = ModeWrite, ob_path = InStage uuid,
                          ob_stagePath = Some uuid, ob_meta = InStage uuid, ob_SourceEpoch = None\<rparr> st1
                  in (st2\<lparr>s_objs := gset id' a (s_objs st2)\<rparr>, Inr a))))"

text \<open>
  \<open>Commit\<close> in its stages. \<open>commit_start\<close> is up to the copy: the lock file exists before the data
  does. \<open>commit_finish\<close> is what follows once \<^verbatim>\<open>object.info\<close> is written. The directory of an empty ID
  is \<^verbatim>\<open>objects/\<close> itself, which is always there.
\<close>

definition commit_place :: "sstore \<Rightarrow> nat \<Rightarrow> string \<Rightarrow> sstore" where
  "commit_place st a objectID =
     (let ob = s_heap st a;
          st1 = (case ob_stagePath ob of None \<Rightarrow> st | Some u \<Rightarrow> st\<lparr>d_stage := gdel u (d_stage st)\<rparr>)
      in st1\<lparr>s_heap := (s_heap st1)(a := ob\<lparr>ob_stagePath := None, ob_path := InObjects objectID,
                                            ob_mode := ModeRead\<rparr>)\<rparr>)"

definition commit_account :: "senv \<Rightarrow> sstore \<Rightarrow> int \<Rightarrow> sstore" where
  "commit_account E st objSize =
     (let (st1, fits) = updateCacheSize E st objSize
      in if fits then st1
         else let (st2, freed) = removeLRU E st1 objSize;
                  (st3, fits') = updateCacheSize E st2 objSize
              in st3)"

definition commit_finish :: "senv \<Rightarrow> sstore \<Rightarrow> nat \<Rightarrow> string \<Rightarrow> int \<Rightarrow> sstore" where
  "commit_finish E st a objectID objSize = commit_account E (commit_place st a objectID) objSize"

definition Commit :: "senv \<Rightarrow> sstore \<Rightarrow> nat \<Rightarrow> string \<Rightarrow> sstore \<times> serror option" where
  "Commit E st a objectID =
     (if s_readOnly st then (st, Some ReadOnly)
      else
        let st0 = fst (clamp_object E st (s_heap st a)) in
        if objectID = [] \<or> map_of (d_objects st0) objectID \<noteq> None then (st0, None)
        else if \<not> e_ok E MkdirObject then (st0, Some (SysError MkdirObject))
        else if \<not> e_ok E WriteObjectLock 
          then (remove_entry E objectID (put_object objectID empty_objdir st0), Some (SysError WriteObjectLock))
        else
          let od = empty_objdir\<lparr>od_lock := Some (s_now st)\<rparr>; st1 = put_object objectID od st0 in
          case data_at st1 (ob_path (s_heap st a)) of
            None \<Rightarrow> (remove_entry E objectID st1, Some CopyFailed)
          | Some d \<Rightarrow>
              if \<not> e_ok E CopyData then (remove_entry E objectID st1, Some (SysError CopyData))
              else
                let objSize = calculateSpace (e_walk E d) in
                if \<not> e_ok E WriteObjectInfo then (remove_entry E objectID st1, Some (SysError WriteObjectInfo))
                else
                  let st2 = put_object objectID (od\<lparr>od_data := Some d, od_info := Some objSize\<rparr>) st1
                  in (commit_finish E st2 a objectID objSize, None))"

text \<open>
  \<open>ObjectFromDict\<close> makes the metadata directory of the path it is given, and every directory above it
  that is missing; it does so in the cache, too. \<open>Store_LoadFloating\<close> is \<open>LoadFloating\<close> for IDs and
  paths already taken from the dictionaries (\<open>ObjectFromDict\<close> of \<^verbatim>\<open>Floating\<close>), all of them readable.
\<close>

definition make_data :: "senv \<Rightarrow> data_path \<Rightarrow> sstore \<Rightarrow> sstore" where
  "make_data E p st =
     (case p of
        InStage u \<Rightarrow>
          if map_of (d_stage st) u = None \<and> e_ok E MkdirStage
          then st\<lparr>d_stage := gset u \<lparr>dd_tree = [], dd_meta = None\<rparr> (d_stage st)\<rparr> else st
      | InObjects i \<Rightarrow>
          (let st1 = (if map_of (d_objects st) i = None \<and> e_ok E MkdirObject then put_object i empty_objdir st else st) in
           case map_of (d_objects st1) i of
             None \<Rightarrow> st1
           | Some od \<Rightarrow>
               if od_data od = None \<and> e_ok E MkdirData
               then put_object i (od\<lparr>od_data := Some \<lparr>dd_tree = [], dd_meta = None\<rparr>\<rparr>) st1 else st1))"

definition make_meta :: "senv \<Rightarrow> data_path \<Rightarrow> sstore \<Rightarrow> sstore \<times> meta_error option" where
  "make_meta E p st =
     (let st1 = make_data E p st in
      case data_at st1 p of
        None \<Rightarrow> (st1, Some CreatingMetaDir)
      | Some d \<Rightarrow> (case NewMetadata (e_meta E) (dd_meta d) of (m, err) \<Rightarrow> (set_data p (d\<lparr>dd_meta := m\<rparr>) st1, err)))"

fun load_objects :: "senv \<Rightarrow> (string \<times> data_path) list \<Rightarrow> sstore \<Rightarrow> sstore \<times> serror option" where
  "load_objects E [] st = (st, None)"
| "load_objects E ((i, p) # fs) st =
     (case make_meta E p st of
        (st1, Some e) \<Rightarrow> (st1, Some (MetaError e))
      | (st1, None) \<Rightarrow>
          (let (st2, a) = alloc \<lparr>ob_id = i, ob_mode = ModeRead, ob_path = p, ob_stagePath = None,
                 ob_meta = p, ob_SourceEpoch = None\<rparr> st1
           in load_objects E fs (st2\<lparr>s_objs := gset i a (s_objs st2)\<rparr>)))"

definition Store_LoadFloating :: "senv \<Rightarrow> (string \<times> data_path) list \<Rightarrow> sstore \<Rightarrow> sstore \<times> serror option" where
  "Store_LoadFloating E fs st =
     (if \<not> s_readOnly st then (st, Some NotReadOnly) else load_objects E fs (st\<lparr>s_objs := []\<rparr>))"

text \<open>
  What a crash can leave of a \<open>Commit\<close> whose calls all succeed: the disk after each of its steps
  (the copy taken as one step).
\<close>

definition Commit_trace :: "senv \<Rightarrow> sstore \<Rightarrow> nat \<Rightarrow> string \<Rightarrow> sstore list" where
  "Commit_trace E st a objectID =
     (let st0 = fst (clamp_object E st (s_heap st a));
          od1 = empty_objdir\<lparr>od_lock := Some (s_now st)\<rparr>
      in case data_at st0 (ob_path (s_heap st a)) of
           None \<Rightarrow> [st, st0]
         | Some d \<Rightarrow>
             [st, st0, put_object objectID empty_objdir st0, put_object objectID od1 st0,
              put_object objectID (od1\<lparr>od_data := Some d\<rparr>) st0,
              put_object objectID (od1\<lparr>od_data := Some d, od_info := Some (calculateSpace (e_walk E d))\<rparr>) st0])"

section \<open>The maximum size\<close>

text \<open>Decoding a JSON number gives the nearest \<open>float64\<close>, ties to even.\<close>

fun bit_length :: "nat \<Rightarrow> nat" where
  "bit_length n = (if n = 0 then 0 else Suc (bit_length (n div 2)))"

declare bit_length.simps [simp del]

definition to_float64 :: "int \<Rightarrow> int" where
  "to_float64 i =
     (let m = nat \<bar>i\<bar>; e = bit_length m - 53; q = m div 2 ^ e; r = m mod 2 ^ e;
          q' = (if 2 * r > 2 ^ e \<or> (2 * r = 2 ^ e \<and> odd q) then Suc q else q)
      in sgn i * int (q' * 2 ^ e))"

definition SetMaximumSize :: "senv \<Rightarrow> sstore \<Rightarrow> int \<Rightarrow> sstore \<times> serror option" where
  "SetMaximumSize E st maxSize =
     (let st1 = st\<lparr>s_maximumSize := maxSize\<rparr> in
      if d_info st1 \<in> {InfoMissing, InfoUnreadable} then (st1, Some (SysError WriteInfo))
      else if d_info st1 = InfoNull \<and> maxSize \<noteq> 0 then (st1, Some PanicNilMap)
      else
        let info = (case d_info st1 of InfoObject o' \<Rightarrow> o' | InfoNull \<Rightarrow> []
              | _ \<Rightarrow> [(''version'', GFloat (FFin 1))]);
            info1 = (if maxSize < 0 then gset ''maximum-size'' (GString ''unlimited'') info
                     else if maxSize = 0 then gdel ''maximum-size'' info
                     else gset ''maximum-size'' (GFloat (FFin (of_int (to_float64 maxSize)))) info)
        in if e_ok E WriteInfo
           then (st1\<lparr>d_info := (if d_info st1 = InfoNull then InfoNull else InfoObject info1)\<rparr>, None)
           else (st1, Some (SysError WriteInfo)))"

definition maximum_of_info :: "info_file \<Rightarrow> int" where
  "maximum_of_info f =
     (case f of
        InfoObject info \<Rightarrow>
          (case map_of info ''maximum-size'' of
             Some (GFloat v) \<Rightarrow> float_to_int v
           | Some (GString v) \<Rightarrow> if v = ''unlimited'' then - 1 else 0
           | _ \<Rightarrow> 0)
      | _ \<Rightarrow> 0)"

text \<open>\<open>Open\<close> starts from the directories a previous process left.\<close>

definition Open :: "senv \<Rightarrow> sstore \<Rightarrow> bool \<Rightarrow> serror + sstore" where
  "Open E disk readOnly =
     (if \<not> e_ok E MkdirRoot then Inl (SysError MkdirRoot)
      else
        let maximumSize = maximum_of_info (d_info disk) in
        if d_info disk = InfoMissing \<and> \<not> e_ok E WriteInfo then Inl (SysError WriteInfo)
        else if d_size disk = None \<and> \<not> e_ok E WriteSize then Inl (SysError WriteSize)
        else if \<not> e_ok E OpenLock then Inl (SysError OpenLock)
        else if \<not> e_ok E FlockShared then Inl (SysError FlockShared)
        else Inr (disk\<lparr>
          d_info := (if d_info disk = InfoMissing then InfoObject [(''version'', GFloat (FFin 1))] else d_info disk),
          d_size := (if d_size disk = None then Some 0 else d_size disk),
          s_objs := [], s_readOnly := readOnly, s_maximumSize := maximumSize, s_hostTree := False,
          s_locked := True\<rparr>))"

definition GetHostTree :: "senv \<Rightarrow> sstore \<Rightarrow> sstore \<times> serror option" where
  "GetHostTree E st =
     (if s_hostTree st then (st, None)
      else if e_ok E MountHost then (st\<lparr>s_hostTree := True\<rparr>, None)
      else (st, Some (SysError MountHost)))"

definition Close :: "sstore \<Rightarrow> sstore" where
  "Close st = (fold (\<lambda>(i, a) st. Object_Close a st) (s_objs st) (st\<lparr>s_hostTree := False\<rparr>))
     \<lparr>s_objs := [], s_locked := False\<rparr>"

end
