(* ===== verification/StoreFacts.thy ===== *)
theory StoreFacts
  imports ObjectStore
begin

text \<open>
  What the object store of \<open>ObjectStore\<close> guarantees: complete entries, eviction in order of use,
  the size limit, lookups after commits; and what it does not: a committed object that was just
  evicted, a commit cut short by a crash, stage directories left behind.
\<close>

section \<open>A store\<close>

text \<open>
  The store the examples run on: a limit of 1024 bytes, a cached object of 512 bytes used at
  time 5, and an object being built that will take 1024.
\<close>

definition demo_data :: "int \<Rightarrow> datadir" where
  "demo_data b = \<lparr>dd_tree = [([], \<lparr>fn_mtime = 0, fn_blocks = b, fn_data = [], fn_locked = False\<rparr>)],
     dd_meta = Some []\<rparr>"

definition demo_env :: senv where
  "demo_env = \<lparr>e_ok = \<lambda>_. True, e_meta = \<lambda>_. True, e_ctx = \<lambda>_. None, e_walk = dd_tree, e_left = id\<rparr>"

definition demo_entry :: objdir where
  "demo_entry = \<lparr>od_lock = Some 5, od_data = Some (demo_data 1), od_info = Some 512\<rparr>"

definition demo_store :: sstore where
  "demo_store = \<lparr>s_objs = [(''p'', 0)], s_readOnly = False, s_maximumSize = 1024, s_hostTree = False,
     s_locked = True,
     s_heap = (\<lambda>_. \<lparr>ob_id = ''p'', ob_mode = ModeWrite, ob_path = InStage ''u'', ob_stagePath = Some ''u'',
       ob_meta = InStage ''u'', ob_SourceEpoch = None\<rparr>),
     s_next = 1, d_objects = [(''a'', demo_entry)], d_stage = [(''u'', demo_data 2)],
     d_info = InfoObject [], d_size = Some 512, s_now = 9\<rparr>"

lemmas demo_defs = demo_data_def demo_env_def demo_entry_def demo_store_def

lemma demo_clamp [simp]: "clamp_object E demo_store (s_heap demo_store a) = (demo_store, None)"
  by (simp add: clamp_object_def demo_store_def)

lemma demo_space [simp]: "calculateSpace (e_walk demo_env (demo_data b)) = b * 512"
  by (simp add: demo_env_def demo_data_def calculateSpace_def)

section \<open>Frames\<close>

text \<open>What \<open>updateCacheSize\<close> and the clamping of an object leave alone.\<close>

lemma updateCacheSize_frame [simp]:
  "d_objects (fst (updateCacheSize E st n)) = d_objects st" "s_objs (fst (updateCacheSize E st n)) = s_objs st"
  "d_stage (fst (updateCacheSize E st n)) = d_stage st" "s_heap (fst (updateCacheSize E st n)) = s_heap st"
  "s_next (fst (updateCacheSize E st n)) = s_next st" "d_info (fst (updateCacheSize E st n)) = d_info st"
  "s_maximumSize (fst (updateCacheSize E st n)) = s_maximumSize st" "s_readOnly (fst (updateCacheSize E st n)) = s_readOnly st"
  by (simp_all add: updateCacheSize_def Let_def)

lemma put_object_frame [simp]:
  "s_objs (put_object i od st) = s_objs st" "s_heap (put_object i od st) = s_heap st" "s_next (put_object i od st) = s_next st"
  "s_maximumSize (put_object i od st) = s_maximumSize st" "d_size (put_object i od st) = d_size st"
  "d_stage (put_object i od st) = d_stage st" "s_readOnly (put_object i od st) = s_readOnly st"
  "s_now (put_object i od st) = s_now st"
  "map_of (d_objects (put_object i od st)) = (map_of (d_objects st))(i \<mapsto> od)"
  by (simp_all add: put_object_def)

lemma remove_entry_frame [simp]:
  "s_objs (remove_entry E i st) = s_objs st" "s_heap (remove_entry E i st) = s_heap st" "s_next (remove_entry E i st) = s_next st"
  "s_maximumSize (remove_entry E i st) = s_maximumSize st" "d_size (remove_entry E i st) = d_size st"
  "d_stage (remove_entry E i st) = d_stage st" "s_readOnly (remove_entry E i st) = s_readOnly st"
  "s_now (remove_entry E i st) = s_now st"
  "j \<noteq> i \<Longrightarrow> map_of (d_objects (remove_entry E i st)) j = map_of (d_objects st) j"
  by (auto simp: remove_entry_def put_object_def split: option.split)

lemma map_of_remove_entry: "e_ok E RemoveEntry \<Longrightarrow> map_of (d_objects (remove_entry E i st)) = (map_of (d_objects st))(i := None)"
  by (auto simp: remove_entry_def fun_upd_idem split: option.split)

lemma gmap_ok_remove_entry [simp]: "gmap_ok (d_objects st) \<Longrightarrow> gmap_ok (d_objects (remove_entry E i st))"
  by (auto simp: remove_entry_def put_object_def split: option.split)

definition same_shape :: "objdir \<Rightarrow> objdir \<Rightarrow> bool" where
  "same_shape a b \<longleftrightarrow> (od_lock a = None \<longleftrightarrow> od_lock b = None) \<and> (od_data a = None \<longleftrightarrow> od_data b = None)
     \<and> (od_info a = None \<longleftrightarrow> od_info b = None)"

definition entry_ok :: "objdir \<Rightarrow> bool" where
  "entry_ok od \<longleftrightarrow> od_lock od \<noteq> None \<and> od_data od \<noteq> None \<and> od_info od \<noteq> None"

text \<open>The invariant of the cache: every entry has its lock file, its data and its info file.\<close>

definition store_inv :: "sstore \<Rightarrow> bool" where
  "store_inv st \<longleftrightarrow> gmap_ok (d_objects st) \<and> gmap_ok (s_objs st)
     \<and> (\<forall>i od. map_of (d_objects st) i = Some od \<longrightarrow> entry_ok od)
     \<and> (\<forall>i a. map_of (s_objs st) i = Some a \<longrightarrow> a < s_next st \<and> ob_id (s_heap st a) = i)"

lemma store_inv_put:
  "store_inv st \<Longrightarrow> entry_ok od \<Longrightarrow> store_inv (st\<lparr>d_objects := gset i od (d_objects st)\<rparr>)"
  by (auto simp: store_inv_def)

lemma store_inv_remove: "store_inv st \<Longrightarrow> e_ok E RemoveEntry \<Longrightarrow> store_inv (remove_entry E i st)"
  by (auto simp: store_inv_def map_of_remove_entry split: if_splits)

lemma store_inv_cong:
  "store_inv st \<Longrightarrow> d_objects st' = d_objects st \<Longrightarrow> s_objs st' = s_objs st \<Longrightarrow> s_heap st' = s_heap st \<Longrightarrow>
   s_next st' = s_next st \<Longrightarrow> store_inv st'"
  by (simp add: store_inv_def)

lemma store_inv_updateCacheSize: "store_inv st \<Longrightarrow> store_inv (fst (updateCacheSize E st n))"
  by (erule store_inv_cong) simp_all

lemma store_inv_set_data: "store_inv st \<Longrightarrow> store_inv (set_data p d st)"
proof (cases p)
  case (InObjects i)
  assume inv: "store_inv st"
  show ?thesis
  proof (cases "map_of (d_objects st) i")
    case (Some od)
    with inv have "entry_ok (od\<lparr>od_data := Some d\<rparr>)" by (simp add: store_inv_def entry_ok_def)
    with Some InObjects inv show ?thesis by (simp add: set_data_def store_inv_put)
  qed (use InObjects inv in \<open>simp add: set_data_def\<close>)
qed (simp add: set_data_def store_inv_def)

lemma set_data_frame [simp]:
  "s_objs (set_data p d st) = s_objs st" "s_heap (set_data p d st) = s_heap st" "s_next (set_data p d st) = s_next st"
  "s_maximumSize (set_data p d st) = s_maximumSize st" "d_size (set_data p d st) = d_size st"
  "s_readOnly (set_data p d st) = s_readOnly st" "s_now (set_data p d st) = s_now st"
  "map_of (d_objects (set_data p d st)) i = None \<longleftrightarrow> map_of (d_objects st) i = None"
  by (auto simp: set_data_def split: data_path.split option.split)

lemma clamp_object_cases:
  obtains "fst (clamp_object E st ob) = st" | d where "fst (clamp_object E st ob) = set_data (ob_path ob) d st"
proof -
  have "fst (clamp_object E st ob) = st \<or> (\<exists>d. fst (clamp_object E st ob) = set_data (ob_path ob) d st)"
    by (auto simp: clamp_object_def case_prod_beta Let_def split: option.split sum.split)
  then show ?thesis using that by blast
qed

lemma store_inv_clamp: "store_inv st \<Longrightarrow> store_inv (fst (clamp_object E st ob))"
  by (rule clamp_object_cases [of E st ob]) (simp_all add: store_inv_set_data)

lemma clamp_object_frame [simp]:
  "s_objs (fst (clamp_object E st ob)) = s_objs st" "s_heap (fst (clamp_object E st ob)) = s_heap st"
  "s_next (fst (clamp_object E st ob)) = s_next st" "d_size (fst (clamp_object E st ob)) = d_size st"
  "s_maximumSize (fst (clamp_object E st ob)) = s_maximumSize st" "s_now (fst (clamp_object E st ob)) = s_now st"
  "s_readOnly (fst (clamp_object E st ob)) = s_readOnly st"
  "map_of (d_objects (fst (clamp_object E st ob))) i = None \<longleftrightarrow> map_of (d_objects st) i = None"
  by (rule clamp_object_cases [of E st ob]; simp)+

section \<open>Eviction\<close>

text \<open>The candidates for eviction: not in use, least recently used first.\<close>

definition candidates :: "sstore \<Rightarrow> (string \<times> int) list" where
  "candidates st = filter (\<lambda>(n, t). map_of (s_objs st) n = None) (lru_order st)"

text \<open>The candidates evicted to free \<open>lim\<close> bytes: as many as it takes, or all.\<close>

fun victims :: "('a \<Rightarrow> int) \<Rightarrow> int \<Rightarrow> int \<Rightarrow> 'a list \<Rightarrow> 'a list" where
  "victims sz limit freed [] = []"
| "victims sz limit freed (x # xs) =
     (if freed + sz x \<ge> limit then [x] else x # victims sz limit (freed + sz x) xs)"

definition size_of :: "senv \<Rightarrow> sstore \<Rightarrow> string \<times> int \<Rightarrow> int" where
  "size_of E st e = (case map_of (d_objects st) (fst e) of None \<Rightarrow> 0 | Some od \<Rightarrow> object_size E od)"

definition evict_one :: "senv \<Rightarrow> string \<times> int \<Rightarrow> sstore \<Rightarrow> sstore" where
  "evict_one E e st =
     fst (updateCacheSize E (remove_entry E (fst e) st) (- size_of E st e))"

lemma lru_order_filter:
  "lru_order st = sort_key snd (map (\<lambda>(n, od). (n, the (od_lock od)))
     (filter (\<lambda>(n, od). od_lock od \<noteq> None) (sort_key fst (d_objects st))))"
proof -
  have "concat (map (\<lambda>(name, od). case od_lock od of None \<Rightarrow> [] | Some t \<Rightarrow> [(name, t)]) xs)
      = map (\<lambda>(n, od). (n, the (od_lock od))) (filter (\<lambda>(n, od). od_lock od \<noteq> None) xs)" for xs :: "(string \<times> objdir) list"
    by (induction xs) (auto split: option.splits)
  then show ?thesis by (simp add: lru_order_def)
qed

lemma set_lru_order:
  assumes "gmap_ok (d_objects st)"
  shows "(n, t) \<in> set (lru_order st) \<longleftrightarrow> (\<exists>od. map_of (d_objects st) n = Some od \<and> od_lock od = Some t)"
  using assms by (force simp: lru_order_filter gmap_ok_def)

lemma distinct_lru_order:
  assumes "gmap_ok (d_objects st)"
  shows "distinct (map fst (lru_order st))"
proof -
  let ?xs = "filter (\<lambda>(n, od). od_lock od \<noteq> None) (sort_key fst (d_objects st))"
  let ?ys = "map (\<lambda>(n, od). (n, the (od_lock od))) ?xs"
  have "mset (map fst (sort_key fst (d_objects st))) = mset (gkeys (d_objects st))" by simp
  then have "distinct (map fst (sort_key fst (d_objects st)))"
    using assms unfolding gmap_ok_def by (metis mset_eq_imp_distinct_iff)
  then have "distinct (map fst ?xs)" by (rule distinct_map_filter)
  moreover have "map fst ?ys = map fst ?xs" by (simp add: case_prod_unfold comp_def)
  moreover have "mset (map fst (sort_key snd ?ys)) = mset (map fst ?ys)"
    by (simp only: mset_map mset_sort)
  ultimately show ?thesis
    unfolding lru_order_filter by (metis mset_eq_imp_distinct_iff)
qed

lemma evict_eq:
  assumes "distinct (map fst objs)"
    and "\<And>n t. (n, t) \<in> set objs \<Longrightarrow> \<exists>od. map_of (d_objects st) n = Some od \<and> od_lock od = Some t"
    and "\<And>e. e \<in> set objs \<Longrightarrow> sz e = size_of E st e"
  shows "evict E objs limit freed st =
    (let vs = victims sz limit freed (filter (\<lambda>(n, t). map_of (s_objs st) n = None) objs)
     in (fold (evict_one E) vs st, freed + sum_list (map sz vs)))"
  using assms
proof (induction objs arbitrary: st freed)
  case (Cons o' objs)
  obtain n t where o: "o' = (n, t)" by (cases o')
  obtain od where od: "map_of (d_objects st) n = Some od" "od_lock od = Some t"
    using Cons.prems(2) [of n t] by (auto simp: o)
  show ?case
  proof (cases "map_of (s_objs st) n")
    case None
    let ?st1 = "evict_one E o' st"
    have sz: "sz o' = object_size E od" using Cons.prems(3) [of o'] od by (simp add: o size_of_def)
    have st1: "?st1 = fst (updateCacheSize E (remove_entry E n st) (- object_size E od))"
      using od by (simp add: evict_one_def o size_of_def)
    have frame: "s_objs ?st1 = s_objs st" "d_objects ?st1 = d_objects (remove_entry E n st)"
      by (simp_all add: st1)
    have other: "map_of (d_objects ?st1) (fst e) = map_of (d_objects st) (fst e)" if "e \<in> set objs" for e
    proof -
      have "fst e \<noteq> n" using that Cons.prems(1) by (auto simp: o rev_image_eqI)
      then show ?thesis by (simp add: frame)
    qed
    have IH: "evict E objs limit freed' ?st1 =
       (let vs = victims sz limit freed' (filter (\<lambda>(n, t). map_of (s_objs st) n = None) objs)
        in (fold (evict_one E) vs ?st1, freed' + sum_list (map sz vs)))" for freed'
    proof -
      have "sz e = size_of E ?st1 e" if "e \<in> set objs" for e
        using Cons.prems(3) [of e] other [OF that] that by (simp add: size_of_def)
      moreover have "\<exists>od. map_of (d_objects ?st1) m = Some od \<and> od_lock od = Some u" if "(m, u) \<in> set objs" for m u
        using Cons.prems(2) [of m u] other [OF that] that by simp
      ultimately show ?thesis
        using Cons.IH [of ?st1 freed'] Cons.prems(1) by (simp add: frame(1))
    qed
    show ?thesis
    proof (cases "freed + sz o' \<ge> limit")
      case True
      then show ?thesis using None od sz by (simp add: o Let_def st1 [unfolded o])
    next
      case False
      then show ?thesis
        using None od sz IH [of "freed + sz o'"] by (simp add: o Let_def st1 [unfolded o])
    qed
  next
    case (Some a)
    then show ?thesis using Cons by (simp add: o)
  qed
qed simp

lemma evict_one_frame [simp]:
  "s_objs (evict_one E e st) = s_objs st" "d_stage (evict_one E e st) = d_stage st"
  "s_heap (evict_one E e st) = s_heap st" "s_next (evict_one E e st) = s_next st"
  "d_objects (evict_one E e st) = d_objects (remove_entry E (fst e) st)"
  "s_maximumSize (evict_one E e st) = s_maximumSize st"
  "s_readOnly (evict_one E e st) = s_readOnly st"
  by (simp_all add: evict_one_def)

lemma fold_evict_one_frame [simp]:
  "s_objs (fold (evict_one E) vs st) = s_objs st" "d_stage (fold (evict_one E) vs st) = d_stage st"
  "s_heap (fold (evict_one E) vs st) = s_heap st" "s_next (fold (evict_one E) vs st) = s_next st"
  "s_maximumSize (fold (evict_one E) vs st) = s_maximumSize st"
  "s_readOnly (fold (evict_one E) vs st) = s_readOnly st"
  by (induction vs arbitrary: st) simp_all

lemma map_of_fold_evict:
  "e_ok E RemoveEntry \<Longrightarrow>
   map_of (d_objects (fold (evict_one E) vs st)) i = (if i \<in> fst ` set vs then None else map_of (d_objects st) i)"
  by (induction vs arbitrary: st) (auto simp: map_of_remove_entry)

lemma victims_prefix:
  "\<exists>k \<le> length xs. victims sz limit freed xs = take k xs
     \<and> (k < length xs \<longrightarrow> freed + sum_list (map sz (take k xs)) \<ge> limit)
     \<and> (\<forall>j. 0 < j \<and> j < k \<longrightarrow> freed + sum_list (map sz (take j xs)) < limit)"
proof (induction xs arbitrary: freed)
  case (Cons x xs)
  show ?case
  proof (cases "freed + sz x \<ge> limit")
    case True
    then show ?thesis by (intro exI [of _ 1]) auto
  next
    case False
    obtain k where k: "k \<le> length xs" "victims sz limit (freed + sz x) xs = take k xs"
      "k < length xs \<longrightarrow> freed + sz x + sum_list (map sz (take k xs)) \<ge> limit"
      "\<forall>j. 0 < j \<and> j < k \<longrightarrow> freed + sz x + sum_list (map sz (take j xs)) < limit"
      using Cons [of "freed + sz x"] by blast
    show ?thesis
    proof (intro exI [of _ "Suc k"] conjI allI impI)
      fix j assume "0 < j \<and> j < Suc k"
      then obtain i where i: "j = Suc i" "i < k" by (cases j) auto
      then show "freed + sum_list (map sz (take j (x # xs))) < limit"
        using k(4) False by (cases "i = 0") (auto simp: add.assoc)
    qed (use k False in \<open>auto simp: add.assoc\<close>)
  qed
qed simp

lemma removeLRU_eq:
  assumes "gmap_ok (d_objects st)" "e_ok E ReadObjects"
  shows "removeLRU E st n =
    (let vs = victims (size_of E st) (n * 2) 0 (candidates st)
     in (fold (evict_one E) vs st, sum_list (map (size_of E st) vs) \<ge> n))"
proof -
  have "evict E (lru_order st) (n * 2) 0 st =
      (let vs = victims (size_of E st) (n * 2) 0 (candidates st)
       in (fold (evict_one E) vs st, 0 + sum_list (map (size_of E st) vs)))"
    unfolding candidates_def
    by (rule evict_eq) (use assms(1) in \<open>simp_all add: distinct_lru_order set_lru_order\<close>)
  then show ?thesis using assms(2) by (simp add: removeLRU_def Let_def)
qed

text \<open>C20: Eviction removes the least recently used entries that no in-memory object is named after, one
  after the other, and stops as soon as twice the required space is free; every other entry stays
  as it is, and so do all objects and stage directories. It succeeds exactly when it freed the
  space required. (The directories of the entries can be read and removed.)\<close>

theorem removeLRU_spec:
  assumes "gmap_ok (d_objects st)" "e_ok E ReadObjects" "e_ok E RemoveEntry"
  shows "\<exists>k \<le> length (candidates st). let vs = take k (candidates st);
      freed = (\<lambda>j. sum_list (map (size_of E st) (take j (candidates st)))); (st', r) = removeLRU E st n in
    map_of (d_objects st') = (\<lambda>i. if i \<in> fst ` set vs then None else map_of (d_objects st) i)
    \<and> s_objs st' = s_objs st \<and> s_heap st' = s_heap st \<and> d_stage st' = d_stage st
    \<and> (k < length (candidates st) \<longrightarrow> freed k \<ge> n * 2)
    \<and> (\<forall>j. 0 < j \<and> j < k \<longrightarrow> freed j < n * 2)
    \<and> (r \<longleftrightarrow> freed k \<ge> n)
    \<and> sorted (map snd (candidates st))
    \<and> set (map fst (candidates st)) = {i. (\<exists>od. map_of (d_objects st) i = Some od \<and> od_lock od \<noteq> None) \<and> map_of (s_objs st) i = None}"
proof -
  obtain k where k: "k \<le> length (candidates st)"
    "victims (size_of E st) (n * 2) 0 (candidates st) = take k (candidates st)"
    "k < length (candidates st) \<longrightarrow> sum_list (map (size_of E st) (take k (candidates st))) \<ge> n * 2"
    "\<forall>j. 0 < j \<and> j < k \<longrightarrow> sum_list (map (size_of E st) (take j (candidates st))) < n * 2"
    using victims_prefix [of "candidates st" "size_of E st" "n * 2" 0] by auto
  have "sorted (map snd (lru_order st))" by (simp add: lru_order_def)
  then have "sorted (map snd (candidates st))" by (simp add: candidates_def sorted_filter)
  moreover have "set (map fst (candidates st)) = {i. (\<exists>od. map_of (d_objects st) i = Some od \<and> od_lock od \<noteq> None) \<and> map_of (s_objs st) i = None}"
    using set_lru_order [OF assms(1)] by (force simp: candidates_def)
  ultimately show ?thesis
    using k by (intro exI [of _ k]) (simp add: removeLRU_eq [OF assms(1,2)] Let_def map_of_fold_evict [OF assms(3)] fun_eq_iff)
qed

theorem removeLRU_spec_witness:
  "map_of (d_objects (fst (removeLRU demo_env demo_store 100))) ''a'' = None"
proof -
  have ok: "gmap_ok (d_objects demo_store)" "e_ok demo_env ReadObjects" "e_ok demo_env RemoveEntry" by (simp_all add: demo_defs gmap_ok_def)
  have c: "candidates demo_store = [(''a'', 5)]"
    by (simp add: candidates_def lru_order_def demo_store_def demo_entry_def)
  have s: "size_of demo_env demo_store (''a'', 5) = 512"
    by (simp add: size_of_def object_size_def demo_store_def demo_entry_def)
  obtain k where k: "k < length [(''a'', 5::int)] \<longrightarrow>
      sum_list (map (size_of demo_env demo_store) (take k [(''a'', 5)])) \<ge> 100 * 2"
    "map_of (d_objects (fst (removeLRU demo_env demo_store 100)))
       = (\<lambda>i. if i \<in> fst ` set (take k [(''a'', 5::int)]) then None else map_of (d_objects demo_store) i)"
    using removeLRU_spec [OF ok, of 100] unfolding c case_prod_beta Let_def by blast
  then have "k \<noteq> 0" by (intro notI) simp
  with k(2) show ?thesis by (cases k) simp_all
qed

section \<open>The invariant\<close>

lemma store_inv_fold_evict: "store_inv st \<Longrightarrow> e_ok E RemoveEntry \<Longrightarrow> store_inv (fold (evict_one E) vs st)"
proof (induction vs arbitrary: st)
  case (Cons e vs)
  have "store_inv (evict_one E e st)"
    unfolding evict_one_def using Cons.prems by (intro store_inv_updateCacheSize store_inv_remove)
  with Cons.IH Cons.prems(2) show ?case by simp
qed simp

lemma store_inv_removeLRU: "store_inv st \<Longrightarrow> e_ok E RemoveEntry \<Longrightarrow> store_inv (fst (removeLRU E st n))"
proof (cases "e_ok E ReadObjects")
  case True
  assume inv: "store_inv st" "e_ok E RemoveEntry"
  from inv(1) have "gmap_ok (d_objects st)" by (simp add: store_inv_def)
  with True inv show ?thesis by (simp add: removeLRU_eq Let_def store_inv_fold_evict)
qed (simp add: removeLRU_def)

lemma store_inv_heap:
  "store_inv st \<Longrightarrow> ob_id ob = ob_id (s_heap st a) \<Longrightarrow> store_inv (st\<lparr>s_heap := (s_heap st)(a := ob)\<rparr>)"
  by (auto simp: store_inv_def)

lemma store_inv_stage: "store_inv st \<Longrightarrow> store_inv (st\<lparr>d_stage := x\<rparr>)"
  by (simp add: store_inv_def)

lemma commit_place_frame [simp]:
  "d_objects (commit_place st a i) = d_objects st" "s_objs (commit_place st a i) = s_objs st"
  "d_size (commit_place st a i) = d_size st" "s_maximumSize (commit_place st a i) = s_maximumSize st"
  "s_next (commit_place st a i) = s_next st"
  "s_heap (commit_place st a i) = (s_heap st)(a := (s_heap st a)\<lparr>ob_stagePath := None,
      ob_path := InObjects i, ob_mode := ModeRead\<rparr>)"
  by (auto simp: commit_place_def Let_def split: option.split)

lemma store_inv_commit_finish: "store_inv st \<Longrightarrow> e_ok E RemoveEntry \<Longrightarrow> store_inv (commit_finish E st a i n)"
proof -
  assume inv: "store_inv st" and rm: "e_ok E RemoveEntry"
  have "store_inv (commit_place st a i)"
    using store_inv_heap [OF inv, of "(s_heap st a)\<lparr>ob_stagePath := None, ob_path := InObjects i, ob_mode := ModeRead\<rparr>" a]
    by (simp add: store_inv_def)
  then show ?thesis
    unfolding commit_finish_def commit_account_def Let_def case_prod_beta
    by (auto intro: store_inv_updateCacheSize store_inv_removeLRU rm)
qed

lemma remove_put [simp]:
  "e_ok E RemoveEntry \<Longrightarrow> map_of (d_objects (remove_entry E i (put_object i od st))) = (map_of (d_objects st))(i := None)"
  by (simp add: map_of_remove_entry)

lemma store_inv_Commit:
  assumes "store_inv st" "e_ok E RemoveEntry"
  shows "store_inv (fst (Commit E st a i))"
proof -
  define st0 where "st0 = fst (clamp_object E st (s_heap st a))"
  have inv: "store_inv st0" unfolding st0_def using assms(1) by (rule store_inv_clamp)
  have drop: "store_inv (remove_entry E i (put_object i od st0))" if "map_of (d_objects st0) i = None" for od
    using inv assms(2) that by (auto simp: store_inv_def) (auto simp: put_object_def)
  have "store_inv (commit_finish E (put_object i od2 (put_object i od1 st0)) a i n)" if "entry_ok od2" for od1 od2 n
  proof (rule store_inv_commit_finish)
    show "store_inv (put_object i od2 (put_object i od1 st0))"
      using inv that by (auto simp: store_inv_def put_object_def)
  qed (rule assms(2))
  with drop inv assms show ?thesis
    by (auto simp: Commit_def Let_def st0_def [symmetric] entry_ok_def split: option.split)
qed

lemma store_inv_alloc: "store_inv st \<Longrightarrow> store_inv (fst (alloc ob st))"
proof -
  assume inv: "store_inv st"
  have "a < s_next st" "ob_id (s_heap st a) = i" if "map_of (s_objs st) i = Some a" for i a
    using inv that by (simp_all add: store_inv_def)
  then have "a < Suc (s_next st) \<and> ob_id (((s_heap st)(s_next st := ob)) a) = i" if "map_of (s_objs st) i = Some a" for i a
    using that by (metis fun_upd_other less_Suc_eq less_irrefl)
  with inv show ?thesis by (simp add: store_inv_def alloc_def)
qed

lemma store_inv_Get:
  assumes "store_inv st"
  shows "store_inv (fst (Get E st i))"
proof (cases "map_of (s_objs st) i")
  case None
  show ?thesis
  proof (cases "map_of (d_objects st) i")
    case (Some od)
    then have od: "entry_ok od" using assms by (simp add: store_inv_def)
    then obtain d where d: "od_data od = Some d" by (auto simp: entry_ok_def)
    have touched: "store_inv (st\<lparr>d_objects := gset i (od\<lparr>od_lock := map_option (\<lambda>_. s_now st) (od_lock od),
        od_data := Some d'\<rparr>) (d_objects st)\<rparr>)" for d'
      using od assms by (intro store_inv_put) (auto simp: entry_ok_def)
    show ?thesis
      using None Some d assms touched store_inv_alloc [OF touched]
      by (simp add: Get_def Let_def case_prod_beta split: option.split)
  qed (use None assms in \<open>simp add: Get_def\<close>)
qed (use assms in \<open>simp add: Get_def\<close>)

lemma store_inv_New:
  assumes "store_inv st"
  shows "store_inv (fst (New_object E st u i))"
proof -
  have "store_inv (st\<lparr>d_stage := x, s_heap := (s_heap st)(s_next st := ob), s_next := Suc (s_next st),
      s_objs := gset i (s_next st) (s_objs st)\<rparr>)" if "ob_id ob = i" for x ob
    using assms that by (auto simp: store_inv_def less_Suc_eq)
  with assms show ?thesis
    by (auto simp: New_object_def Let_def alloc_def split: prod.split option.split)
qed

lemma store_inv_objects:
  assumes "store_inv st"
  shows "store_inv (fst (Object_Init E st a b))" "store_inv (fst (Object_Finalize E st a))"
    "store_inv (Object_Close a st)"
proof -
  show "store_inv (fst (Object_Init E st a b))"
    using assms by (auto simp: Object_Init_def Let_def store_inv_set_data split: option.split)
  have "store_inv (fst (clamp_object E st (s_heap st a)))" using assms by (rule store_inv_clamp)
  moreover obtain st1 e where st1: "clamp_object E st (s_heap st a) = (st1, e)" by fastforce
  moreover have "s_heap st1 = s_heap st" using st1 by (metis clamp_object_frame(2) fst_conv)
  ultimately show "store_inv (fst (Object_Finalize E st a))"
    using assms store_inv_heap [of st1 "(s_heap st a)\<lparr>ob_mode := ModeRead\<rparr>" a]
    by (auto simp: Object_Finalize_def Let_def split: option.split)
  show "store_inv (Object_Close a st)"
    using assms by (auto simp: Object_Close_def Let_def store_inv_stage split: option.split)
qed

lemma Object_Close_frame [simp]:
  "d_objects (Object_Close a st) = d_objects st" "s_objs (Object_Close a st) = s_objs st"
  "s_heap (Object_Close a st) = s_heap st" "s_next (Object_Close a st) = s_next st"
  "s_readOnly (Object_Close a st) = s_readOnly st"
  by (auto simp: Object_Close_def Let_def split: option.split)

lemma fold_Object_Close_frame [simp]:
  "d_objects (fold (\<lambda>(i, a) st. Object_Close a st) xs st) = d_objects st"
  "s_heap (fold (\<lambda>(i, a) st. Object_Close a st) xs st) = s_heap st"
  "s_next (fold (\<lambda>(i, a) st. Object_Close a st) xs st) = s_next st"
  by (induction xs arbitrary: st) (auto simp: case_prod_beta)

lemma store_inv_Close: "store_inv st \<Longrightarrow> store_inv (Close st)"
  by (simp add: Close_def store_inv_def)

text \<open>
  A step of the store: one operation, in any environment, or one of the things a build does to an
  object it is writing: set its source epoch, change its data. The objects passed are ones the
  store has handed out; a UUID is not drawn twice; what a commit removes can be removed.
\<close>

inductive store_step :: "sstore \<Rightarrow> sstore \<Rightarrow> bool" where
  commit: "a < s_next st \<Longrightarrow> e_ok E RemoveEntry \<Longrightarrow> store_step st (fst (Commit E st a i))"
| get: "store_step st (fst (Get E st i))"
| new: "\<forall>b < s_next st. ob_meta (s_heap st b) \<noteq> InStage u \<Longrightarrow> store_step st (fst (New_object E st u i))"
| epoch: "a < s_next st \<Longrightarrow> ob_mode (s_heap st a) = ModeWrite \<Longrightarrow>
    store_step st (st\<lparr>s_heap := (s_heap st)(a := (s_heap st a)\<lparr>ob_SourceEpoch := e\<rparr>)\<rparr>)"
| writeData: "a < s_next st \<Longrightarrow> ob_mode (s_heap st a) = ModeWrite \<Longrightarrow> data_at st (ob_path (s_heap st a)) \<noteq> None \<Longrightarrow>
    store_step st (set_data (ob_path (s_heap st a)) d st)"
| init: "a < s_next st \<Longrightarrow> b < s_next st \<Longrightarrow> store_step st (fst (Object_Init E st a b))"
| finalize: "a < s_next st \<Longrightarrow> store_step st (fst (Object_Finalize E st a))"
| closeObject: "a < s_next st \<Longrightarrow> store_step st (Object_Close a st)"
| setMaximum: "store_step st (fst (SetMaximumSize E st n))"
| hostTree: "store_step st (fst (GetHostTree E st))"
| shut: "store_step st (Close st)"
| load: "store_step st (fst (Store_LoadFloating E fs st))"
| tick: "store_step st (st\<lparr>s_now := t\<rparr>)"

inductive_cases store_stepE: "store_step st st'"

lemma set_data_readOnly [simp]: "s_readOnly (set_data p d st) = s_readOnly st"
  by simp

lemma load_readWrite: "\<not> s_readOnly st \<Longrightarrow> Store_LoadFloating E fs st = (st, Some NotReadOnly)"
  by (simp add: Store_LoadFloating_def)

lemma store_step_inv: "store_step st st' \<Longrightarrow> \<not> s_readOnly st \<Longrightarrow> store_inv st \<Longrightarrow> store_inv st'"
proof (induction rule: store_step.induct)
  case (setMaximum st E n)
  then show ?case by (simp add: SetMaximumSize_def Let_def store_inv_def)
next
  case (hostTree st E)
  then show ?case by (simp add: GetHostTree_def store_inv_def)
next
  case (tick st t)
  then show ?case by (simp add: store_inv_def)
qed (simp_all add: store_inv_Commit store_inv_Get store_inv_New store_inv_objects store_inv_Close
    store_inv_heap store_inv_set_data load_readWrite)

text \<open>
  In a store opened read-only \<open>LoadFloating\<close> can make a directory for data that is not there: an entry
  with neither a lock file nor an info file.
\<close>

definition bare :: "objdir \<Rightarrow> bool" where
  "bare od \<longleftrightarrow> od_lock od = None \<and> od_info od = None"

definition ro_inv :: "sstore \<Rightarrow> bool" where
  "ro_inv st \<longleftrightarrow> gmap_ok (d_objects st) \<and> gmap_ok (s_objs st)
     \<and> (\<forall>i od. map_of (d_objects st) i = Some od \<longrightarrow> entry_ok od \<or> bare od)
     \<and> (\<forall>i a. map_of (s_objs st) i = Some a \<longrightarrow> a < s_next st \<and> ob_id (s_heap st a) = i)"

lemma store_inv_ro: "store_inv st \<Longrightarrow> ro_inv st"
  by (simp add: store_inv_def ro_inv_def)

lemma ro_inv_put: "ro_inv st \<Longrightarrow> entry_ok od \<or> bare od \<Longrightarrow> ro_inv (put_object i od st)"
  by (auto simp: ro_inv_def put_object_def)

lemma entry_shape:
  "entry_ok od \<or> bare od \<Longrightarrow> entry_ok (od\<lparr>od_data := Some d\<rparr>) \<or> bare (od\<lparr>od_data := Some d\<rparr>)"
  "entry_ok od \<or> bare od \<Longrightarrow> entry_ok (od\<lparr>od_lock := map_option f (od_lock od), od_data := Some d\<rparr>)
     \<or> bare (od\<lparr>od_lock := map_option f (od_lock od), od_data := Some d\<rparr>)"
  by (auto simp: entry_ok_def bare_def)

lemma ro_inv_set_data: "ro_inv st \<Longrightarrow> ro_inv (set_data p d st)"
proof (cases p)
  case (InObjects i)
  assume inv: "ro_inv st"
  show ?thesis
  proof (cases "map_of (d_objects st) i")
    case (Some od)
    with inv have "entry_ok od \<or> bare od" by (simp add: ro_inv_def)
    then have "ro_inv (put_object i (od\<lparr>od_data := Some d\<rparr>) st)" by (intro ro_inv_put inv entry_shape)
    with Some InObjects show ?thesis by (simp add: set_data_def put_object_def)
  qed (use InObjects inv in \<open>simp add: set_data_def\<close>)
qed (simp add: set_data_def ro_inv_def)

lemma ro_inv_heap: "ro_inv st \<Longrightarrow> ob_id ob = ob_id (s_heap st a) \<Longrightarrow> ro_inv (st\<lparr>s_heap := (s_heap st)(a := ob)\<rparr>)"
  by (auto simp: ro_inv_def)

lemma ro_inv_same:
  "ro_inv st \<Longrightarrow> d_objects st' = d_objects st \<Longrightarrow> s_objs st' = s_objs st \<Longrightarrow> s_heap st' = s_heap st \<Longrightarrow>
   s_next st' = s_next st \<Longrightarrow> ro_inv st'"
  by (simp add: ro_inv_def)

lemma ro_inv_alloc:
  assumes "ro_inv st"
  shows "ro_inv (fst (alloc ob st))"
proof -
  have "a < Suc (s_next st) \<and> ob_id (((s_heap st)(s_next st := ob)) a) = i" if "map_of (s_objs st) i = Some a" for i a
  proof -
    have "a < s_next st" "ob_id (s_heap st a) = i" using assms that by (simp_all add: ro_inv_def)
    then show ?thesis by simp
  qed
  with assms show ?thesis by (simp add: ro_inv_def alloc_def)
qed

lemma ro_inv_Get:
  assumes "ro_inv st"
  shows "ro_inv (fst (Get E st i))"
proof (cases "map_of (d_objects st) i")
  case (Some od)
  have touched: "ro_inv (put_object i (od\<lparr>od_lock := map_option (\<lambda>_. s_now st) (od_lock od), od_data := Some d\<rparr>) st)" for d
    using assms Some by (intro ro_inv_put entry_shape) (simp_all add: ro_inv_def)
  show ?thesis
    using assms touched ro_inv_alloc [OF touched] Some
    by (auto simp: Get_def Let_def case_prod_beta put_object_def split: option.split)
qed (use assms in \<open>simp add: Get_def split: option.split\<close>)

lemma ro_inv_make_meta:
  assumes "ro_inv st"
  shows "ro_inv (fst (make_meta E p st))"
proof -
  have data: "ro_inv (make_data E p st)"
  proof (cases p)
    case (InObjects i)
    define st1 where "st1 = (if map_of (d_objects st) i = None \<and> e_ok E MkdirObject then put_object i empty_objdir st else st)"
    have "ro_inv st1"
      unfolding st1_def using assms by (auto intro!: ro_inv_put simp: bare_def empty_objdir_def)
    then have "ro_inv (put_object i (od\<lparr>od_data := Some d\<rparr>) st1)" if "map_of (d_objects st1) i = Some od" for od d
      using that by (intro ro_inv_put entry_shape) (simp_all add: ro_inv_def)
    with \<open>ro_inv st1\<close> InObjects show ?thesis
      by (auto simp: make_data_def Let_def st1_def [symmetric] split: option.split)
  qed (use assms in \<open>simp add: make_data_def ro_inv_def\<close>)
  then show ?thesis
    by (auto simp: make_meta_def Let_def case_prod_beta ro_inv_set_data split: option.split)
qed

lemma ro_inv_load_objects: "ro_inv st \<Longrightarrow> ro_inv (fst (load_objects E fs st))"
proof (induction E fs st rule: load_objects.induct)
  case (2 E i p fs st)
  obtain st1 e where m: "make_meta E p st = (st1, e)" by fastforce
  have 1: "ro_inv st1" using ro_inv_make_meta [OF 2(2), of E p] m by simp
  have "ro_inv (st1\<lparr>s_heap := (s_heap st1)(s_next st1 := ob), s_next := Suc (s_next st1), s_objs := gset i (s_next st1) (s_objs st1)\<rparr>)"
    if "ob_id ob = i" for ob
    using 1 that by (auto simp: ro_inv_def less_Suc_eq)
  with m 1 2(1) show ?case by (auto simp: alloc_def Let_def split: option.split)
qed simp

lemma ro_inv_objects:
  assumes "ro_inv st"
  shows "ro_inv (fst (Object_Init E st a b))" "ro_inv (fst (Object_Finalize E st a))"
proof -
  show "ro_inv (fst (Object_Init E st a b))"
    using assms by (auto simp: Object_Init_def Let_def ro_inv_set_data split: option.split)
  obtain st1 e where st1: "clamp_object E st (s_heap st a) = (st1, e)" by fastforce
  have "ro_inv st1"
    using assms st1 by (cases rule: clamp_object_cases [of E st "s_heap st a"]) (simp_all add: ro_inv_set_data)
  moreover have "s_heap st1 = s_heap st" using st1 by (metis clamp_object_frame(2) fst_conv)
  ultimately show "ro_inv (fst (Object_Finalize E st a))"
    using assms st1 ro_inv_heap [of st1 "(s_heap st a)\<lparr>ob_mode := ModeRead\<rparr>" a]
    by (auto simp: Object_Finalize_def Let_def split: option.split)
qed

lemma load_readOnly [simp]: "s_readOnly (fst (Store_LoadFloating E fs st)) = s_readOnly st"
proof -
  have "s_readOnly (fst (load_objects E fs st)) = s_readOnly st" for st
  proof (induction E fs st rule: load_objects.induct)
    case (2 E i p fs st)
    have "s_readOnly (make_data E p st) = s_readOnly st" for st
      by (auto simp: make_data_def Let_def split: data_path.split option.split)
    then have "s_readOnly (fst (make_meta E p st)) = s_readOnly st"
      by (auto simp: make_meta_def Let_def case_prod_beta split: option.split)
    with 2 show ?case by (auto simp: alloc_def Let_def split: prod.split option.split)
  qed simp
  then show ?thesis by (simp add: Store_LoadFloating_def)
qed

lemma store_step_readOnly: "store_step st st' \<Longrightarrow> s_readOnly st' = s_readOnly st"
proof (induction rule: store_step.induct)
  case (commit a st E i)
  have "s_readOnly (commit_finish E st a i n) = s_readOnly st" for st n
  proof -
    have ev: "s_readOnly (fst (evict E objs n freed st)) = s_readOnly st" for objs n freed st
      by (induction E objs n freed st rule: evict.induct) (auto simp: Let_def split: option.split)
    have "s_readOnly (commit_place st a i) = s_readOnly st" by (auto simp: commit_place_def Let_def split: option.split)
    then show ?thesis by (simp add: commit_finish_def commit_account_def removeLRU_def Let_def case_prod_beta ev)
  qed
  then show ?case by (auto simp: Commit_def Let_def split: option.split)
next
  case (get st E i)
  show ?case by (auto simp: Get_def Let_def alloc_def case_prod_beta split: option.split)
next
  case (new st u E i)
  show ?case by (auto simp: New_object_def Let_def alloc_def split: prod.split option.split)
next
  case (init a st b E)
  show ?case by (auto simp: Object_Init_def Let_def split: option.split)
next
  case (finalize a st E)
  obtain st1 e where st1: "clamp_object E st (s_heap st a) = (st1, e)" by fastforce
  then have "s_readOnly st1 = s_readOnly st" using clamp_object_frame(7) [of E st "s_heap st a"] by simp
  with st1 show ?case by (simp add: Object_Finalize_def Let_def split: option.split)
next
  case (shut st)
  have "s_readOnly (fold (\<lambda>(i, a) st. Object_Close a st) xs st) = s_readOnly st" for xs :: "(string \<times> nat) list" and st
    by (induction xs arbitrary: st) (auto simp: case_prod_beta)
  then show ?case by (simp add: Close_def)
qed (simp_all add: SetMaximumSize_def GetHostTree_def Let_def)

lemma ro_step_inv: "store_step st st' \<Longrightarrow> s_readOnly st \<Longrightarrow> ro_inv st \<Longrightarrow> ro_inv st'"
proof (induction rule: store_step.induct)
  case (commit a st E i)
  then show ?case by (simp add: Commit_def)
next
  case (new st u E i)
  then show ?case by (simp add: New_object_def)
next
  case (shut st)
  then show ?case by (simp add: Close_def ro_inv_def)
next
  case (load st E fs)
  have "ro_inv (st\<lparr>s_objs := []\<rparr>)" using load(2) by (simp add: ro_inv_def)
  then show ?case by (simp add: Store_LoadFloating_def load(1) ro_inv_load_objects)
next
  case (closeObject a st)
  then show ?case using ro_inv_same [of st "Object_Close a st"] by simp
next
  case (setMaximum st E n)
  then show ?case by (simp add: SetMaximumSize_def Let_def ro_inv_def)
next
  case (hostTree st E)
  then show ?case by (simp add: GetHostTree_def ro_inv_def)
next
  case (tick st t)
  then show ?case by (simp add: ro_inv_def)
qed (simp_all add: ro_inv_Get ro_inv_objects ro_inv_heap ro_inv_set_data)



section \<open>Commits\<close>

text \<open>The recorded size respects the limit.\<close>

definition within_limit :: "sstore \<Rightarrow> bool" where
  "within_limit st \<longleftrightarrow> s_maximumSize st > 0 \<longrightarrow> (case d_size st of None \<Rightarrow> 0 | Some n \<Rightarrow> n) \<le> s_maximumSize st"

lemma within_limit_cong:
  "within_limit st \<Longrightarrow> d_size st' = d_size st \<Longrightarrow> s_maximumSize st' = s_maximumSize st \<Longrightarrow> within_limit st'"
  by (simp add: within_limit_def)

lemma within_limit_update: "within_limit st \<Longrightarrow> within_limit (fst (updateCacheSize E st n))"
  by (auto simp: within_limit_def updateCacheSize_def Let_def split: option.splits)

lemma within_limit_evict: "within_limit st \<Longrightarrow> within_limit (fst (evict E objs limit freed st))"
proof (induction E objs limit freed st rule: evict.induct)
  case (2 E name lastUsed objs limit freed st)
  have "within_limit (fst (updateCacheSize E (remove_entry E name st) n))" for n
    by (rule within_limit_update) (use 2(5) in \<open>simp add: within_limit_def\<close>)
  with 2 show ?case by (auto simp: Let_def split: option.split)
qed simp

lemma within_limit_commit_finish: "within_limit st \<Longrightarrow> within_limit (commit_finish E st a i n)"
proof -
  assume lim: "within_limit st"
  then have "within_limit (commit_place st a i)" by (simp add: within_limit_def)
  moreover have "within_limit (fst (removeLRU E st n))" if "within_limit st" for st
    using within_limit_evict [OF that] that by (simp add: removeLRU_def case_prod_beta)
  ultimately show ?thesis
    unfolding commit_finish_def commit_account_def Let_def case_prod_beta
    by (auto intro: within_limit_update)
qed

text \<open>C22: A commit never raises the recorded size of the cache above the maximum size, whatever it
  commits, evicts or fails to do.\<close>

theorem Commit_within_limit:
  assumes "within_limit st"
  shows "within_limit (fst (Commit E st a i))"
proof -
  define st0 where "st0 = fst (clamp_object E st (s_heap st a))"
  have st0: "within_limit st0" using assms by (simp add: st0_def within_limit_def)
  then have puts: "within_limit (put_object i od2 (put_object i od1 st0))"
    "within_limit (remove_entry E i (put_object i od1 st0))" for od1 od2
    by (simp_all add: within_limit_def)
  show ?thesis
    using assms st0 puts
    by (auto simp: Commit_def Let_def st0_def [symmetric] intro: within_limit_commit_finish split: option.split)
qed

theorem Commit_within_limit_witness: "within_limit (fst (Commit demo_env demo_store 0 ''b''))"
  by (rule Commit_within_limit) (simp add: within_limit_def demo_store_def)

lemma gset_gset [simp]: "gset k v (gset k w m) = gset k v m"
  unfolding gset_def by (induction m) auto

lemma put_put [simp]: "put_object i od2 (put_object i od1 st) = put_object i od2 st"
  by (simp add: put_object_def)

lemma data_at_put: "p \<noteq> InObjects i \<Longrightarrow> data_at (put_object i od st) p = data_at st p"
  by (auto simp: data_at_def split: data_path.split)

text \<open>A commit whose calls succeed, up to the accounting.\<close>

lemma Commit_steps:
  assumes "\<not> s_readOnly st" "\<And>c. e_ok E c" "map_of (d_objects st) i = None" "i \<noteq> []"
    and "data_at (fst (clamp_object E st (s_heap st a))) (ob_path (s_heap st a)) = Some d"
    and "ob_path (s_heap st a) \<noteq> InObjects i"
  shows "Commit E st a i =
    (commit_finish E (put_object i \<lparr>od_lock = Some (s_now st), od_data = Some d,
        od_info = Some (calculateSpace (e_walk E d))\<rparr> (fst (clamp_object E st (s_heap st a)))) a i
      (calculateSpace (e_walk E d)), None)"
proof -
  define st0 where "st0 = fst (clamp_object E st (s_heap st a))"
  have "map_of (d_objects st0) i = None" "s_now st0 = s_now st" using assms(3) by (simp_all add: st0_def)
  with assms(1,2,4,5,6) show ?thesis
    unfolding Commit_def Let_def st0_def [symmetric] by (simp add: data_at_put empty_objdir_def)
qed

text \<open>C19: When the system calls succeed and the object fits below the maximum size, a commit under a new
  ID stores the object's data as it is after clamping, in a complete entry; the store then contains
  the ID and a lookup gives an object with these data; the recorded size grows by the space they
  take; the committed object becomes read-only and lives in the cache; no other entry changes.\<close>

theorem Commit_stores:
  assumes "\<not> s_readOnly st" "\<And>c. e_ok E c" "map_of (d_objects st) i = None" "i \<noteq> []"
    and d: "data_at (fst (clamp_object E st (s_heap st a))) (ob_path (s_heap st a)) = Some d"
    and "ob_path (s_heap st a) \<noteq> InObjects i"
    and "s_maximumSize st \<le> 0 \<or> max 0 (the (d_size st) + calculateSpace (e_walk E d)) \<le> s_maximumSize st"
    and "d_size st \<noteq> None"
  shows "\<exists>st'. Commit E st a i = (st', None)
    \<and> map_of (d_objects st') = (map_of (d_objects (fst (clamp_object E st (s_heap st a)))))
        (i \<mapsto> \<lparr>od_lock = Some (s_now st), od_data = Some d, od_info = Some (calculateSpace (e_walk E d))\<rparr>)
    \<and> Contains st' i \<and> data_at st' (InObjects i) = Some d
    \<and> d_size st' = Some (max 0 (the (d_size st) + calculateSpace (e_walk E d)))
    \<and> s_heap st' a = (s_heap st a)\<lparr>ob_stagePath := None, ob_path := InObjects i, ob_mode := ModeRead\<rparr>"
proof -
  define st0 where "st0 = fst (clamp_object E st (s_heap st a))"
  define od where "od = \<lparr>od_lock = Some (s_now st), od_data = Some d, od_info = Some (calculateSpace (e_walk E d))\<rparr>"
  let ?n = "calculateSpace (e_walk E d)" and ?ob = "s_heap st a"
  define st2 where "st2 = commit_place (put_object i od st0) a i"
  have st2: "d_size st2 = d_size st" "s_maximumSize st2 = s_maximumSize st"
    "s_heap st2 a = ?ob\<lparr>ob_stagePath := None, ob_path := InObjects i, ob_mode := ModeRead\<rparr>"
    "map_of (d_objects st2) = (map_of (d_objects st0))(i \<mapsto> od)"
    by (simp_all add: st2_def st0_def)
  obtain n where n: "d_size st = Some n" using assms(8) by auto
  have up: "updateCacheSize E st2 ?n = (st2\<lparr>d_size := Some (max 0 (n + ?n))\<rparr>, True)"
    using assms(2,7) n by (auto simp: updateCacheSize_def Let_def st2)
  have "Commit E st a i = (commit_finish E (put_object i od st0) a i ?n, None)"
    unfolding od_def st0_def using assms by (intro Commit_steps)
  then have eq: "Commit E st a i = (st2\<lparr>d_size := Some (max 0 (n + ?n))\<rparr>, None)"
    using up by (simp add: commit_finish_def commit_account_def st2_def)
  show ?thesis
    unfolding eq
    using assms(4) n by (auto simp: st2 st0_def [symmetric] od_def [symmetric] Contains_def data_at_def)
      (simp_all add: od_def)
qed

theorem Commit_stores_witness:
  "Contains (fst (Commit demo_env (demo_store\<lparr>s_maximumSize := 0\<rparr>) 0 ''b'')) ''b''"
proof -
  have clamp: "clamp_object E (demo_store\<lparr>s_maximumSize := 0\<rparr>) (s_heap demo_store a) = (demo_store\<lparr>s_maximumSize := 0\<rparr>, None)" for E a
    by (simp add: clamp_object_def demo_store_def)
  show ?thesis
    using Commit_stores [of "demo_store\<lparr>s_maximumSize := 0\<rparr>" demo_env "''b''" 0 "demo_data 2"]
    by (auto simp: clamp data_at_def) (auto simp: demo_env_def demo_store_def)
qed

end
