(* ===== verification/StoreLimits.thy ===== *)
theory StoreLimits
  imports StoreFacts
begin

text \<open>
  What committed objects keep over a run of the store, and where its promises end: the immutability
  of committed trees, the size limit across processes, and the commits that store nothing.
\<close>

section \<open>Caches whose entries do not change\<close>

text \<open>
  A client that uses entries of a cache by key relies on this: no step changes the content under a
  key, it can only appear or vanish.
\<close>

locale stable_cache =
  fixes inv :: "'s \<Rightarrow> bool" and step :: "'s \<Rightarrow> 's \<Rightarrow> bool" and content :: "'s \<Rightarrow> 'k \<Rightarrow> 'd option"
  assumes step_inv: "inv s \<Longrightarrow> step s t \<Longrightarrow> inv t"
    and step_content: "inv s \<Longrightarrow> step s t \<Longrightarrow> content s k = Some d \<Longrightarrow> content t k = Some d' \<Longrightarrow> d' = d"
begin

text \<open>A run that keeps the key present all along keeps its content.\<close>

lemma run_content:
  assumes "(\<lambda>s t. step s t \<and> content t k \<noteq> None)\<^sup>*\<^sup>* s t" "inv s" "content s k = Some d"
  shows "inv t \<and> content t k = Some d"
  using assms(1)
proof (induction rule: rtranclp_induct)
  case base
  from assms(2,3) show ?case by simp
next
  case (step t u)
  then obtain d' where "content u k = Some d'" by auto
  with step step_content [of t u k d d'] step_inv [of t u] show ?case by auto
qed

lemma reachable_inv: "step\<^sup>*\<^sup>* s t \<Longrightarrow> inv s \<Longrightarrow> inv t"
  by (induction rule: rtranclp_induct) (auto intro: step_inv)

end

section \<open>Committed trees\<close>

definition tree_of :: "sstore \<Rightarrow> string \<Rightarrow> dirtree option" where
  "tree_of st i = map_option dd_tree (data_at st (InObjects i))"

text \<open>
  The objects being written live in a stage directory of their own; an object in the cache has no
  epoch to clamp to, or lost its metadata together with its stage directory.
\<close>

definition inert_ob :: "(string, datadir) gmap \<Rightarrow> object \<Rightarrow> bool" where
  "inert_ob stage ob \<longleftrightarrow>
     (ob_mode ob = ModeWrite \<longrightarrow> (\<exists>u. ob_path ob = InStage u))
    \<and> (\<forall>u. ob_path ob = InStage u \<longrightarrow> ob_meta ob = InStage u \<and> ob_stagePath ob = Some u)
    \<and> (\<forall>i. ob_path ob = InObjects i \<longrightarrow> ob_stagePath ob = None \<and>
         (ob_SourceEpoch ob = None \<or> (\<exists>u. ob_meta ob = InStage u \<and> map_of stage u = None)))"

definition inert :: "sstore \<Rightarrow> bool" where
  "inert st \<longleftrightarrow> (\<forall>a < s_next st. inert_ob (d_stage st) (s_heap st a))"

lemma inert_ob_mono:
  "inert_ob stage ob \<Longrightarrow> (\<And>u. map_of stage u = None \<Longrightarrow> map_of stage' u = None) \<Longrightarrow> inert_ob stage' ob"
  unfolding inert_ob_def by blast

lemma inertD:
  assumes "inert st" "a < s_next st"
  shows "ob_mode (s_heap st a) = ModeWrite \<Longrightarrow> \<exists>u. ob_path (s_heap st a) = InStage u"
    "ob_path (s_heap st a) = InStage u \<Longrightarrow> ob_meta (s_heap st a) = InStage u \<and> ob_stagePath (s_heap st a) = Some u"
    "ob_path (s_heap st a) = InObjects i \<Longrightarrow> ob_stagePath (s_heap st a) = None"
    "ob_path (s_heap st a) = InObjects i \<Longrightarrow> ob_SourceEpoch (s_heap st a) \<noteq> None \<Longrightarrow>
       \<exists>u. ob_meta (s_heap st a) = InStage u \<and> map_of (d_stage st) u = None"
  using assms by (auto simp: inert_def inert_ob_def)

text \<open>What happens to the objects does not disturb the others as long as no stage directory appears.\<close>

lemma inert_frame:
  assumes "inert st" "s_heap st' = s_heap st" "s_next st' = s_next st"
    and "\<And>u. map_of (d_stage st) u = None \<Longrightarrow> map_of (d_stage st') u = None"
  shows "inert st'"
  using assms inert_ob_mono unfolding inert_def by metis

lemma clamp_cached:
  assumes "inert st" "a < s_next st" "ob_path (s_heap st a) = InObjects i"
  shows "fst (clamp_object E st (s_heap st a)) = st"
proof (cases "ob_SourceEpoch (s_heap st a)")
  case (Some e)
  then obtain u where "ob_meta (s_heap st a) = InStage u" "map_of (d_stage st) u = None"
    using inertD(4) [OF assms] by auto
  then have "Created E st (s_heap st a) = Inl NoInfoMeta"
    by (simp add: Created_def meta_Get_def meta_at_def data_at_def)
  with Some show ?thesis by (simp add: clamp_object_def)
qed (simp add: clamp_object_def)

lemma set_data_stage [simp]:
  "d_objects (set_data (InStage u) d st) = d_objects st"
  "d_stage (set_data (InStage u) d st) = gset u d (d_stage st)"
  by (simp_all add: set_data_def)

text \<open>Clamping an object changes nothing but data of a stage directory that exists.\<close>

lemma clamp_stage:
  assumes "inert st" "a < s_next st"
  shows "fst (clamp_object E st (s_heap st a)) = st \<or>
    (\<exists>u d. ob_path (s_heap st a) = InStage u \<and> map_of (d_stage st) u \<noteq> None
       \<and> fst (clamp_object E st (s_heap st a)) = set_data (InStage u) d st)"
proof (cases "ob_path (s_heap st a)")
  case (InStage u)
  then show ?thesis
    by (auto simp: clamp_object_def case_prod_beta data_at_def split: option.split sum.split)
qed (use clamp_cached [OF assms] in auto)

lemma inert_set: "inert st \<Longrightarrow> map_of (d_stage st) u \<noteq> None \<Longrightarrow> inert (set_data (InStage u) d st)"
  by (erule inert_frame) auto

lemma clamp_objects:
  assumes "inert st" "a < s_next st"
  shows "d_objects (fst (clamp_object E st (s_heap st a))) = d_objects st"
    "inert (fst (clamp_object E st (s_heap st a)))"
proof -
  from clamp_stage [OF assms, of E]
  show "d_objects (fst (clamp_object E st (s_heap st a))) = d_objects st" by auto
  from clamp_stage [OF assms, of E] show "inert (fst (clamp_object E st (s_heap st a)))"
    using assms(1) by (auto simp: inert_set)
qed

section \<open>No step changes a committed tree\<close>

text \<open>Eviction and the accounting of a commit only remove entries.\<close>

lemma evict_removes:
  "e_ok E RemoveEntry \<Longrightarrow> map_of (d_objects (fst (evict E objs n freed st))) j \<in> {None, map_of (d_objects st) j}"
proof (induction E objs n freed st rule: evict.induct)
  case (2 E name lastUsed objs n freed st)
  show ?case
  proof (cases "map_of (s_objs st) name = None \<and> (\<exists>od. map_of (d_objects st) name = Some od \<and> od_lock od = Some lastUsed)")
    case True
    then obtain od where od: "map_of (s_objs st) name = None" "map_of (d_objects st) name = Some od" "od_lock od = Some lastUsed"
      by blast
    show ?thesis
    proof (cases "freed + object_size E od \<ge> n")
      case False
      have "map_of (d_objects (fst (evict E objs n (freed + object_size E od)
          (fst (updateCacheSize E (remove_entry E name st) (- object_size E od)))))) j
        \<in> {None, map_of (d_objects (remove_entry E name st)) j}"
        using 2(4) [of od "object_size E od" _ "freed + object_size E od"] od False 2(5) by simp
      then show ?thesis using od False 2(5) by (auto simp: Let_def map_of_remove_entry split: if_splits)
    qed (use od 2(5) in \<open>simp add: Let_def map_of_remove_entry\<close>)
  next
    case False
    then show ?thesis using 2(1-3,5) by (cases "map_of (d_objects st) name") (auto simp: Let_def)
  qed
qed simp

lemma commit_finish_removes:
  assumes "e_ok E RemoveEntry"
  shows "map_of (d_objects (commit_finish E st a i n)) j \<in> {None, map_of (d_objects st) j}"
proof -
  have "map_of (d_objects (fst (removeLRU E st n))) j \<in> {None, map_of (d_objects st) j}" for st
    using evict_removes [OF assms, of "lru_order st" "n * 2" 0 st j] by (simp add: removeLRU_def case_prod_beta)
  from this [of "fst (updateCacheSize E (commit_place st a i) n)"] show ?thesis
    by (simp add: commit_finish_def commit_account_def Let_def case_prod_beta)
qed

lemma tree_of_cong: "map_of (d_objects st') j = map_of (d_objects st) j \<Longrightarrow> tree_of st' j = tree_of st j"
  by (simp add: tree_of_def data_at_def)

lemma tree_of_objects: "d_objects st' = d_objects st \<Longrightarrow> tree_of st' i = tree_of st i"
  by (rule tree_of_cong) simp

lemma tree_of_None: "map_of (d_objects st) j = None \<Longrightarrow> tree_of st j = None"
  by (simp add: tree_of_def data_at_def)

lemma Commit_objects:
  assumes "inert st" "a < s_next st" "e_ok E RemoveEntry"
  shows "map_of (d_objects st) i = None \<and> j = i \<or>
    map_of (d_objects (fst (Commit E st a i))) j \<in> {None, map_of (d_objects st) j}"
proof -
  define st0 where "st0 = fst (clamp_object E st (s_heap st a))"
  have st0: "d_objects st0 = d_objects st" unfolding st0_def using assms(1,2) by (rule clamp_objects)
  have "map_of (d_objects (commit_finish E (put_object i od st0) a i n)) j
      \<in> {None, map_of (d_objects (put_object i od st0)) j}" for od n
    using assms(3) by (rule commit_finish_removes)
  then have "j \<noteq> i \<Longrightarrow> map_of (d_objects (commit_finish E (put_object i od st0) a i n)) j \<in> {None, map_of (d_objects st) j}"
    for od n by (simp add: st0)
  moreover have "j \<noteq> i \<Longrightarrow> map_of (d_objects (remove_entry E i (put_object i od st0))) j = map_of (d_objects st) j" for od
    by (simp add: st0)
  ultimately show ?thesis
    using st0 by (auto simp: Commit_def Let_def st0_def [symmetric] split: option.split)
qed

lemma Get_tree: "tree_of (fst (Get E st i)) j = tree_of st j"
  by (auto simp: Get_def Let_def tree_of_def data_at_def alloc_def case_prod_beta split: option.split)

lemma Init_objects:
  assumes "inert st" "a < s_next st"
  shows "d_objects (fst (Object_Init E st a b)) = d_objects st"
proof (cases "ob_mode (s_heap st a) = ModeWrite")
  case True
  then obtain u where "ob_path (s_heap st a) = InStage u" using inertD(1) [OF assms] by blast
  then show ?thesis by (simp add: Object_Init_def Let_def split: option.split)
qed (simp add: Object_Init_def Let_def)

lemma Finalize_objects:
  assumes "inert st" "a < s_next st"
  shows "d_objects (fst (Object_Finalize E st a)) = d_objects st"
proof -
  obtain st1 e where c: "clamp_object E st (s_heap st a) = (st1, e)" by fastforce
  then have "d_objects st1 = d_objects st" using clamp_objects(1) [OF assms, of E] by simp
  with c show ?thesis by (simp add: Object_Finalize_def Let_def split: option.split)
qed

lemma step_tree:
  assumes "inert st" "\<not> s_readOnly st" "store_step st st'" "tree_of st i = Some d" "tree_of st' i = Some d'"
  shows "d' = d"
  using assms(3)
proof (cases rule: store_step.cases)
  case (commit a E j)
  have "map_of (d_objects st) i \<noteq> None" "map_of (d_objects st') i \<noteq> None"
    using tree_of_None [of st i] tree_of_None [of st' i] assms(4,5) by auto
  with Commit_objects [OF assms(1) commit(2,3), where i = j and j = i]
  have "map_of (d_objects st') i = map_of (d_objects st) i" unfolding commit(1) by blast
  with assms(4,5) show ?thesis using tree_of_cong [of st' i st] by simp
next
  case (init a b E)
  have "d_objects st' = d_objects st" unfolding init(1) using assms(1) init(2) by (rule Init_objects)
  with assms(4,5) tree_of_objects [of st' st i] show ?thesis by simp
next
  case (finalize a E)
  have "d_objects st' = d_objects st" unfolding finalize(1) using assms(1) finalize(2) by (rule Finalize_objects)
  with assms(4,5) tree_of_objects [of st' st i] show ?thesis by simp
next
  case (writeData a d)
  have "d_objects st' = d_objects st"
    using inertD(1) [OF assms(1) writeData(2,3)] by (auto simp: writeData(1))
  with assms(4,5) tree_of_objects [of st' st i] show ?thesis by simp
next
  case (new u E j)
  have "d_objects st' = d_objects st"
    by (auto simp: new(1) New_object_def Let_def alloc_def split: prod.split option.split)
  with assms(4,5) tree_of_objects [of st' st i] show ?thesis by simp
next
  case (get E j)
  with assms(4,5) show ?thesis by (simp add: Get_tree)
next
  case (load E fs)
  with assms(2,4,5) show ?thesis by (simp add: load_readWrite)
next
  case (setMaximum E n)
  have "d_objects st' = d_objects st" by (simp add: setMaximum SetMaximumSize_def Let_def)
  with assms(4,5) tree_of_objects [of st' st i] show ?thesis by simp
next
  case (hostTree E)
  have "d_objects st' = d_objects st" by (simp add: hostTree GetHostTree_def)
  with assms(4,5) tree_of_objects [of st' st i] show ?thesis by simp
qed (use assms(4,5) tree_of_objects [of st' st i] in \<open>simp_all add: Close_def\<close>)

section \<open>Every step keeps the objects inert\<close>

lemma evict_frame [simp]:
  "s_heap (fst (evict E objs n freed st)) = s_heap st \<and> s_next (fst (evict E objs n freed st)) = s_next st
   \<and> d_stage (fst (evict E objs n freed st)) = d_stage st"
proof (induction E objs n freed st rule: evict.induct)
  case (2 E name lastUsed objs n freed st)
  then show ?case by (auto simp: Let_def split: option.split)
qed simp

lemma commit_finish_frame [simp]:
  "s_heap (commit_finish E st a i n) = s_heap (commit_place st a i)"
  "s_next (commit_finish E st a i n) = s_next st"
  "d_stage (commit_finish E st a i n) = d_stage (commit_place st a i)"
  by (simp_all add: commit_finish_def commit_account_def removeLRU_def Let_def case_prod_beta)

lemma inert_update:
  assumes "inert st" "s_heap st' = (s_heap st)(a := ob)" "s_next st' \<le> Suc (s_next st)"
    and "s_next st' = s_next st \<or> a = s_next st"
    and mono: "\<And>b u. b < s_next st \<Longrightarrow> b \<noteq> a \<Longrightarrow> ob_meta (s_heap st b) = InStage u \<Longrightarrow>
      map_of (d_stage st) u = None \<Longrightarrow> map_of (d_stage st') u = None"
    and "inert_ob (d_stage st') ob"
  shows "inert st'"
  unfolding inert_def
proof (intro allI impI)
  fix b assume b: "b < s_next st'"
  show "inert_ob (d_stage st') (s_heap st' b)"
  proof (cases "b = a")
    case False
    with assms(3,4) b have "b < s_next st" by auto
    with assms(1) have "inert_ob (d_stage st) (s_heap st b)" by (simp add: inert_def)
    with mono [OF \<open>b < s_next st\<close> False] have "inert_ob (d_stage st') (s_heap st b)"
      unfolding inert_ob_def by blast
    with False assms(2) show ?thesis by simp
  qed (use assms(2,6) in simp)
qed

lemma commit_place_inert:
  assumes "inert st" "a < s_next st"
  shows "inert (commit_place st a i)"
proof (rule inert_update [OF assms(1)])
  let ?ob = "s_heap st a"
  show "s_heap (commit_place st a i) = (s_heap st)(a := ?ob\<lparr>ob_stagePath := None, ob_path := InObjects i, ob_mode := ModeRead\<rparr>)"
    by simp
  have stage: "map_of (d_stage (commit_place st a i)) u = None" if "map_of (d_stage st) u = None" for u
    using that by (auto simp: commit_place_def Let_def split: option.split)
  then show "map_of (d_stage (commit_place st a i)) u = None" if "map_of (d_stage st) u = None" for u
    using that .
  have "ob_SourceEpoch ?ob = None \<or> (\<exists>u. ob_meta ?ob = InStage u \<and> map_of (d_stage (commit_place st a i)) u = None)"
  proof (cases "ob_path ?ob")
    case (InStage u)
    with inertD(2) [OF assms] have "ob_meta ?ob = InStage u" "ob_stagePath ?ob = Some u" by auto
    then show ?thesis by (simp add: commit_place_def Let_def)
  next
    case (InObjects k)
    with inertD(4) [OF assms] stage show ?thesis by blast
  qed
  then show "inert_ob (d_stage (commit_place st a i)) (?ob\<lparr>ob_stagePath := None, ob_path := InObjects i, ob_mode := ModeRead\<rparr>)"
    by (simp add: inert_ob_def)
qed simp_all

lemma Commit_inert:
  assumes "inert st" "a < s_next st"
  shows "inert (fst (Commit E st a i))"
proof -
  define st0 where "st0 = fst (clamp_object E st (s_heap st a))"
  have st0: "inert st0" "a < s_next st0"
    unfolding st0_def using assms by (simp_all add: clamp_objects)
  have put: "inert (put_object i od st)" if "inert st" for od st
    by (rule inert_frame [OF that]) (simp_all add: put_object_def)
  have drop: "inert (remove_entry E i st)" if "inert st" for st
    by (rule inert_frame [OF that]) simp_all
  have fin: "inert (commit_finish E st a i n)" if "inert st" "a < s_next st" for n st
    by (rule inert_frame [OF commit_place_inert [OF that]]) simp_all
  have nx: "a < s_next (put_object i od st0)" for od using st0 by (simp add: put_object_def)
  show ?thesis
    using assms(1) st0 put drop fin nx
    by (auto simp: Commit_def Let_def st0_def [symmetric] split: option.split)
qed

lemma New_inert:
  assumes "inert st" "\<forall>b < s_next st. ob_meta (s_heap st b) \<noteq> InStage u"
  shows "inert (fst (New_object E st u i))"
proof -
  have "inert (st\<lparr>d_stage := gset u d (d_stage st), s_heap := (s_heap st)(s_next st :=
      \<lparr>ob_id = i, ob_mode = ModeWrite, ob_path = InStage u, ob_stagePath = Some u, ob_meta = InStage u, ob_SourceEpoch = None\<rparr>),
      s_next := Suc (s_next st), s_objs := os\<rparr>)" for d os
    by (rule inert_update [OF assms(1), where a = "s_next st" and ob = "\<lparr>ob_id = i, ob_mode = ModeWrite,
        ob_path = InStage u, ob_stagePath = Some u, ob_meta = InStage u, ob_SourceEpoch = None\<rparr>"])
      (use assms in \<open>auto simp: inert_ob_def\<close>)
  with assms(1) show ?thesis
    by (auto simp: New_object_def Let_def alloc_def split: prod.split option.split)
qed

lemma Get_inert:
  assumes "inert st"
  shows "inert (fst (Get E st i))"
proof -
  have "inert (st\<lparr>d_objects := ds, s_heap := (s_heap st)(s_next st :=
      \<lparr>ob_id = i, ob_mode = ModeRead, ob_path = InObjects i, ob_stagePath = None, ob_meta = InObjects i, ob_SourceEpoch = None\<rparr>),
      s_next := Suc (s_next st)\<rparr>)" for ds
    by (rule inert_update [OF assms, where a = "s_next st" and ob = "\<lparr>ob_id = i, ob_mode = ModeRead,
        ob_path = InObjects i, ob_stagePath = None, ob_meta = InObjects i, ob_SourceEpoch = None\<rparr>"])
      (simp_all add: inert_ob_def)
  moreover have "inert (st\<lparr>d_objects := ds\<rparr>)" for ds
    by (rule inert_frame [OF assms]) simp_all
  ultimately show ?thesis
    using assms by (auto simp: Get_def Let_def alloc_def case_prod_beta split: option.split)
qed

lemma set_data_inert:
  assumes "inert st" "a < s_next st" "ob_mode (s_heap st a) = ModeWrite" "data_at st (ob_path (s_heap st a)) \<noteq> None"
  shows "inert (set_data (ob_path (s_heap st a)) d st)"
proof -
  obtain u where u: "ob_path (s_heap st a) = InStage u" using inertD(1) [OF assms(1,2,3)] by blast
  with assms(4) have "map_of (d_stage st) u \<noteq> None" by (simp add: data_at_def)
  with assms(1) show ?thesis unfolding u by (rule inert_set)
qed

lemma Init_inert: "inert st \<Longrightarrow> a < s_next st \<Longrightarrow> inert (fst (Object_Init E st a b))"
  using set_data_inert [of st a] by (auto simp: Object_Init_def Let_def split: option.split)

lemma Finalize_inert:
  assumes "inert st" "a < s_next st"
  shows "inert (fst (Object_Finalize E st a))"
proof -
  obtain st1 e where c: "clamp_object E st (s_heap st a) = (st1, e)" by fastforce
  then have st1: "inert st1" "s_heap st1 = s_heap st" "a < s_next st1"
    using clamp_objects(2) [OF assms, of E] clamp_object_frame [of E st "s_heap st a"] assms(2) by simp_all
  have ob: "inert_ob (d_stage st1) (s_heap st a)" using st1 by (simp add: inert_def)
  have "inert (st1\<lparr>s_heap := (s_heap st)(a := (s_heap st a)\<lparr>ob_mode := ModeRead\<rparr>)\<rparr>)"
    by (rule inert_update [OF st1(1), where a = a and ob = "(s_heap st a)\<lparr>ob_mode := ModeRead\<rparr>"])
      (use ob st1 in \<open>simp_all add: inert_ob_def\<close>)
  with assms(1) c st1 show ?thesis by (simp add: Object_Finalize_def Let_def split: option.split)
qed

lemma epoch_inert:
  assumes "inert st" "a < s_next st" "ob_mode (s_heap st a) = ModeWrite"
  shows "inert (st\<lparr>s_heap := (s_heap st)(a := (s_heap st a)\<lparr>ob_SourceEpoch := e\<rparr>)\<rparr>)"
proof -
  obtain u where "ob_path (s_heap st a) = InStage u" using inertD(1) [OF assms] by blast
  then show ?thesis
    by (intro inert_update [OF assms(1), where a = a and ob = "(s_heap st a)\<lparr>ob_SourceEpoch := e\<rparr>"])
      (use assms in \<open>simp_all add: inert_def inert_ob_def\<close>)
qed

lemma Object_Close_inert: "inert st \<Longrightarrow> inert (Object_Close a st)"
  by (erule inert_frame) (auto simp: Object_Close_def Let_def split: option.split)

lemma fold_Object_Close_inert: "inert st \<Longrightarrow> inert (fold (\<lambda>(i, a) st. Object_Close a st) xs st)"
  by (induction xs arbitrary: st) (auto simp: Object_Close_inert)

lemma Close_inert:
  assumes "inert st"
  shows "inert (Close st)"
proof -
  have "inert (st\<lparr>s_hostTree := False\<rparr>)" by (rule inert_frame [OF assms]) simp_all
  then have "inert (fold (\<lambda>(i, a) st. Object_Close a st) (s_objs st) (st\<lparr>s_hostTree := False\<rparr>))"
    by (rule fold_Object_Close_inert)
  then show ?thesis unfolding Close_def by (rule inert_frame) simp_all
qed

lemma step_inert: "store_step st st' \<Longrightarrow> \<not> s_readOnly st \<Longrightarrow> inert st \<Longrightarrow> inert st'"
proof (induction rule: store_step.induct)
  case (setMaximum st E n)
  then show ?case by (elim inert_frame) (simp_all add: SetMaximumSize_def Let_def)
next
  case (hostTree st E)
  then show ?case by (elim inert_frame) (simp_all add: GetHostTree_def)
next
  case (tick st t)
  then show ?case by (elim inert_frame) simp_all
qed (simp_all add: Commit_inert New_inert Get_inert Init_inert Finalize_inert Close_inert epoch_inert set_data_inert
    Object_Close_inert load_readWrite)

text \<open>In a store opened read-only no object is being written, and none has an epoch to clamp to.\<close>

definition all_read :: "sstore \<Rightarrow> bool" where
  "all_read st \<longleftrightarrow> (\<forall>a < s_next st. ob_mode (s_heap st a) = ModeRead \<and> ob_SourceEpoch (s_heap st a) = None)"

lemma all_read_alloc:
  "all_read st \<Longrightarrow> ob_mode ob = ModeRead \<Longrightarrow> ob_SourceEpoch ob = None \<Longrightarrow> all_read (fst (alloc ob st))"
  by (auto simp: all_read_def alloc_def less_Suc_eq)

lemma all_read_frame: "all_read st \<Longrightarrow> s_heap st' = s_heap st \<Longrightarrow> s_next st' = s_next st \<Longrightarrow> all_read st'"
  by (simp add: all_read_def)

lemma make_meta_frame [simp]:
  "s_heap (fst (make_meta E p st)) = s_heap st" "s_next (fst (make_meta E p st)) = s_next st"
  "s_objs (fst (make_meta E p st)) = s_objs st"
proof -
  have "s_heap (make_data E p st) = s_heap st \<and> s_next (make_data E p st) = s_next st \<and> s_objs (make_data E p st) = s_objs st"
    by (auto simp: make_data_def Let_def split: data_path.split option.split)
  then show "s_heap (fst (make_meta E p st)) = s_heap st" "s_next (fst (make_meta E p st)) = s_next st"
    "s_objs (fst (make_meta E p st)) = s_objs st"
    by (auto simp: make_meta_def Let_def case_prod_beta split: option.split)
qed

lemma tree_of_set_data:
  "data_at st p = Some d \<Longrightarrow> dd_tree d' = dd_tree d \<Longrightarrow> tree_of (set_data p d' st) i = tree_of st i"
  by (auto simp: tree_of_def data_at_def set_data_def split: data_path.splits option.splits)

lemma tree_of_make_meta:
  assumes "tree_of st i = Some d"
  shows "tree_of (fst (make_meta E p st)) i = Some d"
proof -
  have data: "tree_of (make_data E p st) i = Some d"
  proof (cases p)
    case (InObjects j)
    then show ?thesis
      using assms by (cases "map_of (d_objects st) j"; cases "j = i")
        (auto simp: make_data_def tree_of_def data_at_def Let_def empty_objdir_def split: option.splits)
  qed (use assms in \<open>auto simp: make_data_def tree_of_def data_at_def\<close>)
  then show ?thesis
    using tree_of_set_data [of "make_data E p st" p _ _ i]
    by (auto simp: make_meta_def Let_def case_prod_beta split: option.split)
qed

lemma load_objects_read: "all_read st \<Longrightarrow> all_read (fst (load_objects E fs st))"
proof (induction E fs st rule: load_objects.induct)
  case (2 E j p fs st)
  obtain st1 e where m: "make_meta E p st = (st1, e)" by fastforce
  have 1: "all_read st1" using all_read_frame [OF 2(2), of st1] make_meta_frame [of E p st] m by simp
  let ?ob = "\<lparr>ob_id = j, ob_mode = ModeRead, ob_path = p, ob_stagePath = None, ob_meta = p, ob_SourceEpoch = None\<rparr>"
  have "all_read ((fst (alloc ?ob st1))\<lparr>s_objs := x\<rparr>)" for x
    using all_read_alloc [OF 1, of ?ob] by (simp add: all_read_def)
  then show ?case using 1 2(1) [OF m [symmetric]] m by (cases e) (auto simp: alloc_def Let_def)
qed simp

lemma load_objects_tree: "tree_of st i = Some d \<Longrightarrow> tree_of (fst (load_objects E fs st)) i = Some d"
proof (induction E fs st rule: load_objects.induct)
  case (2 E j p fs st)
  obtain st1 e where m: "make_meta E p st = (st1, e)" by fastforce
  have 3: "tree_of st1 i = Some d" using tree_of_make_meta [OF 2(2), of E p] m by simp
  have "tree_of ((fst (alloc ob st1))\<lparr>s_objs := x\<rparr>) i = Some d" for ob x
    using 3 by (simp add: tree_of_def data_at_def alloc_def split: data_path.split)
  then show ?case using 2(1) [OF m [symmetric]] 3 m by (cases e) (auto simp: alloc_def Let_def)
qed simp

lemma all_read_clamp: "all_read st \<Longrightarrow> a < s_next st \<Longrightarrow> fst (clamp_object E st (s_heap st a)) = st"
  by (simp add: clamp_object_def all_read_def)

lemma ro_step_read:
  "store_step st st' \<Longrightarrow> s_readOnly st \<Longrightarrow> all_read st \<Longrightarrow> all_read st' \<and> (\<forall>i d. tree_of st i = Some d \<longrightarrow> tree_of st' i = Some d)"
proof (induction rule: store_step.induct)
  case (commit a st E i)
  then show ?case by (simp add: Commit_def)
next
  case (get st E i)
  have "all_read (fst (Get E st i))"
  proof -
    have "all_read (fst (alloc \<lparr>ob_id = i, ob_mode = ModeRead, ob_path = InObjects i, ob_stagePath = None,
        ob_meta = InObjects i, ob_SourceEpoch = None\<rparr> (st\<lparr>d_objects := x\<rparr>)))" for x
      using get(2) by (intro all_read_alloc) (simp_all add: all_read_def)
    then show ?thesis using get(2) by (auto simp: Get_def Let_def all_read_def case_prod_beta split: option.split)
  qed
  then show ?case by (simp add: Get_tree)
next
  case (new st u E i)
  then show ?case by (simp add: New_object_def)
next
  case (init a st b E)
  then show ?case by (simp add: Object_Init_def all_read_def)
next
  case (finalize a st E)
  then show ?case by (simp add: Object_Finalize_def all_read_def)
next
  case (load st E fs)
  have "all_read (st\<lparr>s_objs := []\<rparr>)" using load(2) by (simp add: all_read_def)
  moreover have "tree_of (st\<lparr>s_objs := []\<rparr>) i = tree_of st i" for i by (rule tree_of_objects) simp
  ultimately show ?case
    by (simp add: Store_LoadFloating_def load(1) load_objects_read load_objects_tree)
next
  case (closeObject a st)
  then show ?case using all_read_frame [of st "Object_Close a st"] tree_of_objects [of "Object_Close a st" st] by simp
next
  case (setMaximum st E n)
  then show ?case using tree_of_objects [of "fst (SetMaximumSize E st n)" st]
    by (simp add: SetMaximumSize_def Let_def all_read_def)
next
  case (hostTree st E)
  then show ?case using tree_of_objects [of "fst (GetHostTree E st)" st] by (simp add: GetHostTree_def all_read_def)
next
  case (shut st)
  then show ?case using tree_of_objects [of "Close st" st] by (simp add: Close_def all_read_def)
next
  case (tick st t)
  then show ?case using tree_of_objects [of "st\<lparr>s_now := t\<rparr>" st] by (simp add: all_read_def)
qed (simp_all add: all_read_def)

definition calm :: "sstore \<Rightarrow> bool" where
  "calm st \<longleftrightarrow> (if s_readOnly st then all_read st else inert st)"

lemma step_calm: "calm st \<Longrightarrow> store_step st st' \<Longrightarrow> calm st'"
  using step_inert [of st st'] ro_step_read [of st st'] store_step_readOnly [of st st'] by (auto simp: calm_def)

lemma step_calm_tree: "calm st \<Longrightarrow> store_step st st' \<Longrightarrow> tree_of st i = Some d \<Longrightarrow> tree_of st' i = Some d' \<Longrightarrow> d' = d"
  using step_tree [of st st' i d d'] ro_step_read [of st st'] by (auto simp: calm_def split: if_splits)

interpretation committed: stable_cache calm store_step tree_of
  by unfold_locales (blast intro: step_calm step_calm_tree)+

text \<open>C18: Committed objects are immutable: whatever a process that opened the store does with it, as
  long as an entry is not evicted its tree stays what it was when it was committed, also where
  objects are clamped, finalized or committed again under another ID.\<close>

theorem committed_immutable:
  assumes "Open E disk ro = Inr st0" "s_next disk = 0" "store_step\<^sup>*\<^sup>* st0 st" "tree_of st i = Some d"
    and "(\<lambda>s t. store_step s t \<and> tree_of t i \<noteq> None)\<^sup>*\<^sup>* st st'"
  shows "tree_of st' i = Some d"
proof -
  have "s_next st0 = s_next disk" using assms(1) by (auto simp: Open_def Let_def split: if_splits)
  then have "calm st0" using assms(2) by (simp add: calm_def inert_def all_read_def)
  with assms(3) have "calm st" by (rule committed.reachable_inv)
  with committed.run_content [OF assms(5)] assms(4) show ?thesis by blast
qed

theorem committed_immutable_witness:
  "\<exists>st. Open demo_env (demo_store\<lparr>s_next := 0\<rparr>) False = Inr st
     \<and> tree_of (fst (SetMaximumSize demo_env st 7)) ''a'' = Some (dd_tree (demo_data 1))"
proof -
  define st where "st = (demo_store\<lparr>s_next := 0\<rparr>)\<lparr>s_objs := [], s_readOnly := False, s_maximumSize := 0,
    s_hostTree := False, s_locked := True\<rparr>"
  have o: "Open demo_env (demo_store\<lparr>s_next := 0\<rparr>) False = Inr st"
    by (simp add: Open_def st_def demo_store_def demo_env_def maximum_of_info_def)
  have t: "tree_of st ''a'' = Some (dd_tree (demo_data 1))"
    by (simp add: tree_of_def data_at_def st_def demo_store_def demo_entry_def)
  have "d_objects (fst (SetMaximumSize demo_env st 7)) = d_objects st" by (simp add: SetMaximumSize_def Let_def)
  from tree_of_objects [OF this] t have t': "tree_of (fst (SetMaximumSize demo_env st 7)) ''a'' \<noteq> None"
    by simp
  have "(\<lambda>s t. store_step s t \<and> tree_of t ''a'' \<noteq> None)\<^sup>*\<^sup>* st (fst (SetMaximumSize demo_env st 7))"
    by (rule r_into_rtranclp) (use t' in \<open>simp add: store_step.setMaximum\<close>)
  from committed_immutable [OF o _ rtranclp.rtrancl_refl t this] o show ?thesis by simp
qed

section \<open>A commit that evicts itself\<close>

text \<open>The space eviction can free.\<close>

definition evictable :: "senv \<Rightarrow> sstore \<Rightarrow> int" where
  "evictable E st = (\<Sum>(n, od)\<leftarrow>d_objects st.
     if od_lock od \<noteq> None \<and> map_of (s_objs st) n = None then object_size E od else 0)"

lemma sum_list_perm:
  fixes f :: "'a \<Rightarrow> int"
  assumes "mset xs = mset ys"
  shows "sum_list (map f xs) = sum_list (map f ys)"
proof -
  have "sum_mset (mset (map f xs)) = sum_mset (mset (map f ys))" using assms by simp
  then show ?thesis by (simp only: sum_mset_sum_list)
qed

lemma sum_candidates:
  assumes "gmap_ok (d_objects st)"
  shows "sum_list (map (size_of E st) (candidates st)) = evictable E st"
proof -
  let ?P = "\<lambda>(n, t). map_of (s_objs st) n = None" and ?Q = "\<lambda>(n, od). od_lock od \<noteq> None"
    and ?h = "\<lambda>(n, od). (n, the (od_lock od) :: int)"
  have "mset (candidates st) = mset (filter ?P (map ?h (filter ?Q (d_objects st))))"
    by (simp add: candidates_def lru_order_filter)
  then have "sum_list (map (size_of E st) (candidates st))
      = sum_list (map (size_of E st) (filter ?P (map ?h (filter ?Q (d_objects st)))))"
    by (rule sum_list_perm)
  also have "\<dots> = (\<Sum>(n, od)\<leftarrow>d_objects st.
     if od_lock od \<noteq> None \<and> map_of (s_objs st) n = None then object_size E od else 0)"
  proof -
    have "sum_list (map (size_of E st) (filter ?P (map ?h (filter ?Q xs)))) = (\<Sum>(n, od)\<leftarrow>xs.
        if od_lock od \<noteq> None \<and> map_of (s_objs st) n = None then object_size E od else 0)"
      if "\<And>n od. (n, od) \<in> set xs \<Longrightarrow> map_of (d_objects st) n = Some od" for xs
      using that
    proof (induction xs)
      case (Cons x xs)
      obtain n od where x: "x = (n, od)" by (cases x)
      with Cons.prems have "map_of (d_objects st) n = Some od" by simp
      then have "size_of E st (n, t) = object_size E od" for t by (simp add: size_of_def)
      with Cons show ?case by (simp add: x)
    qed simp
    then show ?thesis using assms by (simp add: gmap_ok_def)
  qed
  finally show ?thesis by (simp add: evictable_def)
qed

lemma victims_all:
  assumes "\<And>x. x \<in> set xs \<Longrightarrow> 0 \<le> sz x" "freed + sum_list (map sz xs) < limit"
  shows "victims sz limit freed xs = xs"
  using assms
proof (induction xs arbitrary: freed)
  case (Cons x xs)
  have "0 \<le> sum_list (map sz xs)" using Cons.prems(1) by (intro sum_list_nonneg) auto
  with Cons show ?case by (auto simp: add.assoc)
qed simp

lemma evictable_put:
  assumes "map_of (d_objects st) i = None" "od_lock od \<noteq> None" "map_of (s_objs st) i = None"
  shows "evictable E (put_object i od st) = evictable E st + object_size E od"
proof -
  have "AList.update i od m = m @ [(i, od)]" if "map_of m i = None" for m :: "(string \<times> objdir) list"
    using that by (induction m) (auto split: if_splits)
  then have "d_objects (put_object i od st) = d_objects st @ [(i, od)]"
    using assms(1) by (simp add: put_object_def gset_def)
  with assms(2,3) show ?thesis by (simp add: evictable_def)
qed

text \<open>When everything that may go is smaller than twice the space wanted, everything goes.\<close>

lemma removeLRU_all:
  assumes "gmap_ok (d_objects st)" "e_ok E ReadObjects" "evictable E st < n * 2" "e_ok E RemoveEntry"
    and "\<And>i od. map_of (d_objects st) i = Some od \<Longrightarrow> 0 \<le> object_size E od"
    and "map_of (d_objects st) j = Some od" "od_lock od \<noteq> None" "map_of (s_objs st) j = None"
  shows "map_of (d_objects (fst (removeLRU E st n))) j = None"
proof -
  have "0 \<le> size_of E st e" for e using assms(5) by (auto simp: size_of_def split: option.split)
  then have v: "victims (size_of E st) (n * 2) 0 (candidates st) = candidates st"
    using assms(1,3) by (intro victims_all) (simp_all add: sum_candidates)
  have "j \<in> fst ` set (candidates st)"
    using set_lru_order [OF assms(1)] assms(6,7,8) by (force simp: candidates_def)
  then show ?thesis by (simp add: removeLRU_eq [OF assms(1,2)] Let_def v map_of_fold_evict [OF assms(4)])
qed

text \<open>C23: A commit can succeed and store nothing: when an object does not fit below the maximum size and
  the entries not in use take less space than it, eviction goes on until the new entry is gone too,
  unless an in-memory object carries its ID. The caller gets no error; the store does not contain
  the ID.\<close>

theorem Commit_loses:
  assumes "\<not> s_readOnly st" "\<And>c. e_ok E c" "map_of (d_objects st) i = None" "gmap_ok (d_objects st)"
    and "ob_SourceEpoch (s_heap st a) = None" "data_at st (ob_path (s_heap st a)) = Some d"
    and "ob_path (s_heap st a) \<noteq> InObjects i" "map_of (s_objs st) i = None"
    and "size' = calculateSpace (e_walk E d)" "size' > 0" "s_maximumSize st > 0"
    and "(case d_size st of None \<Rightarrow> 0 | Some n \<Rightarrow> n) + size' > s_maximumSize st"
    and "\<And>i od. map_of (d_objects st) i = Some od \<Longrightarrow> 0 \<le> object_size E od"
    and "evictable E st < size'"
  shows "snd (Commit E st a i) = None \<and> \<not> Contains (fst (Commit E st a i)) i"
proof (cases "i = []")
  case True
  then show ?thesis using assms(1) by (simp add: Commit_def Contains_def Let_def)
next
  case False
  define od where "od = \<lparr>od_lock = Some (s_now st), od_data = Some d, od_info = Some size'\<rparr>"
  define st1 where "st1 = put_object i od st"
  define st2 where "st2 = commit_place st1 a i"
  have "fst (clamp_object E st (s_heap st a)) = st" using assms(5) by (simp add: clamp_object_def)
  then have c: "Commit E st a i = (commit_finish E st1 a i size', None)"
    using Commit_steps [OF assms(1,2,3) False, of a d] assms(6,7,9) by (simp add: od_def st1_def)
  have size_ok: "object_size E od = size'" using assms(9,10) by (simp add: object_size_def od_def)
  have st2: "d_size st2 = d_size st" "s_maximumSize st2 = s_maximumSize st" "d_objects st2 = d_objects st1"
    "s_objs st2 = s_objs st" by (simp_all add: st2_def st1_def)
  have full: "updateCacheSize E st2 size' = (st2, False)"
    using assms(2,10-12) by (simp add: updateCacheSize_def Let_def st2)
  have "evictable E st2 = evictable E st1" by (simp add: evictable_def st2) (simp add: st1_def)
  also have "\<dots> = evictable E st + size'"
    unfolding st1_def using evictable_put [OF assms(3) _ assms(8)] size_ok by (simp add: od_def)
  finally have "evictable E st2 < size' * 2" using assms(14) by simp
  then have gone: "map_of (d_objects (fst (removeLRU E st2 size'))) i = None"
  proof (rule removeLRU_all [rotated 2])
    show "gmap_ok (d_objects st2)" using assms(4) by (simp add: st2 st1_def put_object_def)
    show "e_ok E ReadObjects" "e_ok E RemoveEntry" by (rule assms(2))+
    show "0 \<le> object_size E od'" if "map_of (d_objects st2) j = Some od'" for j od'
      using that assms(10,13) size_ok by (auto simp: st2 st1_def split: if_splits)
    show "map_of (d_objects st2) i = Some od" by (simp add: st2 st1_def)
    show "od_lock od \<noteq> None" by (simp add: od_def)
    show "map_of (s_objs st2) i = None" using assms(8) by (simp add: st2)
  qed
  have objs: "s_objs (fst (removeLRU E st2 size')) = s_objs st2"
    using assms(2,4) by (simp add: removeLRU_eq st2 st1_def put_object_def Let_def)
  have "Commit E st a i = (fst (updateCacheSize E (fst (removeLRU E st2 size')) size'), None)"
    using full by (simp add: c commit_finish_def commit_account_def st2_def [symmetric] case_prod_beta)
  with gone objs assms(8) show ?thesis by (simp add: Contains_def st2)
qed

theorem Commit_loses_witness:
  "snd (Commit demo_env demo_store 0 ''b'') = None \<and> \<not> Contains (fst (Commit demo_env demo_store 0 ''b'')) ''b''"
proof (rule Commit_loses [of demo_store demo_env "''b''" 0 "demo_data 2" 1024])
  show "0 \<le> object_size demo_env od" if "map_of (d_objects demo_store) i = Some od" for i od
    using that by (auto simp: demo_store_def demo_entry_def object_size_def split: if_splits)
  show "evictable demo_env demo_store < 1024"
    by (simp add: evictable_def demo_store_def demo_entry_def object_size_def)
qed (simp_all add: gmap_ok_def data_at_def, simp_all add: demo_store_def demo_env_def)

section \<open>A commit cut short\<close>

lemma data_at_clamp: "data_at (fst (clamp_object E st ob)) p = None \<longleftrightarrow> data_at st p = None"
proof -
  have "data_at (set_data q d st) p = None \<longleftrightarrow> data_at st p = None" if "data_at st q = Some d'" for q d d'
    using that by (auto simp: set_data_def data_at_def split: data_path.splits option.splits if_splits)
  then show ?thesis by (auto simp: clamp_object_def case_prod_beta Let_def split: option.split sum.split)
qed

text \<open>C24: A commit is not atomic: a crash after it created the lock file and before it copied the data
  leaves an entry that a process opening the store afterwards takes for the object, and cannot use:
  the store contains the ID, a lookup finds nothing, and every commit under the ID succeeds without
  storing anything.\<close>

theorem Commit_crash:
  assumes "\<And>c. e_ok E c" "map_of (d_objects st) i = None" "i \<noteq> []"
    and "data_at (fst (clamp_object E st (s_heap st a))) (ob_path (s_heap st a)) \<noteq> None"
  shows "3 < length (Commit_trace E st a i) \<and>
    (\<exists>st'. Open E (Commit_trace E st a i ! 3) False = Inr st'
      \<and> Contains st' i \<and> Get E' st' i = (st', Inr None)
      \<and> snd (Commit E' st' b i) = None \<and> data_at (fst (Commit E' st' b i)) (InObjects i) = None)"
proof -
  define st0 where "st0 = fst (clamp_object E st (s_heap st a))"
  define c where "c = put_object i (empty_objdir\<lparr>od_lock := Some (s_now st)\<rparr>) st0"
  obtain d where d: "data_at st0 (ob_path (s_heap st a)) = Some d" using assms(4) by (auto simp: st0_def)
  have tr: "3 < length (Commit_trace E st a i)" "Commit_trace E st a i ! 3 = c"
    by (simp_all add: Commit_trace_def Let_def st0_def [symmetric] d c_def)
  obtain st' where st': "Open E c False = Inr st'" "d_objects st' = d_objects c" "s_objs st' = []" "s_readOnly st' = False"
    using assms(1) by (simp add: Open_def Let_def)
  have e: "map_of (d_objects st') i = Some (empty_objdir\<lparr>od_lock := Some (s_now st)\<rparr>)"
    by (simp add: st'(2) c_def)
  have none: "data_at st' (InObjects i) = None" by (simp add: data_at_def e empty_objdir_def)
  have "Contains st' i" "Get E' st' i = (st', Inr None)"
    using assms(3) by (simp_all add: Contains_def Get_def st'(3) e empty_objdir_def)
  moreover
  define st1 where "st1 = fst (clamp_object E' st' (s_heap st' b))"
  have "map_of (d_objects st1) i \<noteq> None" unfolding st1_def clamp_object_frame using e by simp
  then have "Commit E' st' b i = (st1, None)" by (simp add: Commit_def Let_def st1_def [symmetric] st'(4))
  moreover have "data_at st1 (InObjects i) = None" using none by (simp add: st1_def data_at_clamp)
  ultimately show ?thesis using tr st'(1) by auto
qed

theorem Commit_crash_witness:
  "\<exists>st'. Open demo_env (Commit_trace demo_env demo_store 0 ''b'' ! 3) False = Inr st' \<and> Contains st' ''b''
     \<and> Get demo_env st' ''b'' = (st', Inr None)"
proof -
  have "e_ok demo_env c" for c by (simp add: demo_env_def)
  moreover have "map_of (d_objects demo_store) ''b'' = None" by (simp add: demo_store_def)
  moreover have "data_at (fst (clamp_object demo_env demo_store (s_heap demo_store 0))) (ob_path (s_heap demo_store 0)) \<noteq> None"
    unfolding demo_clamp by (simp add: data_at_def demo_store_def)
  ultimately show ?thesis using Commit_crash [of demo_env demo_store "''b''" 0 demo_env 0] by blast
qed

text \<open>C25: A commit that fails and cannot clean up, because \<^verbatim>\<open>RemoveAll\<close> leaves the lock file, says that it failed;
  but from then on the store contains the ID, and a later commit under it succeeds without storing anything.\<close>

theorem Commit_leftover:
  assumes "\<not> s_readOnly st" "map_of (d_objects st) i = None" "i \<noteq> []" "e_ok E MkdirObject" "e_ok E WriteObjectLock"
    and "\<not> e_ok E CopyData" "\<not> e_ok E RemoveEntry" "\<And>od. od_lock od \<noteq> None \<Longrightarrow> od_lock (e_left E od) \<noteq> None"
    and "data_at (fst (clamp_object E st (s_heap st a))) (ob_path (s_heap st a)) = Some d" "ob_path (s_heap st a) \<noteq> InObjects i"
  shows "\<exists>st'. Commit E st a i = (st', Some (SysError CopyData)) \<and> Contains st' i
    \<and> snd (Commit E' st' b i) = None
    \<and> (data_at (fst (Commit E' st' b i)) (InObjects i) = None \<longleftrightarrow> data_at st' (InObjects i) = None)"
proof -
  define st0 where "st0 = fst (clamp_object E st (s_heap st a))"
  define od where "od = empty_objdir\<lparr>od_lock := Some (s_now st)\<rparr>"
  define st' where "st' = remove_entry E i (put_object i od st0)"
  have st0: "map_of (d_objects st0) i = None" "\<not> s_readOnly st0" using assms(1,2) by (simp_all add: st0_def)
  have c: "Commit E st a i = (st', Some (SysError CopyData))"
    using assms st0 by (simp add: Commit_def Let_def st0_def [symmetric] od_def [symmetric] data_at_put st'_def)
  have e: "map_of (d_objects st') i = Some (e_left E od)" "\<not> s_readOnly st'"
    using assms(7) st0(2) by (simp_all add: st'_def) (simp add: remove_entry_def)
  have "od_lock (e_left E od) \<noteq> None" using assms(8) by (simp add: od_def)
  then have "Contains st' i" using assms(3) e(1) by (auto simp: Contains_def)
  moreover have "Commit E' st' b i = (fst (clamp_object E' st' (s_heap st' b)), None)"
    using e by (simp add: Commit_def Let_def)
  ultimately show ?thesis using c by (simp add: data_at_clamp)
qed

theorem Commit_leftover_witness:
  "\<exists>st'. Commit (demo_env\<lparr>e_ok := \<lambda>c. c \<notin> {CopyData, RemoveEntry}\<rparr>) demo_store 0 ''b'' = (st', Some (SysError CopyData))
     \<and> Contains st' ''b'' \<and> snd (Commit demo_env st' 0 ''b'') = None"
proof -
  let ?E = "demo_env\<lparr>e_ok := \<lambda>c. c \<notin> {CopyData, RemoveEntry}\<rparr>"
  have "\<not> s_readOnly demo_store" "map_of (d_objects demo_store) ''b'' = None" "ob_path (s_heap demo_store 0) = InStage ''u''"
    "map_of (d_stage demo_store) ''u'' = Some (demo_data 2)" by (simp_all add: demo_store_def)
  moreover have "e_left demo_env = id" by (simp add: demo_env_def)
  ultimately show ?thesis
    using Commit_leftover [of demo_store "''b''" ?E 0 "demo_data 2" demo_env 0] by (auto simp: data_at_def)
qed

section \<open>Stage directories\<close>

text \<open>Closing the store removes the stage directories of objects still being written, and leaves
  those of finalized objects behind: nothing under \<^verbatim>\<open>stage/\<close> that no object in write mode uses goes.\<close>

theorem Close_stage:
  "map_of (d_stage (Close st)) u =
    (if \<exists>a \<in> snd ` set (s_objs st). ob_stagePath (s_heap st a) = Some u \<and> ob_mode (s_heap st a) = ModeWrite
     then None else map_of (d_stage st) u)"
proof -
  have "map_of (d_stage (fold (\<lambda>(i, a) st. Object_Close a st) xs st)) u =
    (if \<exists>a \<in> snd ` set xs. ob_stagePath (s_heap st a) = Some u \<and> ob_mode (s_heap st a) = ModeWrite
     then None else map_of (d_stage st) u)" for xs st
  proof (induction xs arbitrary: st)
    case (Cons x xs)
    obtain i a where x: "x = (i, a)" by (cases x)
    have "map_of (d_stage (Object_Close a st)) u =
        (if ob_stagePath (s_heap st a) = Some u \<and> ob_mode (s_heap st a) = ModeWrite then None else map_of (d_stage st) u)"
      by (auto simp: Object_Close_def Let_def split: option.split)
    then show ?case by (auto simp: x Cons)
  qed simp
  from this [of "s_objs st" "st\<lparr>s_hostTree := False\<rparr>"] show ?thesis by (auto simp: Close_def)
qed

theorem Close_stage_witness:
  "map_of (d_stage (Close demo_store)) ''u'' = None
   \<and> map_of (d_stage (Close (fst (Object_Finalize demo_env demo_store 0)))) ''u'' = Some (demo_data 2)"
proof -
  have "Object_Finalize demo_env demo_store 0 = (demo_store\<lparr>s_heap := (s_heap demo_store)(0 :=
      (s_heap demo_store 0)\<lparr>ob_mode := ModeRead\<rparr>)\<rparr>, None)"
    by (simp add: Object_Finalize_def Let_def) (simp add: demo_store_def)
  then show ?thesis
    by (simp only: Close_stage fst_conv) (simp add: demo_store_def)
qed

section \<open>The maximum size across processes\<close>

lemma bit_length_le: "n < 2 ^ k \<Longrightarrow> bit_length n \<le> k"
proof (induction n arbitrary: k rule: bit_length.induct)
  case (1 n)
  show ?case
  proof (cases "n = 0")
    case False
    with 1(2) obtain j where j: "k = Suc j" by (cases k) auto
    with 1(2) have "n div 2 < 2 ^ j" by auto
    with 1(1) [of j] False show ?thesis by (subst bit_length.simps) (simp add: j)
  qed (simp add: bit_length.simps)
qed

text \<open>Integers up to \<open>2 ^ 53\<close> are exact as \<open>float64\<close>.\<close>

lemma to_float64_exact:
  assumes "0 \<le> i" "i \<le> 2 ^ 53"
  shows "to_float64 i = i"
proof (cases "i = 2 ^ 53")
  case True
  have "bit_length (9007199254740992 div 2) \<le> 53" by (rule bit_length_le) simp
  then have le: "bit_length 9007199254740992 - 53 \<le> 1" by (subst bit_length.simps) simp
  then consider "bit_length 9007199254740992 - 53 = 0" | "bit_length 9007199254740992 - 53 = 1" by linarith
  then show ?thesis by cases (simp_all add: True to_float64_def Let_def)
next
  case False
  then have "nat i < 2 ^ 53" using assms by (simp add: nat_less_iff)
  then have "bit_length (nat i) \<le> 53" by (rule bit_length_le)
  then show ?thesis using assms(1) by (auto simp: to_float64_def Let_def sgn_if)
qed

text \<open>A maximum size set by one process is the maximum size of the next that opens the store:
  exactly for sizes up to \<open>2 ^ 53\<close> bytes, as unlimited when negative.\<close>

theorem maximum_size_persists:
  assumes "snd (SetMaximumSize E st n) = None" "n \<le> 2 ^ 53" "\<And>c. e_ok E c"
  shows "\<exists>st'. Open E (fst (SetMaximumSize E st n)) ro = Inr st' \<and> s_maximumSize st' = max (- 1) n"
proof -
  define st1 where "st1 = fst (SetMaximumSize E st n)"
  have "maximum_of_info (d_info st1) = max (- 1) n"
    using assms to_float64_exact [of n]
    by (auto simp: st1_def SetMaximumSize_def Let_def maximum_of_info_def float_to_int_def min_int64_def max_int64_def
      split: if_splits info_file.splits)
  then show ?thesis
    using assms(3) by (auto simp: st1_def [symmetric] Open_def Let_def)
qed

theorem maximum_size_persists_witness:
  "\<exists>st. Open demo_env (fst (SetMaximumSize demo_env demo_store 4096)) True = Inr st \<and> s_maximumSize st = 4096"
  using maximum_size_persists [of demo_env demo_store 4096 True]
  by (auto simp: SetMaximumSize_def Let_def demo_store_def demo_env_def)

end
