(* ===== verification/Build.thy ===== *)
theory Build
  imports StoreLimits Manifest
begin

text \<open>
  \<^verbatim>\<open>build/build.go\<close> and \<^verbatim>\<open>build/export.go\<close>: the loop that builds pipelines on top of the object store.
  What a stage does is the environment's: given the stage, its runner and the tree it runs on,
  \<open>be_run\<close> returns the tree it leaves, what it wrote to its metadata file, and the result or the
  error of \<open>RunStage\<close>. The environment also says at each point of the run which system calls
  succeed. The events sent to the monitor are recorded in order.
\<close>

section \<open>Environment and state\<close>

datatype build_phase = AtBuildTree | AtNew | AtWalk nat | AtInit nat | AtStage nat | AtFinalize

record build_result =
  br_Stage :: stage
  br_ReturnCode :: int
  br_Output :: string
  br_Error :: "gobject option"

definition Success :: "build_result \<Rightarrow> bool" where
  "Success r \<longleftrightarrow> br_ReturnCode r = 0"

text \<open>Where a stage runs: the host, or the tree of an object.\<close>

datatype build_tree = Host | TreeOf nat

record benv =
  be_at :: "build_phase \<Rightarrow> senv"
  be_ctx :: "nat \<Rightarrow> string option"
  be_uuid :: string
  be_run :: "stage \<Rightarrow> runner \<Rightarrow> build_tree \<Rightarrow> dirtree \<Rightarrow> dirtree \<times> mfile \<times> (string + (int \<times> string \<times> gobject option))"

datatype mevent = EBegin pipeline | EStage stage | EResult build_result "gobject option" | EFinish string bool

record bstate =
  bs_store :: sstore
  bs_events :: "mevent list"

datatype berror = BHostTree serror | BGetTree serror | BTreeNotFound string | BCreate serror
  | BCheckpoint serror | BInit serror | BCtx string | BMeta meta_error | BRun string
  | BCommit serror | BFinalize serror | BNotFound string | BExportDir | BNotInStore string | BExport serror

record pipeline_result =
  pr_success :: bool
  pr_name :: string
  pr_stages :: "build_result list option"

definition emit :: "mevent \<Rightarrow> bstate \<Rightarrow> bstate" where
  "emit e b = b\<lparr>bs_events := bs_events b @ [e]\<rparr>"

definition with_store :: "sstore \<Rightarrow> bstate \<Rightarrow> bstate" where
  "with_store st b = b\<lparr>bs_store := st\<rparr>"

section \<open>A pipeline\<close>

text \<open>The walk from the last stage down to a stage whose tree is in the store, or to the bottom.\<close>

fun walk_back :: "benv \<Rightarrow> golib \<Rightarrow> stage list \<Rightarrow> nat \<Rightarrow> nat \<Rightarrow> nat list \<Rightarrow> sstore \<Rightarrow> sstore \<times> (berror + nat list)" where
  "walk_back B L stages tree 0 todo st = (st, Inr todo)"
| "walk_back B L stages tree (Suc i) todo st =
     (case Get (be_at B (AtWalk i)) st (Stage_ID L (stages ! i)) of
        (st1, Inl e) \<Rightarrow> (Object_Close tree st1, Inl (BCheckpoint e))
      | (st1, Inr None) \<Rightarrow> walk_back B L stages tree i (todo @ [i]) st1
      | (st1, Inr (Some base)) \<Rightarrow>
          if ob_mode (s_heap st1 base) = ModeRead
          then (case Object_Init (be_at B (AtInit i)) st1 tree base of
                  (st2, Some e) \<Rightarrow> (Object_Close tree st2, Inl (BInit e))
                | (st2, None) \<Rightarrow> (st2, Inr todo))
          else walk_back B L stages tree i (todo @ [i]) st1)"

text \<open>What a running stage does to the data directory: to the tree, and to its metadata file.\<close>

definition stage_writes :: "object \<Rightarrow> dirtree \<Rightarrow> sstore \<Rightarrow> sstore" where
  "stage_writes ob tree' st =
     (case data_at st (ob_path ob) of None \<Rightarrow> st | Some d \<Rightarrow> set_data (ob_path ob) (d\<lparr>dd_tree := tree'\<rparr>) st)"

definition close_writer :: "senv \<Rightarrow> object \<Rightarrow> mwriter \<Rightarrow> sstore \<Rightarrow> sstore" where
  "close_writer E ob w st =
     (case data_at st (ob_meta ob) of
        None \<Rightarrow> st
      | Some d \<Rightarrow> set_data (ob_meta ob) (d\<lparr>dd_meta := fst (mw_Close (e_meta E) (dd_meta d) w)\<rparr>) st)"

text \<open>One stage, up to its result; on an error the object is closed.\<close>

definition run_stage ::
    "benv \<Rightarrow> golib \<Rightarrow> pipeline \<Rightarrow> build_tree \<Rightarrow> nat \<Rightarrow> nat \<Rightarrow> bstate \<Rightarrow> bstate \<times> (berror + build_result)" where
  "run_stage B L p bt tree i b =
     (case be_ctx B i of
        Some e \<Rightarrow> (with_store (Object_Close tree (bs_store b)) b, Inl (BCtx e))
      | None \<Rightarrow>
        let stage = pl_Stages p ! i; sid = Stage_ID L stage; E = be_at B (AtStage i);
            st = bs_store b; ob = s_heap st tree; b1 = emit (EStage stage) b in
        (case meta_Write (e_meta E) (meta_at st (ob_meta ob)) sid of
           Inl e \<Rightarrow> (with_store (Object_Close tree st) b1, Inl (BMeta e))
         | Inr w \<Rightarrow>
           let tree0 = (case data_at st (ob_path ob) of None \<Rightarrow> [] | Some d \<Rightarrow> dd_tree d);
               (tree', written, r) = be_run B stage (pl_Runner p) bt tree0;
               st1 = close_writer E ob (w\<lparr>mw_file := written\<rparr>) (stage_writes ob tree' st) in
           (case r of
              Inl e \<Rightarrow> (with_store (Object_Close tree st1) b1, Inl (BRun e))
            | Inr (code, output, err) \<Rightarrow>
              let res = \<lparr>br_Stage = stage, br_ReturnCode = code, br_Output = output, br_Error = err\<rparr>;
                  md = (case meta_Get (e_meta E) (meta_at st1 (ob_meta ob)) sid of Inl _ \<Rightarrow> None | Inr m \<Rightarrow> m)
              in (emit (EResult res md) (with_store st1 b1), Inr res))))"

text \<open>The stages to do, in the order they run; the flag of the result is the pipeline's success.\<close>

fun run_stages ::
    "benv \<Rightarrow> golib \<Rightarrow> pipeline \<Rightarrow> build_tree \<Rightarrow> nat \<Rightarrow> nat list \<Rightarrow> build_result list \<Rightarrow> bstate
     \<Rightarrow> bstate \<times> (berror + bool \<times> build_result list)" where
  "run_stages B L p bt tree [] results b = (b, Inr (True, results))"
| "run_stages B L p bt tree (i # todo) results b =
     (case run_stage B L p bt tree i b of
        (b1, Inl e) \<Rightarrow> (b1, Inl e)
      | (b1, Inr res) \<Rightarrow>
          if \<not> Success res
          then (with_store (Object_Close tree (bs_store b1)) b1, Inr (False, results @ [res]))
          else if st_Checkpoint (pl_Stages p ! i)
          then (case Commit (be_at B (AtStage i)) (bs_store b1) tree (Stage_ID L (pl_Stages p ! i)) of
                  (st2, Some e) \<Rightarrow> (with_store (Object_Close tree st2) b1, Inl (BCommit e))
                | (st2, None) \<Rightarrow> run_stages B L p bt tree todo (results @ [res]) (with_store st2 b1))
          else run_stages B L p bt tree todo (results @ [res]) b1)"

definition build_tree_of :: "benv \<Rightarrow> pipeline \<Rightarrow> sstore \<Rightarrow> sstore \<times> (berror + build_tree)" where
  "build_tree_of B p st =
     (case pl_Build p of
        None \<Rightarrow>
          (case GetHostTree (be_at B AtBuildTree) st of
             (st1, Some e) \<Rightarrow> (st1, Inl (BHostTree e))
           | (st1, None) \<Rightarrow> (st1, Inr Host))
      | Some bid \<Rightarrow>
          (case Get (be_at B AtBuildTree) st bid of
             (st1, Inl e) \<Rightarrow> (st1, Inl (BGetTree e))
           | (st1, Inr None) \<Rightarrow> (st1, Inl (BTreeNotFound bid))
           | (st1, Inr (Some a)) \<Rightarrow> (st1, Inr (TreeOf a))))"

definition set_epoch :: "nat \<Rightarrow> int option \<Rightarrow> sstore \<Rightarrow> sstore" where
  "set_epoch a e st = st\<lparr>s_heap := (s_heap st)(a := (s_heap st a)\<lparr>ob_SourceEpoch := e\<rparr>)\<rparr>"

text \<open>The part of \<open>BuildPipeline\<close> after the new object is there.\<close>

definition build_in :: "benv \<Rightarrow> golib \<Rightarrow> pipeline \<Rightarrow> build_tree \<Rightarrow> nat \<Rightarrow> bstate \<Rightarrow> bstate \<times> (berror + pipeline_result)" where
  "build_in B L p bt tree b =
     (case walk_back B L (pl_Stages p) tree (length (pl_Stages p)) [] (bs_store b) of
        (st1, Inl e) \<Rightarrow> (with_store st1 b, Inl e)
      | (st1, Inr todo) \<Rightarrow>
          (case run_stages B L p bt tree (rev todo) [] (with_store st1 b) of
             (b2, Inl e) \<Rightarrow> (b2, Inl e)
           | (b2, Inr (False, results)) \<Rightarrow>
               (b2, Inr \<lparr>pr_success = False, pr_name = pl_Name p, pr_stages = Some results\<rparr>)
           | (b2, Inr (True, results)) \<Rightarrow>
               (case Object_Finalize (be_at B AtFinalize) (bs_store b2) tree of
                  (st3, Some e) \<Rightarrow> (with_store (Object_Close tree st3) b2, Inl (BFinalize e))
                | (st3, None) \<Rightarrow> (with_store st3 b2,
                    Inr \<lparr>pr_success = True, pr_name = pl_Name p, pr_stages = Some results\<rparr>))))"

definition BuildPipeline :: "benv \<Rightarrow> golib \<Rightarrow> pipeline \<Rightarrow> bstate \<Rightarrow> bstate \<times> (berror + pipeline_result)" where
  "BuildPipeline B L p b =
     (let results = \<lparr>pr_success = True, pr_name = pl_Name p, pr_stages = None\<rparr> in
      if pl_Stages p = [] then (b, Inr results)
      else if Contains (bs_store b) (Pipeline_ID L p) then (b, Inr results)
      else
        (case build_tree_of B p (bs_store b) of
           (st1, Inl e) \<Rightarrow> (with_store st1 b, Inl e)
         | (st1, Inr bt) \<Rightarrow>
             (case New_object (be_at B AtNew) st1 (be_uuid B) (Pipeline_ID L p) of
                (st2, Inl e) \<Rightarrow> (with_store st2 b, Inl (BCreate e))
              | (st2, Inr tree) \<Rightarrow>
                  build_in B L p bt tree (with_store (set_epoch tree (pl_SourceEpoch p) st2) b))))"

section \<open>The pipelines of a build\<close>

text \<open>The results keyed by pipeline ID, and the overall success; \<open>ctx i\<close> is the poll before pipeline \<open>i\<close>.\<close>

record build_results =
  rs_success :: bool
  rs_pipelines :: "(string, pipeline_result) gmap"

fun build_loop ::
    "(nat \<Rightarrow> string option) \<Rightarrow> (nat \<Rightarrow> benv) \<Rightarrow> golib \<Rightarrow> manifest \<Rightarrow> nat \<Rightarrow> string list
     \<Rightarrow> (string, pipeline_result) gmap \<Rightarrow> bstate \<Rightarrow> bstate \<times> (berror + build_results)" where
  "build_loop ctx Bs L m i [] results b = (b, Inr \<lparr>rs_success = True, rs_pipelines = results\<rparr>)"
| "build_loop ctx Bs L m i (name # names) results b =
     (case ctx i of
        Some e \<Rightarrow> (b, Inl (BCtx e))
      | None \<Rightarrow>
        (case (case Pipeline_lookup m name of Some p \<Rightarrow> Some p | None \<Rightarrow> PipelineByID L m name) of
           None \<Rightarrow> (b, Inl (BNotFound name))
         | Some p \<Rightarrow>
           (case BuildPipeline (Bs i) L p (emit (EBegin p) b) of
              (b1, Inl e) \<Rightarrow> (b1, Inl e)
            | (b1, Inr res) \<Rightarrow>
              let b2 = emit (EFinish (pr_name res) (pr_success res)) b1;
                  results1 = gset (Pipeline_ID L p) res results in
              if \<not> pr_success res then (b2, Inr \<lparr>rs_success = False, rs_pipelines = results1\<rparr>)
              else build_loop ctx Bs L m (Suc i) names results1 b2)))"

definition Build ::
    "(nat \<Rightarrow> string option) \<Rightarrow> (nat \<Rightarrow> benv) \<Rightarrow> golib \<Rightarrow> manifest \<Rightarrow> sstore \<Rightarrow> string list \<Rightarrow> bstate \<times> (berror + build_results)" where
  "Build ctx Bs L m st pipelines = build_loop ctx Bs L m 0 pipelines [] \<lparr>bs_store = st, bs_events = []\<rparr>"

text \<open>\<open>Export\<close>: \<open>mkdir_ok\<close> is whether the target directory could be made, \<open>toDir\<close> what is in it.\<close>

definition Export :: "senv \<Rightarrow> golib \<Rightarrow> manifest \<Rightarrow> string \<Rightarrow> bool \<Rightarrow> dirtree \<Rightarrow> sstore \<Rightarrow> sstore \<times> (berror + dirtree)" where
  "Export E L m nameOrID mkdir_ok toDir st =
     (case (case Pipeline_lookup m nameOrID of Some p \<Rightarrow> Some p | None \<Rightarrow> PipelineByID L m nameOrID) of
        None \<Rightarrow> (st, Inl (BNotFound nameOrID))
      | Some p \<Rightarrow>
          (case Get E st (Pipeline_ID L p) of
             (st1, Inl e) \<Rightarrow> (st1, Inl (BGetTree e))
           | (st1, Inr None) \<Rightarrow> (st1, Inl (BNotInStore nameOrID))
           | (st1, Inr (Some a)) \<Rightarrow>
               if \<not> mkdir_ok then (st1, Inl BExportDir)
               else case Object_Export E st1 a toDir of
                      Inl e \<Rightarrow> (st1, Inl (BExport e))
                    | Inr dir \<Rightarrow> (st1, Inr dir)))"

end
