(* ===== verification/BuildFacts.thy ===== *)
theory BuildFacts
  imports Build
begin

text \<open>
  What a build does: the stages of a pipeline run in order from the resume point to the end or to the
  first failure, and the monitor is told so; and what goes wrong after a checkpoint in the middle.
\<close>

text \<open>In the environment of a build, the entries that commits remove can be removed.\<close>

definition removes :: "benv \<Rightarrow> bool" where
  "removes B \<longleftrightarrow> (\<forall>ph. e_ok (be_at B ph) RemoveEntry)"

section \<open>Frames\<close>

lemma emit_simps [simp]:
  "bs_store (emit e b) = bs_store b" "bs_events (emit e b) = bs_events b @ [e]"
  "bs_store (with_store st b) = st" "bs_events (with_store st b) = bs_events b"
  by (simp_all add: emit_def with_store_def)

section \<open>The order of the stages\<close>

lemma map_nth_upt_drop: "k \<le> length xs \<Longrightarrow> map (\<lambda>i. xs ! i) [k..<length xs] = drop k xs"
  by (intro nth_equalityI) simp_all

lemma walk_back_todo:
  "walk_back B L stages tree n todo st = (st', Inr todo') \<Longrightarrow> \<exists>k \<le> n. todo' = todo @ rev [k..<n]"
proof (induction n arbitrary: todo st)
  case (Suc i)
  obtain st1 r where g: "Get (be_at B (AtWalk i)) st (Stage_ID L (stages ! i)) = (st1, r)" by fastforce
  have next_: "\<exists>k \<le> Suc i. todo' = todo @ rev [k..<Suc i]" if "walk_back B L stages tree i (todo @ [i]) st1 = (st', Inr todo')"
    using Suc.IH [OF that] by (auto simp: le_SucI)
  show ?case
  proof (cases r)
    case (Inr b)
    show ?thesis
    proof (cases b)
      case (Some base)
      show ?thesis
      proof (cases "ob_mode (s_heap st1 base) = ModeRead")
        case True
        obtain st2 e where "Object_Init (be_at B (AtInit i)) st1 tree base = (st2, e)" by fastforce
        with Suc.prems g Inr Some True have "todo' = todo" by (cases e) auto
        then show ?thesis by (intro exI [of _ "Suc i"]) simp
      qed (use Suc.prems g Inr Some next_ in auto)
    qed (use Suc.prems g Inr next_ in auto)
  qed (use Suc.prems g in auto)
qed simp

text \<open>The events and results of stages that ran, as pairs of a result and its metadata.\<close>

definition stage_events :: "(build_result \<times> gobject option) list \<Rightarrow> mevent list" where
  "stage_events rs = concat (map (\<lambda>(r, md). [EStage (br_Stage r), EResult r md]) rs)"

definition stops_at_failure :: "bool \<Rightarrow> build_result list \<Rightarrow> bool" where
  "stops_at_failure ok rs \<longleftrightarrow>
     (if ok then \<forall>r \<in> set rs. Success r
      else rs \<noteq> [] \<and> \<not> Success (last rs) \<and> (\<forall>r \<in> set (butlast rs). Success r))"

lemma stops_at_failure_Cons: "Success r \<Longrightarrow> stops_at_failure ok rs \<Longrightarrow> stops_at_failure ok (r # rs)"
  by (auto simp: stops_at_failure_def)

lemma run_stage_Inr:
  assumes "run_stage B L p bt tree i b = (b1, Inr res)"
  obtains md where "br_Stage res = pl_Stages p ! i" "bs_events b1 = bs_events b @ stage_events [(res, md)]"
proof -
  have "\<exists>md. br_Stage res = pl_Stages p ! i \<and> bs_events b1 = bs_events b @ stage_events [(res, md)]"
    using assms
    by (auto simp: run_stage_def Let_def stage_events_def split: option.splits sum.splits prod.splits)
  then show ?thesis using that by blast
qed

text \<open>The cases of a step of the loop: it ends with an error, with a failure, or goes on.\<close>

lemma run_stages_cases:
  assumes "run_stages B L p bt tree (i # todo) results b = (b', r)"
  obtains (err) e where "r = Inl e"
  | (failed) b1 res where "run_stage B L p bt tree i b = (b1, Inr res)" "\<not> Success res"
      "r = Inr (False, results @ [res])" "b' = with_store (Object_Close tree (bs_store b1)) b1"
  | (goes_on) b1 res st2 where "run_stage B L p bt tree i b = (b1, Inr res)" "Success res"
      "st2 = bs_store b1 \<and> \<not> st_Checkpoint (pl_Stages p ! i) \<or>
       Commit (be_at B (AtStage i)) (bs_store b1) tree (Stage_ID L (pl_Stages p ! i)) = (st2, None)
         \<and> st_Checkpoint (pl_Stages p ! i)"
      "run_stages B L p bt tree todo (results @ [res]) (with_store st2 b1) = (b', r)"
proof -
  obtain b1 q where q: "run_stage B L p bt tree i b = (b1, q)" by fastforce
  show ?thesis
  proof (cases q)
    case (Inl e)
    have "r = Inl e" using assms by (simp add: q Inl)
    then show ?thesis by (rule err)
  next
    case (Inr res)
    show ?thesis
    proof (cases "Success res")
      case False
      with assms q Inr failed show ?thesis by simp
    next
      case True
      show ?thesis
      proof (cases "st_Checkpoint (pl_Stages p ! i)")
        case check: True
        obtain st2 e where c: "Commit (be_at B (AtStage i)) (bs_store b1) tree (Stage_ID L (pl_Stages p ! i)) = (st2, e)"
          by fastforce
        show ?thesis
        proof (cases e)
          case None
          with assms q Inr True check c goes_on [of b1 res st2] show ?thesis by simp
        next
          case (Some a)
          have "r = Inl (BCommit a)" using assms by (simp add: q Inr True check c Some)
          then show ?thesis by (rule err)
        qed
      next
        case False
        with assms q Inr True goes_on [of b1 res "bs_store b1"] show ?thesis by (simp add: with_store_def)
      qed
    qed
  qed
qed

lemma run_stages_results:
  "run_stages B L p bt tree todo results b = (b', Inr (ok, rs)) \<Longrightarrow>
   \<exists>new. rs = results @ map fst new \<and> stops_at_failure ok (map fst new)
     \<and> map (\<lambda>(r, md). br_Stage r) new = map (\<lambda>i. pl_Stages p ! i) (take (length new) todo)
     \<and> (ok \<longrightarrow> length new = length todo) \<and> length new \<le> length todo
     \<and> bs_events b' = bs_events b @ stage_events new"
proof (induction todo arbitrary: results b)
  case Nil
  then show ?case by (intro exI [of _ "[]"]) (simp add: stops_at_failure_def stage_events_def)
next
  case (Cons i todo)
  from Cons.prems show ?case
  proof (cases rule: run_stages_cases)
    case (failed b1 res)
    obtain md where "br_Stage res = pl_Stages p ! i" "bs_events b1 = bs_events b @ stage_events [(res, md)]"
      using failed(1) by (rule run_stage_Inr)
    with failed show ?thesis
      by (intro exI [of _ "[(res, md)]"]) (simp add: stops_at_failure_def)
  next
    case (goes_on b1 res st2)
    obtain md where md: "br_Stage res = pl_Stages p ! i" "bs_events b1 = bs_events b @ stage_events [(res, md)]"
      using goes_on(1) by (rule run_stage_Inr)
    obtain new where new: "rs = (results @ [res]) @ map fst new" "stops_at_failure ok (map fst new)"
      "map (\<lambda>(r, md). br_Stage r) new = map (\<lambda>i. pl_Stages p ! i) (take (length new) todo)"
      "ok \<longrightarrow> length new = length todo" "length new \<le> length todo"
      "bs_events b' = bs_events b1 @ stage_events new"
      using Cons.IH [OF goes_on(4)] by auto
    show ?thesis
      using new stops_at_failure_Cons [OF goes_on(2) new(2)] md
      by (intro exI [of _ "(res, md) # new"]) (simp add: stage_events_def)
  qed simp
qed

text \<open>What \<open>BuildPipeline\<close> does when it does not skip the pipeline.\<close>

lemma BuildPipeline_steps:
  assumes "BuildPipeline B L p b = (b', Inr r)" "pr_stages r = Some rs"
  obtains st1 bt st2 tree st3 todo b3 where "pl_Stages p \<noteq> []" "\<not> Contains (bs_store b) (Pipeline_ID L p)"
    "build_tree_of B p (bs_store b) = (st1, Inr bt)"
    "New_object (be_at B AtNew) st1 (be_uuid B) (Pipeline_ID L p) = (st2, Inr tree)"
    "walk_back B L (pl_Stages p) tree (length (pl_Stages p)) [] (set_epoch tree (pl_SourceEpoch p) st2) = (st3, Inr todo)"
    "run_stages B L p bt tree (rev todo) [] (with_store st3 b) = (b3, Inr (pr_success r, rs))"
    "bs_events b' = bs_events b3"
    "if pr_success r then Object_Finalize (be_at B AtFinalize) (bs_store b3) tree = (bs_store b', None)
     else b' = b3"
proof -
  have ne: "pl_Stages p \<noteq> []" "\<not> Contains (bs_store b) (Pipeline_ID L p)"
    using assms by (auto simp: BuildPipeline_def Let_def split: if_splits)
  obtain st1 q1 where q1: "build_tree_of B p (bs_store b) = (st1, q1)" by fastforce
  obtain bt where bt: "q1 = Inr bt" using assms(1) ne q1 by (cases q1) (simp_all add: BuildPipeline_def Let_def)
  obtain st2 q2 where q2: "New_object (be_at B AtNew) st1 (be_uuid B) (Pipeline_ID L p) = (st2, q2)" by fastforce
  obtain tree where tree: "q2 = Inr tree"
    using assms(1) ne q1 bt q2 by (cases q2) (simp_all add: BuildPipeline_def Let_def)
  define b1 where "b1 = with_store (set_epoch tree (pl_SourceEpoch p) st2) b"
  have bi: "build_in B L p bt tree b1 = (b', Inr r)"
    using assms(1) ne q1 bt q2 tree by (simp add: BuildPipeline_def Let_def b1_def)
  obtain st3 w where w: "walk_back B L (pl_Stages p) tree (length (pl_Stages p)) [] (bs_store b1) = (st3, w)" by fastforce
  obtain todo where todo: "w = Inr todo" using bi w by (cases w) (simp_all add: build_in_def)
  have ws: "with_store st3 b1 = with_store st3 b" by (simp add: b1_def with_store_def)
  obtain b3 q where q: "run_stages B L p bt tree (rev todo) [] (with_store st3 b) = (b3, q)" by fastforce
  obtain ok rs' where ok: "q = Inr (ok, rs')" using bi w todo q by (cases q) (auto simp: build_in_def ws)
  show ?thesis
  proof (cases ok)
    case True
    obtain st4 e where f: "Object_Finalize (be_at B AtFinalize) (bs_store b3) tree = (st4, e)" by fastforce
    have e: "e = None" using bi by (cases e) (simp_all add: build_in_def w todo q ok True f ws)
    have "build_in B L p bt tree b1 = (with_store st4 b3, Inr \<lparr>pr_success = True, pr_name = pl_Name p, pr_stages = Some rs'\<rparr>)"
      by (simp add: build_in_def w todo q ok True f e ws)
    with bi have "b' = with_store st4 b3" "r = \<lparr>pr_success = True, pr_name = pl_Name p, pr_stages = Some rs'\<rparr>" by auto
    with q ok True f e w todo assms(2) show ?thesis
      by (intro that [OF ne q1 [unfolded bt] q2 [unfolded tree], of st3 todo b3]) (auto simp: b1_def)
  next
    case False
    have "build_in B L p bt tree b1 = (b3, Inr \<lparr>pr_success = False, pr_name = pl_Name p, pr_stages = Some rs'\<rparr>)"
      by (simp add: build_in_def w todo q ok False ws)
    with bi have "b' = b3" "r = \<lparr>pr_success = False, pr_name = pl_Name p, pr_stages = Some rs'\<rparr>" by auto
    with q ok False w todo assms(2) show ?thesis
      by (intro that [OF ne q1 [unfolded bt] q2 [unfolded tree], of st3 todo b3]) (auto simp: b1_def)
  qed
qed

section \<open>The object being built\<close>

text \<open>An object in write mode in its stage directory.\<close>

definition writing :: "sstore \<Rightarrow> nat \<Rightarrow> string \<Rightarrow> bool" where
  "writing st a u \<longleftrightarrow> a < s_next st \<and> ob_path (s_heap st a) = InStage u \<and> ob_meta (s_heap st a) = InStage u
     \<and> ob_stagePath (s_heap st a) = Some u \<and> ob_mode (s_heap st a) = ModeWrite"

lemma writingD:
  assumes "writing st a u"
  shows "a < s_next st" "ob_path (s_heap st a) = InStage u" "ob_meta (s_heap st a) = InStage u"
    "ob_stagePath (s_heap st a) = Some u" "ob_mode (s_heap st a) = ModeWrite"
  using assms by (simp_all add: writing_def)

lemma writing_cong:
  "writing st a u \<Longrightarrow> s_heap st' a = s_heap st a \<Longrightarrow> s_next st \<le> s_next st' \<Longrightarrow> writing st' a u"
  by (auto simp: writing_def)

text \<open>What stays when only the stage directory of an object changes.\<close>

definition same_but_stage :: "string \<Rightarrow> sstore \<Rightarrow> sstore \<Rightarrow> bool" where
  "same_but_stage u st st' \<longleftrightarrow> d_objects st' = d_objects st \<and> s_objs st' = s_objs st \<and> s_heap st' = s_heap st
     \<and> s_next st' = s_next st \<and> s_maximumSize st' = s_maximumSize st \<and> s_readOnly st' = s_readOnly st
     \<and> (\<forall>v. v \<noteq> u \<longrightarrow> map_of (d_stage st') v = map_of (d_stage st) v)"

lemma same_but_stage_refl [simp]: "same_but_stage u st st"
  by (simp add: same_but_stage_def)

lemma same_but_stage_trans: "same_but_stage u a b \<Longrightarrow> same_but_stage u b c \<Longrightarrow> same_but_stage u a c"
  by (simp add: same_but_stage_def)

lemma same_but_stage_set [simp]: "same_but_stage u st (set_data (InStage u) d st)"
  by (simp add: same_but_stage_def)

lemma same_but_stage_writing: "same_but_stage u st st' \<Longrightarrow> writing st a u \<Longrightarrow> writing st' a u"
  by (simp add: same_but_stage_def writing_def)

lemma data_at_InStage: "data_at st (InStage u) = map_of (d_stage st) u"
  by (simp add: data_at_def)

text \<open>A stage that ran to a result ran on the tree of the stage directory, and left its tree there.\<close>

lemma run_stage_tree:
  assumes "run_stage B L p bt a i b = (b1, Inr res)" "writing (bs_store b) a u"
  obtains d d' tree' written code out err where "map_of (d_stage (bs_store b)) u = Some d"
    "be_run B (pl_Stages p ! i) (pl_Runner p) bt (dd_tree d) = (tree', written, Inr (code, out, err))"
    "res = \<lparr>br_Stage = pl_Stages p ! i, br_ReturnCode = code, br_Output = out, br_Error = err\<rparr>"
    "map_of (d_stage (bs_store b1)) u = Some d'" "dd_tree d' = tree'" "same_but_stage u (bs_store b) (bs_store b1)"
proof -
  let ?st = "bs_store b"
  let ?E = "be_at B (AtStage i)" and ?sid = "Stage_ID L (pl_Stages p ! i)"
  note ob = writingD [OF assms(2)]
  have ctx: "be_ctx B i = None" using assms(1) by (cases "be_ctx B i") (simp_all add: run_stage_def)
  have meta: "meta_at ?st (InStage u) \<noteq> None"
  proof
    assume "meta_at ?st (InStage u) = None"
    then have "meta_Write (e_meta ?E) (meta_at ?st (ob_meta (s_heap ?st a))) ?sid = Inl (CreatingTemp ?sid)"
      by (simp add: ob meta_Write_def)
    with assms(1) ctx show False by (simp add: run_stage_def Let_def)
  qed
  then obtain d where d: "map_of (d_stage ?st) u = Some d"
    by (auto simp: meta_at_def data_at_InStage split: option.splits)
  obtain w where w: "meta_Write (e_meta ?E) (meta_at ?st (InStage u)) ?sid = Inr w"
    using assms(1) ctx by (cases "meta_Write (e_meta ?E) (meta_at ?st (InStage u)) ?sid")
      (simp_all add: run_stage_def Let_def ob)
  obtain tree' written r where run: "be_run B (pl_Stages p ! i) (pl_Runner p) bt (dd_tree d) = (tree', written, r)"
    by (metis prod.exhaust)
  obtain code out err where r: "r = Inr (code, out, err)"
  proof (cases r)
    case (Inl e)
    with assms(1) ctx w run show ?thesis by (simp add: run_stage_def Let_def ob data_at_InStage d)
  qed (metis prod.exhaust that)
  define st1 where "st1 = close_writer ?E (s_heap ?st a) (w\<lparr>mw_file := written\<rparr>) (stage_writes (s_heap ?st a) tree' ?st)"
  have sw: "stage_writes (s_heap ?st a) tree' ?st = set_data (InStage u) (d\<lparr>dd_tree := tree'\<rparr>) ?st"
    by (simp add: stage_writes_def ob data_at_InStage d)
  have st1: "st1 = set_data (InStage u) (d\<lparr>dd_tree := tree', dd_meta := fst (mw_Close (e_meta ?E) (dd_meta d) (w\<lparr>mw_file := written\<rparr>))\<rparr>)
      (set_data (InStage u) (d\<lparr>dd_tree := tree'\<rparr>) ?st)"
    unfolding st1_def sw by (simp add: close_writer_def ob data_at_InStage)
  have "bs_store b1 = st1" "res = \<lparr>br_Stage = pl_Stages p ! i, br_ReturnCode = code, br_Output = out, br_Error = err\<rparr>"
    using assms(1) by (auto simp: run_stage_def ctx Let_def ob w data_at_InStage d run r st1_def)
  with that [OF d run [unfolded r]] show ?thesis
    by (simp add: st1 same_but_stage_def)
qed

section \<open>A checkpoint in the middle of a pipeline\<close>

text \<open>
  A commit under a new ID removes the stage directory, and with it the metadata directory the object
  still points to.
\<close>

lemma Commit_new_meta_gone:
  assumes "Commit E st a i = (st2, None)" "writing st a u" "map_of (d_objects st) i = None" "i \<noteq> []"
  shows "meta_at st2 (ob_meta (s_heap st2 a)) = None"
proof -
  define st0 where "st0 = fst (clamp_object E st (s_heap st a))"
  have st0: "map_of (d_objects st0) i = None" "s_heap st0 = s_heap st"
    using assms(3) by (simp_all add: st0_def)
  have ro: "\<not> s_readOnly st" using assms(1) by (auto simp: Commit_def split: if_splits)
  obtain od n where "st2 = commit_finish E (put_object i od st0) a i n"
    using assms(1,4) st0(1) ro
    by (auto simp: Commit_def Let_def st0_def [symmetric] split: if_splits option.splits)
  then show ?thesis
    using writingD [OF assms(2)] st0(2)
    by (simp add: meta_at_def data_at_InStage) (simp add: commit_place_def)
qed

lemma run_stage_needs_meta:
  assumes "meta_at (bs_store b) (ob_meta (s_heap (bs_store b) a)) = None"
  shows "\<exists>b1 e. run_stage B L p bt a i b = (b1, Inl e)"
  using assms by (cases "be_ctx B i") (auto simp: run_stage_def Let_def meta_Write_def)

lemma run_stages_needs_meta:
  assumes "meta_at (bs_store b) (ob_meta (s_heap (bs_store b) a)) = None" "todo \<noteq> []"
  shows "\<exists>e. snd (run_stages B L p bt a todo results b) = Inl e"
proof -
  obtain i todo' where "todo = i # todo'" using assms(2) by (cases todo) auto
  moreover obtain b1 e where "run_stage B L p bt a i b = (b1, Inl e)" using run_stage_needs_meta [OF assms(1)] by blast
  ultimately show ?thesis by simp
qed

lemma Commit_present:
  assumes "i = [] \<or> map_of (d_objects st) i \<noteq> None" "\<not> s_readOnly st"
  shows "Commit E st a i = (fst (clamp_object E st (s_heap st a)), None)"
proof -
  define st0 where "st0 = fst (clamp_object E st (s_heap st a))"
  have "i = [] \<or> map_of (d_objects st0) i \<noteq> None" unfolding st0_def clamp_object_frame using assms(1) .
  with assms(2) show ?thesis unfolding Commit_def Let_def st0_def [symmetric] by simp
qed

lemma clamp_writing:
  assumes "writing st a u"
  shows "same_but_stage u st (fst (clamp_object E st (s_heap st a)))"
  using writingD(2) [OF assms] clamp_object_cases [of E st "s_heap st a"] by (metis same_but_stage_refl same_but_stage_set)

lemma run_mid_checkpoint:
  assumes "run_stages B L p bt a todo results b = (b', Inr (True, rs))" "writing (bs_store b) a u"
    and "map_of (d_objects (bs_store b)) (Stage_ID L (pl_Stages p ! i)) = None"
    and "i \<in> set todo" "i \<noteq> last todo" "st_Checkpoint (pl_Stages p ! i)" "Stage_ID L (pl_Stages p ! i) \<noteq> []"
  shows False
  using assms
proof (induction todo arbitrary: results b)
  case (Cons j todo)
  have ne: "todo \<noteq> []" using Cons.prems(4,5) by auto
  from Cons.prems(1) show False
  proof (cases rule: run_stages_cases)
    case (goes_on b1 res st2)
    have b1: "same_but_stage u (bs_store b) (bs_store b1)" using goes_on(1) Cons.prems(2) by (rule run_stage_tree)
    then have w1: "writing (bs_store b1) a u" using Cons.prems(2) by (rule same_but_stage_writing)
    have new: "\<not> (Commit (be_at B (AtStage j)) (bs_store b1) a (Stage_ID L (pl_Stages p ! j)) = (st2, None)
        \<and> Stage_ID L (pl_Stages p ! j) \<noteq> [] \<and> map_of (d_objects (bs_store b1)) (Stage_ID L (pl_Stages p ! j)) = None)"
    proof (rule notI, elim conjE)
      assume "Commit (be_at B (AtStage j)) (bs_store b1) a (Stage_ID L (pl_Stages p ! j)) = (st2, None)"
        "Stage_ID L (pl_Stages p ! j) \<noteq> []" "map_of (d_objects (bs_store b1)) (Stage_ID L (pl_Stages p ! j)) = None"
      with w1 have "meta_at st2 (ob_meta (s_heap st2 a)) = None" using Commit_new_meta_gone by blast
      then obtain e where "snd (run_stages B L p bt a todo (results @ [res]) (with_store st2 b1)) = Inl e"
        using run_stages_needs_meta [of "with_store st2 b1" a todo B L p bt "results @ [res]"] ne by auto
      with goes_on(4) show False by simp
    qed
    have st2: "same_but_stage u (bs_store b1) st2"
    proof -
      have "st2 = bs_store b1 \<or> ((Stage_ID L (pl_Stages p ! j) = [] \<or> map_of (d_objects (bs_store b1)) (Stage_ID L (pl_Stages p ! j)) \<noteq> None)
          \<and> Commit (be_at B (AtStage j)) (bs_store b1) a (Stage_ID L (pl_Stages p ! j)) = (st2, None))"
        using goes_on(3) new by auto
      moreover have "\<not> s_readOnly (bs_store b1)" if "Commit E (bs_store b1) a k = (st2, None)" for E k
        using that by (auto simp: Commit_def split: if_splits)
      ultimately show ?thesis using Commit_present [where st = "bs_store b1"] clamp_writing [OF w1] by fastforce
    qed
    have "j \<noteq> i"
      using goes_on(3) new Cons.prems(3,6,7) b1 by (auto simp: same_but_stage_def)
    then show False
      using Cons.IH [OF goes_on(4)] Cons.prems ne b1 st2 same_but_stage_writing [OF st2 w1]
      by (auto simp: same_but_stage_def)
  qed simp_all
qed simp

section \<open>The walk back\<close>

lemma Get_frame [simp]:
  "s_objs (fst (Get E st i)) = s_objs st" "d_stage (fst (Get E st i)) = d_stage st"
  "s_maximumSize (fst (Get E st i)) = s_maximumSize st" "s_readOnly (fst (Get E st i)) = s_readOnly st"
  "map_of (d_objects (fst (Get E st i))) j = None \<longleftrightarrow> map_of (d_objects st) j = None"
  "s_next st \<le> s_next (fst (Get E st i))"
  by (auto simp: Get_def Let_def alloc_def case_prod_beta split: option.split)

lemma Get_heap: "b < s_next st \<Longrightarrow> s_heap (fst (Get E st i)) b = s_heap st b"
  by (auto simp: Get_def Let_def alloc_def case_prod_beta split: option.split)

lemma Get_missing:
  "map_of (s_objs st) i = None \<Longrightarrow> map_of (d_objects st) i = None \<Longrightarrow> Get E st i = (st, Inr None)"
  by (simp add: Get_def)

lemma Get_in_memory: "map_of (s_objs st) i = Some a \<Longrightarrow> Get E st i = (st, Inr (Some a))"
  by (simp add: Get_def)

lemma Init_writing:
  assumes "writing st a u"
  shows "same_but_stage u st (fst (Object_Init E st a base))"
  using writingD [OF assms] by (auto simp: Object_Init_def Let_def split: option.split)

text \<open>What the walk keeps.\<close>

definition walk_keeps :: "string \<Rightarrow> sstore \<Rightarrow> sstore \<Rightarrow> bool" where
  "walk_keeps u st st' \<longleftrightarrow> s_objs st' = s_objs st \<and> (\<forall>j. map_of (d_objects st') j = None \<longleftrightarrow> map_of (d_objects st) j = None)
     \<and> s_next st \<le> s_next st' \<and> (\<forall>b < s_next st. s_heap st' b = s_heap st b)
     \<and> s_maximumSize st' = s_maximumSize st \<and> s_readOnly st' = s_readOnly st
     \<and> (\<forall>v. v \<noteq> u \<longrightarrow> map_of (d_stage st') v = map_of (d_stage st) v)"

lemma walk_keeps_trans: "walk_keeps u a b \<Longrightarrow> walk_keeps u b c \<Longrightarrow> walk_keeps u a c"
  by (auto simp: walk_keeps_def)

lemma walk_keeps_Get: "walk_keeps u st (fst (Get E st i))"
  by (simp add: walk_keeps_def Get_heap)

lemma same_walk_keeps: "same_but_stage u st st' \<Longrightarrow> walk_keeps u st st'"
  by (simp add: walk_keeps_def same_but_stage_def)

lemma walk_keeps_writing: "walk_keeps u st st' \<Longrightarrow> writing st a v \<Longrightarrow> writing st' a v"
  by (auto simp: walk_keeps_def writing_def)

lemma walk_back_keeps:
  "walk_back B L stages a n todo st = (st', Inr todo') \<Longrightarrow> writing st a u \<Longrightarrow> walk_keeps u st st'"
proof (induction n arbitrary: todo st)
  case (Suc i)
  obtain st1 r where g: "Get (be_at B (AtWalk i)) st (Stage_ID L (stages ! i)) = (st1, r)" by fastforce
  then have k1: "walk_keeps u st st1" using walk_keeps_Get [of u st] by (metis fst_conv)
  then have w1: "writing st1 a u" using Suc.prems(2) by (rule walk_keeps_writing)
  have next_: "walk_keeps u st st'" if "walk_back B L stages a i (todo @ [i]) st1 = (st', Inr todo')"
    using Suc.IH [OF that w1] walk_keeps_trans [OF k1] by blast
  show ?case
  proof (cases r)
    case (Inr b)
    show ?thesis
    proof (cases b)
      case (Some base)
      show ?thesis
      proof (cases "ob_mode (s_heap st1 base) = ModeRead")
        case True
        obtain st2 e where i: "Object_Init (be_at B (AtInit i)) st1 a base = (st2, e)" by fastforce
        then have "walk_keeps u st1 st2" using same_walk_keeps [OF Init_writing [OF w1]] by (metis fst_conv)
        then have "walk_keeps u st st2" by (rule walk_keeps_trans [OF k1])
        with Suc.prems(1) g Inr Some True i show ?thesis by (cases e) auto
      qed (use Suc.prems g Inr Some next_ in auto)
    qed (use Suc.prems g Inr next_ in auto)
  qed (use Suc.prems g in auto)
qed (simp add: walk_keeps_def)

text \<open>Stages without a usable tree are all to be done.\<close>

lemma walk_back_all:
  assumes "walk_back B L stages a n todo st = (st', Inr todo')" "writing st a u"
    and "\<And>j. i \<le> j \<Longrightarrow> j < n \<Longrightarrow> map_of (d_objects st) (Stage_ID L (stages ! j)) = None"
    and "\<And>j. i \<le> j \<Longrightarrow> j < n \<Longrightarrow> map_of (s_objs st) (Stage_ID L (stages ! j)) \<in> {None, Some a}"
    and "i \<le> n"
  shows "\<exists>k \<le> i. todo' = todo @ rev [k..<n]"
  using assms
proof (induction n arbitrary: todo)
  case 0
  then show ?case by simp
next
  case (Suc m)
  show ?case
  proof (cases "i = Suc m")
    case True
    then show ?thesis using walk_back_todo [OF Suc.prems(1)] by blast
  next
    case False
    with Suc.prems(5) have im: "i \<le> m" by simp
    have "Get (be_at B (AtWalk m)) st (Stage_ID L (stages ! m)) \<in> {(st, Inr None), (st, Inr (Some a))}"
      using Suc.prems(3,4) [of m] im
      by (cases "map_of (s_objs st) (Stage_ID L (stages ! m))") (auto simp: Get_missing Get_in_memory)
    then have "walk_back B L stages a m (todo @ [m]) st = (st', Inr todo')"
      using Suc.prems(1) writingD(5) [OF Suc.prems(2)] by auto
    from Suc.IH [OF this Suc.prems(2)] Suc.prems(3,4) im obtain k where "k \<le> i" "todo' = (todo @ [m]) @ rev [k..<m]"
      by auto
    with im show ?thesis by (intro exI [of _ k]) simp
  qed
qed

lemma New_writing:
  assumes "New_object E st u i = (st', Inr a)"
  shows "writing (set_epoch a e st') a u" "map_of (s_objs (set_epoch a e st')) = (map_of (s_objs st))(i \<mapsto> a)"
    "d_objects (set_epoch a e st') = d_objects st" "s_maximumSize (set_epoch a e st') = s_maximumSize st"
    "\<And>b. b < s_next st \<Longrightarrow> s_heap (set_epoch a e st') b = s_heap st b" "s_next (set_epoch a e st') = Suc (s_next st)"
    "\<exists>d. map_of (d_stage (set_epoch a e st')) u = Some d
       \<and> dd_tree d = [([], \<lparr>fn_mtime = nanos (s_now st), fn_blocks = 0, fn_data = [], fn_locked = False\<rparr>)]"
    "\<And>v. v \<noteq> u \<Longrightarrow> map_of (d_stage (set_epoch a e st')) v = map_of (d_stage st) v"
  using assms
  by (auto simp: New_object_def Let_def alloc_def set_epoch_def writing_def split: if_splits prod.splits option.splits)

lemma build_tree_of_keeps:
  assumes "build_tree_of B p st = (st1, Inr bt)"
  shows "walk_keeps u st st1"
proof (cases "pl_Build p")
  case None
  obtain st2 e where g: "GetHostTree (be_at B AtBuildTree) st = (st2, e)" by fastforce
  then have "walk_keeps u st st2" by (auto simp: GetHostTree_def walk_keeps_def split: if_splits)
  moreover have "st1 = st2" using assms g None by (cases e) (simp_all add: build_tree_of_def)
  ultimately show ?thesis by simp
next
  case (Some bid)
  obtain st2 r where g: "Get (be_at B AtBuildTree) st bid = (st2, r)" by fastforce
  then have "walk_keeps u st st2" using walk_keeps_Get [of u st] by (metis fst_conv)
  moreover have "st1 = st2"
    using assms g Some by (cases r; cases "projr r") (simp_all add: build_tree_of_def)
  ultimately show ?thesis by simp
qed

text \<open>C9: A pipeline with a checkpoint at a stage other than its last cannot be built in one go: when no
  stage from the checkpoint on has a tree in the store, \<open>BuildPipeline\<close> does not succeed, whatever
  its stages and the system calls do. Committing the checkpoint removes the stage directory of the
  object, and the next stage cannot open its metadata file there. (A stage ID, the digest, is not empty.)\<close>

theorem BuildPipeline_mid_checkpoint:
  assumes "BuildPipeline B L p b = (b', Inr r)" "Suc i < length (pl_Stages p)" "st_Checkpoint (pl_Stages p ! i)"
    and "Stage_ID L (pl_Stages p ! i) \<noteq> []"
    and "\<And>j. i \<le> j \<Longrightarrow> j < length (pl_Stages p) \<Longrightarrow> map_of (d_objects (bs_store b)) (Stage_ID L (pl_Stages p ! j)) = None
        \<and> map_of (s_objs (bs_store b)) (Stage_ID L (pl_Stages p ! j)) = None"
  shows "\<not> pr_success r"
proof
  assume success: "pr_success r"
  let ?n = "length (pl_Stages p)"
  have id': "Pipeline_ID L p = Stage_ID L (pl_Stages p ! (?n - 1))"
    using assms(2) by (auto simp: Pipeline_ID_def last_conv_nth)
  have "pl_Stages p \<noteq> []" using assms(2) by auto
  moreover have "\<not> Contains (bs_store b) (Pipeline_ID L p)"
    using assms(2) assms(5) [of "?n - 1"] by (auto simp: Contains_def id')
  ultimately obtain rs where rs: "pr_stages r = Some rs"
    using assms(1) by (auto simp: BuildPipeline_def build_in_def Let_def split: prod.splits sum.splits bool.splits option.splits)
  obtain st1 bt st2 a st3 todo b3 where
    bt: "build_tree_of B p (bs_store b) = (st1, Inr bt)"
    and new: "New_object (be_at B AtNew) st1 (be_uuid B) (Pipeline_ID L p) = (st2, Inr a)"
    and walk: "walk_back B L (pl_Stages p) a ?n [] (set_epoch a (pl_SourceEpoch p) st2) = (st3, Inr todo)"
    and run: "run_stages B L p bt a (rev todo) [] (with_store st3 b) = (b3, Inr (pr_success r, rs))"
    using assms(1) rs by (rule BuildPipeline_steps)
  define st where "st = set_epoch a (pl_SourceEpoch p) st2"
  note new' = New_writing [OF new, where e = "pl_SourceEpoch p", folded st_def]
  have keep: "walk_keeps (be_uuid B) (bs_store b) st1" using bt by (rule build_tree_of_keeps)
  have objs: "map_of (d_objects st) (Stage_ID L (pl_Stages p ! j)) = None"
    "map_of (s_objs st) (Stage_ID L (pl_Stages p ! j)) \<in> {None, Some a}" if "i \<le> j" "j < ?n" for j
    using assms(5) [OF that] keep new'(2,3) by (auto simp: walk_keeps_def)
  obtain k where k: "k \<le> i" "todo = rev [k..<?n]"
    using walk_back_all [OF walk [folded st_def] new'(1) objs, where i = i] assms(2) by auto
  have "walk_keeps (be_uuid B) st st3" using walk_back_keeps [OF walk [folded st_def] new'(1)] .
  then have "writing st3 a (be_uuid B)" "map_of (d_objects st3) (Stage_ID L (pl_Stages p ! i)) = None"
    using walk_keeps_writing [OF _ new'(1)] objs(1) [of i] assms(2) by (auto simp: walk_keeps_def)
  moreover have "i \<in> set (rev todo)" "i \<noteq> last (rev todo)" using k assms(2) by auto
  ultimately show False
    using run_mid_checkpoint [of B L p bt a "rev todo" "[]" "with_store st3 b" b3 rs "be_uuid B" i] run success assms(3,4)
    by simp
qed

section \<open>Where a pipeline resumes\<close>

text \<open>
  What the walk takes for the tree of a stage: an object in memory that is finished, or the data of an
  entry on disk. The pipeline's own new object is none, so a stage with the pipeline's ID is built.
\<close>

definition usable :: "sstore \<Rightarrow> string \<Rightarrow> bool" where
  "usable st i \<longleftrightarrow> (case map_of (s_objs st) i of
     Some a \<Rightarrow> ob_mode (s_heap st a) = ModeRead
   | None \<Rightarrow> data_at st (InObjects i) \<noteq> None)"

definition cached_stage :: "golib \<Rightarrow> sstore \<Rightarrow> pipeline \<Rightarrow> nat \<Rightarrow> bool" where
  "cached_stage L st p j \<longleftrightarrow> Stage_ID L (pl_Stages p ! j) \<noteq> Pipeline_ID L p \<and> usable st (Stage_ID L (pl_Stages p ! j))"

definition heap_ok :: "sstore \<Rightarrow> bool" where
  "heap_ok st \<longleftrightarrow> (\<forall>i a. map_of (s_objs st) i = Some a \<longrightarrow> a < s_next st)"

lemma Get_usable:
  assumes "Get E st i = (st1, Inr r)"
  shows "usable st i \<longleftrightarrow> (\<exists>base. r = Some base \<and> ob_mode (s_heap st1 base) = ModeRead)"
  using assms
  by (auto simp: Get_def usable_def data_at_def alloc_def Let_def split: option.splits if_splits prod.splits)

lemma data_at_Get: "data_at (fst (Get E st i)) (InObjects j) = None \<longleftrightarrow> data_at st (InObjects j) = None"
  using Get_tree [of E st i j] by (simp add: tree_of_def) (metis option.map_disc_iff)

lemma usable_keeps:
  assumes "walk_keeps u st st'" "heap_ok st" "\<And>i. data_at st' (InObjects i) = None \<longleftrightarrow> data_at st (InObjects i) = None"
  shows "heap_ok st'" "usable st' i \<longleftrightarrow> usable st i"
  using assms by (auto simp: walk_keeps_def heap_ok_def usable_def intro: less_le_trans split: option.split)

lemma usable_Get:
  assumes "heap_ok st" "Get E st i = (st1, r)"
  shows "heap_ok st1" "usable st1 j \<longleftrightarrow> usable st j"
  using usable_keeps [of "[]" st st1] walk_keeps_Get [of "[]" st E i] data_at_Get [of E st i] assms by simp_all

text \<open>The walk stops at the last stage with a usable tree, or at the bottom.\<close>

lemma walk_back_stops:
  "walk_back B L stages a n todo st = (st', Inr todo') \<Longrightarrow> heap_ok st \<Longrightarrow>
   \<exists>k \<le> n. todo' = todo @ rev [k..<n] \<and> (k = 0 \<or> usable st (Stage_ID L (stages ! (k - 1))))
     \<and> (\<forall>j. k \<le> j \<and> j < n \<longrightarrow> \<not> usable st (Stage_ID L (stages ! j)))"
proof (induction n arbitrary: todo st)
  case (Suc i)
  obtain st1 r where g: "Get (be_at B (AtWalk i)) st (Stage_ID L (stages ! i)) = (st1, r)" by fastforce
  note keep = usable_Get [OF Suc.prems(2) g]
  obtain b where b: "r = Inr b" using Suc.prems(1) g by (cases r) auto
  note found = Get_usable [OF g [unfolded b]]
  show ?case
  proof (cases "usable st (Stage_ID L (stages ! i))")
    case True
    then obtain base where base: "b = Some base" "ob_mode (s_heap st1 base) = ModeRead" using found by blast
    obtain st2 e where "Object_Init (be_at B (AtInit i)) st1 a base = (st2, e)" by fastforce
    with Suc.prems(1) g b base have "todo' = todo" by (cases e) auto
    with True show ?thesis by (intro exI [of _ "Suc i"]) auto
  next
    case False
    then have "walk_back B L stages a i (todo @ [i]) st1 = (st', Inr todo')"
      using Suc.prems(1) g b found by (cases b) auto
    from Suc.IH [OF this keep(1)] obtain k where k: "k \<le> i" "todo' = (todo @ [i]) @ rev [k..<i]"
      "k = 0 \<or> usable st (Stage_ID L (stages ! (k - 1)))" "\<forall>j. k \<le> j \<and> j < i \<longrightarrow> \<not> usable st (Stage_ID L (stages ! j))"
      unfolding keep(2) by blast
    with False show ?thesis by (intro exI [of _ k]) (auto simp: less_Suc_eq)
  qed
qed simp

lemma usable_New:
  assumes "build_tree_of B p st = (st1, Inr bt)" "heap_ok st" "New_object E st1 u i = (st2, Inr a)"
  shows "heap_ok (set_epoch a e st2)" "usable (set_epoch a e st2) j \<longleftrightarrow> j \<noteq> i \<and> usable st j"
proof -
  have d1: "data_at st1 (InObjects k) = None \<longleftrightarrow> data_at st (InObjects k) = None" for k
  proof (cases "pl_Build p")
    case None
    then show ?thesis
      using assms(1) by (auto simp: build_tree_of_def GetHostTree_def data_at_def split: prod.splits option.splits if_splits)
  next
    case (Some bid)
    obtain st' r where "Get (be_at B AtBuildTree) st bid = (st', r)" by fastforce
    with Some assms(1) data_at_Get [of "be_at B AtBuildTree" st bid k] show ?thesis
      by (auto simp: build_tree_of_def split: sum.splits option.splits)
  qed
  note 1 = usable_keeps [OF build_tree_of_keeps [OF assms(1)] assms(2) d1]
  note 2 = New_writing [OF assms(3), where e = e]
  have ok: "b < s_next st1" if "map_of (s_objs st1) k = Some b" for k b using 1(1) that by (simp add: heap_ok_def)
  then show "heap_ok (set_epoch a e st2)"
    using 2(2,6) writingD(1) [OF 2(1)] by (auto simp: heap_ok_def less_Suc_eq)
  have "data_at (set_epoch a e st2) (InObjects j) = data_at st1 (InObjects j)" by (simp add: data_at_def 2(3))
  then have "usable (set_epoch a e st2) j \<longleftrightarrow> j \<noteq> i \<and> usable st1 j"
    unfolding usable_def using 2(2,5) ok writingD(5) [OF 2(1)] by (auto split: option.split)
  with 1(2) show "usable (set_epoch a e st2) j \<longleftrightarrow> j \<noteq> i \<and> usable st j" by simp
qed

text \<open>A pipeline that was built, with the stage it resumed at.\<close>

definition ran_from :: "golib \<Rightarrow> sstore \<Rightarrow> pipeline \<Rightarrow> bool \<Rightarrow> build_result list \<Rightarrow> mevent list \<Rightarrow> bool" where
  "ran_from L st p ok rs evs \<longleftrightarrow> (\<exists>k mds. k \<le> length (pl_Stages p) \<and> length mds = length rs
    \<and> (k = 0 \<or> cached_stage L st p (k - 1)) \<and> (\<forall>j. k \<le> j \<and> j < length (pl_Stages p) \<longrightarrow> \<not> cached_stage L st p j)
    \<and> map br_Stage rs = take (length rs) (drop k (pl_Stages p)) \<and> stops_at_failure ok rs
    \<and> (ok \<longrightarrow> length rs = length (pl_Stages p) - k)
    \<and> evs = stage_events (zip rs mds))"

lemma BuildPipeline_ran:
  assumes "BuildPipeline B L p b = (b', Inr r)" "pr_stages r = Some rs" "heap_ok (bs_store b)"
  shows "\<exists>evs. ran_from L (bs_store b) p (pr_success r) rs evs \<and> bs_events b' = bs_events b @ evs"
proof -
  let ?n = "length (pl_Stages p)"
  obtain st1 bt st2 tree st3 todo b3 where t: "build_tree_of B p (bs_store b) = (st1, Inr bt)"
    and new: "New_object (be_at B AtNew) st1 (be_uuid B) (Pipeline_ID L p) = (st2, Inr tree)"
    and w: "walk_back B L (pl_Stages p) tree ?n [] (set_epoch tree (pl_SourceEpoch p) st2) = (st3, Inr todo)"
    and q: "run_stages B L p bt tree (rev todo) [] (with_store st3 b) = (b3, Inr (pr_success r, rs))"
    and b3: "bs_events b' = bs_events b3"
    using assms(1,2) by (rule BuildPipeline_steps)
  note u = usable_New [OF t assms(3) new, where e = "pl_SourceEpoch p"]
  obtain k where k: "k \<le> ?n" "todo = rev [k..<?n]"
    "k = 0 \<or> cached_stage L (bs_store b) p (k - 1)" "\<forall>j. k \<le> j \<and> j < ?n \<longrightarrow> \<not> cached_stage L (bs_store b) p j"
    using walk_back_stops [OF w u(1)] unfolding u(2) cached_stage_def by auto
  obtain new where new: "rs = map fst new" "stops_at_failure (pr_success r) rs"
    "map (\<lambda>(r, md). br_Stage r) new = map (\<lambda>i. pl_Stages p ! i) (take (length new) (rev todo))"
    "pr_success r \<longrightarrow> length new = length (rev todo)" "length new \<le> length (rev todo)"
    "bs_events b3 = bs_events b @ stage_events new"
    using run_stages_results [OF q] by auto
  have "map br_Stage rs = map (\<lambda>i. pl_Stages p ! i) (take (length new) [k..<?n])"
    using new(1,3) k by (simp add: case_prod_unfold comp_def)
  also have "\<dots> = take (length rs) (drop k (pl_Stages p))"
    using k(1) new(1) by (simp add: take_map [symmetric] map_nth_upt_drop)
  finally have "map br_Stage rs = take (length rs) (drop k (pl_Stages p))" .
  moreover have "zip rs (map snd new) = new" by (simp add: new(1) zip_map_fst_snd)
  ultimately show ?thesis
    unfolding ran_from_def
    using k new b3 by (intro exI [of _ "stage_events new"] conjI exI [of _ k] exI [of _ "map snd new"]) auto
qed

text \<open>C8: A pipeline that is not skipped resumes after the last of its stages whose tree is cached, in memory
  or on disk, and from the beginning when there is none. It runs the stages from there on in the order of
  the manifest, up to the last or to the first that fails; the results list exactly these stages, the
  pipeline succeeds exactly when all of them did and the last was reached, and the monitor sees each
  stage begin and then its result, in this order.\<close>

theorem BuildPipeline_runs:
  assumes "BuildPipeline B L p b = (b', Inr r)" "pr_stages r = Some rs" "heap_ok (bs_store b)"
  shows "\<exists>k mds. k \<le> length (pl_Stages p) \<and> length mds = length rs
    \<and> (k = 0 \<or> cached_stage L (bs_store b) p (k - 1))
    \<and> (\<forall>j. k \<le> j \<and> j < length (pl_Stages p) \<longrightarrow> \<not> cached_stage L (bs_store b) p j)
    \<and> map br_Stage rs = take (length rs) (drop k (pl_Stages p))
    \<and> stops_at_failure (pr_success r) rs
    \<and> (pr_success r \<longrightarrow> length rs = length (pl_Stages p) - k)
    \<and> bs_events b' = bs_events b @ stage_events (zip rs mds)"
  using BuildPipeline_ran [OF assms] unfolding ran_from_def by blast

section \<open>A build\<close>

text \<open>A store with no objects, and stages that change nothing and return \<open>code\<close>.\<close>

definition demo_build_env :: "int \<Rightarrow> benv" where
  "demo_build_env code = \<lparr>be_at = \<lambda>_. demo_env, be_ctx = \<lambda>_. None, be_uuid = ''v'',
     be_run = \<lambda>s r bt t. (t, MEmpty, Inr (code, [], None))\<rparr>"

lemma demo_removes [simp]: "removes (demo_build_env code)"
  by (simp add: removes_def demo_build_env_def demo_env_def)

lemma demo_build_env_simps [simp]:
  "be_at (demo_build_env code) ph = demo_env" "be_uuid (demo_build_env code) = ''v''"
  "be_ctx (demo_build_env code) i = None"
  "be_run (demo_build_env code) s r bt t = (t, MEmpty, Inr (code, [], None))"
  by (simp_all add: demo_build_env_def)

definition demo_bstate :: bstate where
  "demo_bstate = \<lparr>bs_store = demo_store\<lparr>s_objs := [], d_objects := [], d_stage := [], s_next := 0, s_hostTree := True\<rparr>,
     bs_events = []\<rparr>"

definition demo_two :: pipeline where
  "demo_two = \<lparr>pl_Name = ''os'', pl_Build = None, pl_Runner = \<lparr>run_Name = [], run_Path = ''/r''\<rparr>,
     pl_Stages = [(demo_stage NewOrderedMap)\<lparr>st_Checkpoint := True\<rparr>, (demo_stage NewOrderedMap)\<lparr>st_Type := ''org.osbuild.tar''\<rparr>],
     pl_SourceEpoch = None\<rparr>"

text \<open>The store after \<open>BuildPipeline\<close> made the object of a pipeline with the ID \<open>i\<close>.\<close>

definition demo_created :: "string \<Rightarrow> sstore" where
  "demo_created i = (bs_store demo_bstate)\<lparr>s_objs := [(i, 0)], s_next := 1,
     s_heap := (s_heap demo_store)(0 := \<lparr>ob_id = i, ob_mode = ModeWrite, ob_path = InStage ''v'', ob_stagePath = Some ''v'',
       ob_meta = InStage ''v'', ob_SourceEpoch = None\<rparr>),
     d_stage := [(''v'', \<lparr>dd_tree = [([], \<lparr>fn_mtime = nanos 9, fn_blocks = 0, fn_data = [], fn_locked = False\<rparr>)],
       dd_meta = Some [(''info'', MJson [(''created'', GFloat (FFin 9))])]\<rparr>)]\<rparr>"

lemma demo_created:
  obtains st where "New_object demo_env (bs_store demo_bstate) ''v'' i = (st, Inr 0)" "set_epoch 0 None st = demo_created i"
  by (simp add: New_object_def set_epoch_def alloc_def NewMetadata_def meta_Set_def meta_Write_def mw_Close_def
      demo_created_def demo_bstate_def demo_store_def demo_env_def Let_def gset_def)

lemma demo_created_simps [simp]:
  "s_objs (demo_created i) = [(i, 0)]" "d_objects (demo_created i) = []"
  "s_heap (demo_created i) 0 = \<lparr>ob_id = i, ob_mode = ModeWrite, ob_path = InStage ''v'', ob_stagePath = Some ''v'',
       ob_meta = InStage ''v'', ob_SourceEpoch = None\<rparr>"
  "data_at (demo_created i) (InStage ''v'') = Some \<lparr>dd_tree = [([], \<lparr>fn_mtime = nanos 9, fn_blocks = 0, fn_data = [], fn_locked = False\<rparr>)],
       dd_meta = Some [(''info'', MJson [(''created'', GFloat (FFin 9))])]\<rparr>"
  by (simp_all add: demo_created_def demo_bstate_def data_at_def)

lemma demo_two_run:
  assumes "code \<noteq> 0"
  obtains b' where "BuildPipeline (demo_build_env code) L demo_two demo_bstate
    = (b', Inr \<lparr>pr_success = False, pr_name = ''os'',
        pr_stages = Some [\<lparr>br_Stage = (demo_stage NewOrderedMap)\<lparr>st_Checkpoint := True\<rparr>, br_ReturnCode = code, br_Output = [], br_Error = None\<rparr>]\<rparr>)"
proof -
  let ?s0 = "(demo_stage NewOrderedMap)\<lparr>st_Checkpoint := True\<rparr>" and ?s1 = "(demo_stage NewOrderedMap)\<lparr>st_Type := ''org.osbuild.tar''\<rparr>"
  let ?id = "Stage_ID L ?s1" and ?B = "demo_build_env code"
  have p: "pl_Stages demo_two = [?s0, ?s1]" "Pipeline_ID L demo_two = ?id" "pl_Build demo_two = None"
    "pl_SourceEpoch demo_two = None" "pl_Name demo_two = ''os''"
    by (simp_all add: demo_two_def Pipeline_ID_def)
  obtain st where new: "New_object demo_env (bs_store demo_bstate) ''v'' ?id = (st, Inr 0)" "set_epoch 0 None st = demo_created ?id"
    by (rule demo_created)
  have walk: "walk_back ?B L (pl_Stages demo_two) 0 (length (pl_Stages demo_two)) [] (demo_created ?id) = (demo_created ?id, Inr [1, 0])"
    by (simp add: p Get_def)
  have "snd (run_stage ?B L demo_two Host 0 0 (with_store (demo_created ?id) demo_bstate))
      = Inr \<lparr>br_Stage = ?s0, br_ReturnCode = code, br_Output = [], br_Error = None\<rparr>"
    by (simp add: run_stage_def p meta_Write_def meta_at_def Let_def) (simp add: demo_env_def)
  then obtain b1 where run: "run_stage ?B L demo_two Host 0 0 (with_store (demo_created ?id) demo_bstate)
      = (b1, Inr \<lparr>br_Stage = ?s0, br_ReturnCode = code, br_Output = [], br_Error = None\<rparr>)"
    by (metis prod.collapse)
  have tree: "build_tree_of ?B demo_two (bs_store demo_bstate) = (bs_store demo_bstate, Inr Host)"
    by (simp add: build_tree_of_def p GetHostTree_def) (simp add: demo_bstate_def)
  have "\<not> Contains (bs_store demo_bstate) ?id" by (simp add: Contains_def demo_bstate_def)
  moreover obtain b' where "build_in ?B L demo_two Host 0 (with_store (demo_created ?id) demo_bstate)
    = (b', Inr \<lparr>pr_success = False, pr_name = ''os'',
        pr_stages = Some [\<lparr>br_Stage = ?s0, br_ReturnCode = code, br_Output = [], br_Error = None\<rparr>]\<rparr>)"
  proof -
    have w: "with_store (demo_created ?id) (with_store (demo_created ?id) demo_bstate) = with_store (demo_created ?id) demo_bstate"
      by (simp add: with_store_def)
    have "snd (build_in ?B L demo_two Host 0 (with_store (demo_created ?id) demo_bstate))
      = Inr \<lparr>pr_success = False, pr_name = ''os'',
          pr_stages = Some [\<lparr>br_Stage = ?s0, br_ReturnCode = code, br_Output = [], br_Error = None\<rparr>]\<rparr>"
      using assms unfolding build_in_def emit_simps walk by (simp add: w run Success_def p(5))
    then show ?thesis using that by (metis prod.collapse)
  qed
  ultimately show ?thesis
    using that new tree by (simp add: BuildPipeline_def p Let_def)
qed

theorem BuildPipeline_runs_witness:
  "\<exists>b' r rs k. BuildPipeline (demo_build_env 1) demo_lib demo_two demo_bstate = (b', Inr r) \<and> pr_stages r = Some rs
     \<and> map br_Stage rs = take (length rs) (drop k (pl_Stages demo_two)) \<and> stops_at_failure (pr_success r) rs"
proof -
  obtain b' r rs where r: "BuildPipeline (demo_build_env 1) demo_lib demo_two demo_bstate = (b', Inr r)" "pr_stages r = Some rs"
    by (rule demo_two_run [of 1 demo_lib]) simp_all
  moreover have "heap_ok (bs_store demo_bstate)" by (simp add: heap_ok_def demo_bstate_def)
  ultimately show ?thesis using BuildPipeline_runs by blast
qed

theorem BuildPipeline_mid_checkpoint_witness:
  "\<exists>b' r. BuildPipeline (demo_build_env 1) demo_lib demo_two demo_bstate = (b', Inr r) \<and> \<not> pr_success r"
proof -
  obtain b' r where r: "BuildPipeline (demo_build_env 1) demo_lib demo_two demo_bstate = (b', Inr r)"
    by (rule demo_two_run [of 1 demo_lib]) simp_all
  moreover have "\<not> pr_success r"
    by (rule BuildPipeline_mid_checkpoint [OF r, of 0])
      (simp_all add: demo_two_def Stage_ID_nonempty, simp_all add: demo_bstate_def)
  ultimately show ?thesis by blast
qed

end
