(* ===== verification/BuildSound.thy ===== *)
theory BuildSound
  imports BuildFacts
begin

text \<open>
  The build refines its specification. Abstractly, a stage is a function on the contents of a tree,
  and a pipeline is the composition of its stages applied to an empty tree; times and sizes do not
  count. A store is sound when what it holds under an ID is the abstract tree of that ID. Then
  building from checkpoints and cached trees gives what building from nothing would give.
\<close>

section \<open>Contents\<close>

definition tcontent :: "dirtree \<Rightarrow> (string \<times> string) list" where
  "tcontent t = map (\<lambda>(p, n). (p, fn_data n)) t"

definition content :: "dirtree \<Rightarrow> string \<rightharpoonup> string" where
  "content t = map_of (tcontent t)"

definition tree_ok :: "dirtree \<Rightarrow> bool" where
  "tree_ok t \<longleftrightarrow> gmap_ok t \<and> content t [] \<noteq> None"

definition empty_root :: "string \<rightharpoonup> string" where
  "empty_root = [[] \<mapsto> []]"

text \<open>The abstract pipeline.\<close>

definition run_abstract :: "(stage \<Rightarrow> (string \<rightharpoonup> string) \<Rightarrow> string \<rightharpoonup> string) \<Rightarrow> stage list \<Rightarrow> string \<rightharpoonup> string" where
  "run_abstract F stages = fold F stages empty_root"

definition holds_tree :: "dirtree \<Rightarrow> (string \<rightharpoonup> string) \<Rightarrow> bool" where
  "holds_tree t c \<longleftrightarrow> tree_ok t \<and> content t = c"

lemma map_fst_tcontent: "map fst (tcontent t) = gkeys t"
  by (simp add: tcontent_def case_prod_unfold comp_def)

lemma holds_tree_cong: "tcontent t' = tcontent t \<Longrightarrow> holds_tree t' c = holds_tree t c"
  using map_fst_tcontent [of t] map_fst_tcontent [of t']
  by (simp add: holds_tree_def tree_ok_def content_def gmap_ok_def)

lemma tcontent_clamp_walk: "tcontent (fst (clamp_walk ctx i c e t)) = tcontent t"
  by (induction ctx i c e t rule: clamp_walk.induct)
    (auto simp: tcontent_def clamp_def case_prod_beta split: option.split)

lemma tcontent_ClampMtime: "tcontent (fst (ClampMtime ctx t c e)) = tcontent t"
proof (cases t)
  case (Cons x es)
  obtain p n where x: "x = (p, n)" by (cases x)
  have "tcontent (fst (ClampMtime ctx t c e)) = tcontent ((p, clamp c e n) # es)"
    by (simp only: ClampMtime_def Cons x list.case prod.case tcontent_clamp_walk)
  then show ?thesis by (simp add: Cons x tcontent_def clamp_def)
qed (simp add: ClampMtime_def)

lemma map_of_overlay: "gmap_ok new \<Longrightarrow> map_of (overlay old new) = map_of old ++ map_of new"
  unfolding overlay_def gmap_ok_def
proof (induction new arbitrary: old)
  case (Cons x new)
  obtain k v where x: "x = (k, v)" by (cases x)
  with Cons.prems have k: "map_of new k = None" by (simp add: map_of_eq_None_iff)
  have "map_of (fold (\<lambda>(k, v) m. gset k v m) (x # new) old) = (map_of old)(k \<mapsto> v) ++ map_of new"
    using Cons by (simp add: x)
  also have "\<dots> = map_of old ++ map_of (x # new)"
    using k by (auto simp: x fun_eq_iff map_add_def split: option.split)
  finally show ?case .
qed simp

lemma gmap_ok_overlay: "gmap_ok old \<Longrightarrow> gmap_ok (overlay old new)"
  unfolding overlay_def by (induction new arbitrary: old) auto

lemma content_eq: "content t p = map_option fn_data (map_of t p)"
  unfolding content_def tcontent_def by (induction t) auto

lemma holds_tree_overlay:
  assumes "holds_tree new c" "holds_tree old empty_root"
  shows "holds_tree (overlay old new) c"
proof -
  have "content (overlay old new) p = c p" for p
  proof (cases "map_of new p")
    case None
    with assms(1) have "c p = None" "p \<noteq> []" by (auto simp: holds_tree_def tree_ok_def content_eq)
    moreover from \<open>p \<noteq> []\<close> assms(2) have "map_of old p = None"
      by (metis content_eq empty_root_def fun_upd_apply holds_tree_def map_option_is_None)
    ultimately show ?thesis
      using assms(1) None by (simp add: content_eq map_of_overlay holds_tree_def tree_ok_def map_add_def)
  qed (use assms(1) in \<open>auto simp: content_eq map_of_overlay holds_tree_def tree_ok_def\<close>)
  then have "content (overlay old new) = c" by (rule ext)
  moreover have "c [] \<noteq> None" using assms(1) by (auto simp: holds_tree_def tree_ok_def)
  ultimately show ?thesis
    using assms(2) by (simp add: holds_tree_def tree_ok_def gmap_ok_overlay)
qed

section \<open>Sound stores\<close>

definition disk_sound :: "(string \<Rightarrow> string \<rightharpoonup> string) \<Rightarrow> sstore \<Rightarrow> bool" where
  "disk_sound D st \<longleftrightarrow> (\<forall>i t. tree_of st i = Some t \<longrightarrow> holds_tree t (D i))"

text \<open>An in-memory object in read mode: in the cache, or finalized in its stage directory.\<close>

definition sound_ob :: "(string \<Rightarrow> string \<rightharpoonup> string) \<Rightarrow> (string, datadir) gmap \<Rightarrow> string \<Rightarrow> object \<Rightarrow> bool" where
  "sound_ob D stage i ob \<longleftrightarrow> (ob_mode ob = ModeRead \<longrightarrow>
     (\<forall>j. ob_path ob = InObjects j \<longrightarrow> D j = D i)
     \<and> (\<forall>v d. ob_path ob = InStage v \<longrightarrow> map_of stage v = Some d \<longrightarrow> holds_tree (dd_tree d) (D i)))"

definition mem_sound :: "(string \<Rightarrow> string \<rightharpoonup> string) \<Rightarrow> sstore \<Rightarrow> bool" where
  "mem_sound D st \<longleftrightarrow> (\<forall>i a. map_of (s_objs st) i = Some a \<longrightarrow> a < s_next st \<and> sound_ob D (d_stage st) i (s_heap st a))"

lemma mem_soundD:
  assumes "mem_sound D st" "map_of (s_objs st) i = Some a"
  shows "a < s_next st" "sound_ob D (d_stage st) i (s_heap st a)"
  using assms by (simp_all add: mem_sound_def)

text \<open>The object being built is the only one in its stage directory, and the tree there.\<close>

definition owns :: "sstore \<Rightarrow> nat \<Rightarrow> string \<Rightarrow> bool" where
  "owns st a u \<longleftrightarrow> writing st a u \<and> (\<forall>b < s_next st. b \<noteq> a \<longrightarrow> ob_path (s_heap st b) \<noteq> InStage u)"

definition at_stage :: "sstore \<Rightarrow> string \<Rightarrow> (string \<rightharpoonup> string) \<Rightarrow> bool" where
  "at_stage st u c \<longleftrightarrow> (\<exists>d. map_of (d_stage st) u = Some d \<and> holds_tree (dd_tree d) c)"

definition fresh_uuid :: "string \<Rightarrow> sstore \<Rightarrow> bool" where
  "fresh_uuid u st \<longleftrightarrow> (\<forall>b < s_next st. ob_path (s_heap st b) \<noteq> InStage u)"

lemma disk_sound_sub:
  assumes "disk_sound D st" "\<And>j. tree_of st' j = None \<or> tree_of st' j = tree_of st j"
  shows "disk_sound D st'"
  unfolding disk_sound_def
proof (intro allI impI)
  fix i t assume "tree_of st' i = Some t"
  with assms(2) [of i] have "tree_of st i = Some t" by simp
  with assms(1) show "holds_tree t (D i)" by (simp add: disk_sound_def)
qed

lemma disk_sound_same: "disk_sound D st \<Longrightarrow> d_objects st' = d_objects st \<Longrightarrow> disk_sound D st'"
  using tree_of_objects [of st' st] by (simp add: disk_sound_def)

lemma mem_sound_step:
  assumes "mem_sound D st" "s_objs st' = s_objs st" "s_next st \<le> s_next st'"
    and "\<And>i b. map_of (s_objs st) i = Some b \<Longrightarrow> b \<noteq> a \<Longrightarrow> s_heap st' b = s_heap st b"
    and "\<And>i b v. map_of (s_objs st) i = Some b \<Longrightarrow> b \<noteq> a \<Longrightarrow> ob_path (s_heap st b) = InStage v \<Longrightarrow>
      map_of (d_stage st') v = map_of (d_stage st) v"
    and "\<And>i. map_of (s_objs st) i = Some a \<Longrightarrow> sound_ob D (d_stage st') i (s_heap st' a)"
  shows "mem_sound D st'"
  unfolding mem_sound_def
proof (intro allI impI conjI)
  fix i b assume "map_of (s_objs st') i = Some b"
  then have b: "map_of (s_objs st) i = Some b" using assms(2) by simp
  from mem_soundD(1) [OF assms(1) b] assms(3) show "b < s_next st'" by simp
  show "sound_ob D (d_stage st') i (s_heap st' b)"
  proof (cases "b = a")
    case False
    with assms(4) [OF b False] assms(5) [OF b False] mem_soundD(2) [OF assms(1) b]
    show ?thesis by (simp add: sound_ob_def)
  qed (use assms(6) b in simp)
qed

lemma Get_sound:
  assumes "disk_sound D st" "mem_sound D st"
  shows "disk_sound D (fst (Get E st i))" "mem_sound D (fst (Get E st i))"
proof -
  show "disk_sound D (fst (Get E st i))"
    using assms(1) by (simp add: disk_sound_def Get_tree)
  show "mem_sound D (fst (Get E st i))"
    unfolding mem_sound_def
  proof (intro allI impI conjI)
    fix j a assume "map_of (s_objs (fst (Get E st i))) j = Some a"
    then have a: "map_of (s_objs st) j = Some a" by simp
    note D = mem_soundD [OF assms(2) a]
    show "a < s_next (fst (Get E st i))" using D(1) Get_frame(6) [of st E i] by linarith
    show "sound_ob D (d_stage (fst (Get E st i))) j (s_heap (fst (Get E st i)) a)"
      using D by (simp add: Get_heap)
  qed
qed

text \<open>What a lookup returns in read mode holds the tree of the ID.\<close>

lemma Get_result:
  assumes "Get E st i = (st1, Inr (Some base))" "disk_sound D st" "mem_sound D st"
    and "ob_mode (s_heap st1 base) = ModeRead" "data_at st1 (ob_path (s_heap st1 base)) = Some d"
  shows "holds_tree (dd_tree d) (D i)"
proof -
  have sound: "disk_sound D st1" using Get_sound(1) [OF assms(2,3), of E i] assms(1) by simp
  have disk: "holds_tree (dd_tree d) (D j)" if "ob_path (s_heap st1 base) = InObjects j" for j
    using sound assms(5) that by (simp add: disk_sound_def tree_of_def)
  show ?thesis
  proof (cases "map_of (s_objs st) i")
    case (Some a)
    then have "st1 = st" "base = a" using assms(1) by (simp_all add: Get_in_memory)
    with mem_soundD(2) [OF assms(3) Some] assms(4,5) disk show ?thesis
      by (cases "ob_path (s_heap st1 base)") (auto simp: sound_ob_def data_at_InStage)
  next
    case None
    have "ob_path (s_heap st1 base) = InObjects i"
      using assms(1) None by (auto simp: Get_def Let_def alloc_def split: option.splits if_splits prod.splits)
    then show ?thesis by (rule disk)
  qed
qed

lemma owns_same: "same_but_stage u st st' \<Longrightarrow> owns st a u \<Longrightarrow> owns st' a u"
  by (simp add: owns_def same_but_stage_def writing_def)

lemma mem_sound_same:
  assumes "same_but_stage u st st'" "owns st a u" "mem_sound D st"
  shows "mem_sound D st'"
proof (rule mem_sound_step [OF assms(3), where a = a])
  fix i b v assume "map_of (s_objs st) i = Some b" "b \<noteq> a" "ob_path (s_heap st b) = InStage v"
  then have "v \<noteq> u" using assms(2) mem_soundD(1) [OF assms(3)] by (auto simp: owns_def)
  then show "map_of (d_stage st') v = map_of (d_stage st) v" using assms(1) by (simp add: same_but_stage_def)
next
  fix i
  show "sound_ob D (d_stage st') i (s_heap st' a)"
    using assms(1,2) by (simp add: owns_def writing_def same_but_stage_def sound_ob_def)
qed (use assms(1) in \<open>simp_all add: same_but_stage_def\<close>)

lemma at_stage_clamp:
  assumes "writing st a u" "at_stage st u c"
  shows "at_stage (fst (clamp_object E st (s_heap st a))) u c"
proof -
  obtain d where d: "map_of (d_stage st) u = Some d" "holds_tree (dd_tree d) c"
    using assms(2) by (auto simp: at_stage_def)
  have "holds_tree (fst (ClampMtime ctx (dd_tree d) x y)) c" for ctx x y
    using d(2) holds_tree_cong [OF tcontent_ClampMtime] by simp
  with d writingD(2) [OF assms(1)] show ?thesis
    by (auto simp: clamp_object_def case_prod_beta Let_def data_at_InStage at_stage_def split: option.split sum.split)
qed

section \<open>Commits\<close>

text \<open>The cases of a commit of the object being built.\<close>

lemma Commit_cases:
  assumes "Commit E st a i = (st2, e)" "owns st a u" "at_stage st u c" "e_ok E RemoveEntry"
  obtains (present) "e = None" "i = [] \<or> map_of (d_objects st) i \<noteq> None" "same_but_stage u st st2" "at_stage st2 u c"
  | (failed) e' where "e = Some e'" "\<And>j. tree_of st2 j = None \<or> tree_of st2 j = tree_of st j"
  | (placed) st0 od n d where "e = None" "i \<noteq> [] \<and> map_of (d_objects st) i = None" "same_but_stage u st st0"
      "st2 = commit_finish E (put_object i od st0) a i n" "od_data od = Some d" "holds_tree (dd_tree d) c"
proof -
  have w: "writing st a u" using assms(2) by (simp add: owns_def)
  note ob = writingD [OF w]
  define st0 where "st0 = fst (clamp_object E st (s_heap st a))"
  have same: "same_but_stage u st st0" unfolding st0_def using w by (rule clamp_writing)
  have at: "at_stage st0 u c" unfolding st0_def using w assms(3) by (rule at_stage_clamp)
  then obtain d where d: "map_of (d_stage st0) u = Some d" "holds_tree (dd_tree d) c" by (auto simp: at_stage_def)
  have objs: "d_objects st0 = d_objects st" "s_heap st0 = s_heap st" using same by (simp_all add: same_but_stage_def)
  have t0: "tree_of st0 j = tree_of st j" for j using tree_of_objects objs(1) by blast
  consider (ro) "s_readOnly st" | (pres) "\<not> s_readOnly st" "i = [] \<or> map_of (d_objects st) i \<noteq> None"
    | (new) "\<not> s_readOnly st" "i \<noteq> []" "map_of (d_objects st) i = None" by blast
  then show ?thesis
  proof cases
    case ro
    with assms(1) have "e = Some ReadOnly" "st2 = st" by (simp_all add: Commit_def)
    then show ?thesis by (intro failed) simp_all
  next
    case pres
    with Commit_present [of i st E a] assms(1) have "e = None" "st2 = st0" by (auto simp: st0_def)
    with pres same at show ?thesis by (intro present) simp_all
  next
    case new
    have n0: "map_of (d_objects st0) i = None" using new(3) objs(1) by simp
    have td: "tree_of (remove_entry E i (put_object i od st0)) j = None \<or> tree_of (remove_entry E i (put_object i od st0)) j = tree_of st j" for od j
      using n0 tree_of_cong [of "remove_entry E i (put_object i od st0)" j st0] t0 assms(4)
      by (cases "j = i") (simp_all add: tree_of_None)
    have dat: "data_at (put_object i od st0) (InStage u) = Some d" for od
      using d(1) by (simp add: data_at_InStage)
    have "(\<exists>e'. e = Some e' \<and> (st2 = st0 \<or> (\<exists>od. st2 = remove_entry E i (put_object i od st0))))
      \<or> (e = None \<and> (\<exists>od n. st2 = commit_finish E (put_object i od st0) a i n \<and> od_data od = Some d))"
      using assms(1) new(1,2) n0 unfolding Commit_def Let_def st0_def [symmetric] ob(2)
      by (auto simp: dat split: if_splits)
    then show ?thesis
    proof (elim disjE exE conjE)
      fix e' assume "e = Some e'" "st2 = st0"
      with t0 show ?thesis by (intro failed) simp_all
    next
      fix e' od assume "e = Some e'" "st2 = remove_entry E i (put_object i od st0)"
      with td show ?thesis by (intro failed) simp_all
    next
      fix od n assume "e = None" "st2 = commit_finish E (put_object i od st0) a i n" "od_data od = Some d"
      with new(2,3) same d(2) show ?thesis by (intro placed [of st0 od n d]) simp_all
    qed
  qed
qed

lemma evict_s_objs [simp]: "s_objs (fst (evict E objs n freed st)) = s_objs st"
proof (induction E objs n freed st rule: evict.induct)
  case (2 E name lastUsed objs n freed st)
  then show ?case by (auto simp: Let_def split: option.split)
qed simp

lemma commit_finish_s_objs [simp]: "s_objs (commit_finish E st a i n) = s_objs st"
  by (simp add: commit_finish_def commit_account_def removeLRU_def Let_def case_prod_beta)

lemma Commit_s_objs: "Commit E st a i = (st2, e) \<Longrightarrow> s_objs st2 = s_objs st"
  by (auto simp: Commit_def Let_def split: if_splits option.splits)

text \<open>After a commit under a new ID.\<close>

lemma Commit_placed:
  assumes "same_but_stage u st st0" "owns st a u" "od_data od = Some d" "holds_tree (dd_tree d) (D i)"
    and "disk_sound D st" "mem_sound D st" "map_of (d_objects st) i = None"
    and "\<And>k. map_of (s_objs st) k = Some a \<Longrightarrow> D i = D k" "e_ok E RemoveEntry"
  shows "disk_sound D (commit_finish E (put_object i od st0) a i n)"
    "mem_sound D (commit_finish E (put_object i od st0) a i n)"
    "ob_mode (s_heap (commit_finish E (put_object i od st0) a i n) a) = ModeRead"
    "ob_path (s_heap (commit_finish E (put_object i od st0) a i n) a) = InObjects i"
    "ob_stagePath (s_heap (commit_finish E (put_object i od st0) a i n) a) = None"
proof -
  let ?st1 = "put_object i od st0" and ?st2 = "commit_finish E (put_object i od st0) a i n"
  have w: "writing st a u" using assms(2) by (simp add: owns_def)
  have same: "s_heap st0 = s_heap st" "s_next st0 = s_next st" "s_objs st0 = s_objs st" "d_objects st0 = d_objects st"
    "\<And>v. v \<noteq> u \<Longrightarrow> map_of (d_stage st0) v = map_of (d_stage st) v"
    using assms(1) by (simp_all add: same_but_stage_def)
  have tree: "tree_of ?st1 j = (if j = i then Some (dd_tree d) else tree_of st j)" for j
    using assms(3) same(4) by (simp add: tree_of_def data_at_def)
  have "disk_sound D ?st1"
    unfolding disk_sound_def tree using assms(4,5) by (auto simp: disk_sound_def)
  moreover have "tree_of ?st2 j = None \<or> tree_of ?st2 j = tree_of ?st1 j" for j
    using commit_finish_removes [OF assms(9), of ?st1 a i n j] tree_of_cong [of ?st2 j ?st1] tree_of_None [of ?st2 j] by auto
  ultimately show "disk_sound D ?st2" by (rule disk_sound_sub)
  have heap: "s_heap ?st2 = (s_heap st)(a := (s_heap st a)\<lparr>ob_stagePath := None, ob_path := InObjects i, ob_mode := ModeRead\<rparr>)"
    by (simp add: same)
  then show "ob_mode (s_heap ?st2 a) = ModeRead" "ob_path (s_heap ?st2 a) = InObjects i" "ob_stagePath (s_heap ?st2 a) = None"
    by simp_all
  have stage: "map_of (d_stage ?st2) v = map_of (d_stage st) v" if "v \<noteq> u" for v
    using that writingD(4) [OF w] same by (simp add: commit_place_def Let_def)
  show "mem_sound D ?st2"
  proof (rule mem_sound_step [OF assms(6), where a = a])
    show "s_objs ?st2 = s_objs st" by (simp add: same)
    show "s_next st \<le> s_next ?st2" by (simp add: same put_object_def)
    fix k b v assume b: "map_of (s_objs st) k = Some b" "b \<noteq> a"
    show "s_heap ?st2 b = s_heap st b" using b by (simp add: same)
    show "map_of (d_stage ?st2) v = map_of (d_stage st) v" if "ob_path (s_heap st b) = InStage v"
      using assms(2) mem_soundD(1) [OF assms(6) b(1)] b(2) that by (intro stage) (auto simp: owns_def)
  next
    fix k assume "map_of (s_objs st) k = Some a"
    then show "sound_ob D (d_stage ?st2) k (s_heap ?st2 a)"
      using assms(8) by (simp add: sound_ob_def heap)
  qed
qed

section \<open>The build\<close>

text \<open>The stages of a pipeline do on trees what \<open>F\<close> does on contents, whatever the tree they run in.\<close>

definition stages_refine :: "(stage \<Rightarrow> (string \<rightharpoonup> string) \<Rightarrow> string \<rightharpoonup> string) \<Rightarrow> benv \<Rightarrow> pipeline \<Rightarrow> bool" where
  "stages_refine F B p \<longleftrightarrow> (\<forall>s \<in> set (pl_Stages p). \<forall>bt t c tree' w out err.
     be_run B s (pl_Runner p) bt t = (tree', w, Inr (0, out, err)) \<longrightarrow> holds_tree t c \<longrightarrow> holds_tree tree' (F s c))"

lemma stages_refineD:
  "stages_refine F B p \<Longrightarrow> s \<in> set (pl_Stages p) \<Longrightarrow> be_run B s (pl_Runner p) bt t = (tree', w, Inr (0, out, err)) \<Longrightarrow>
   holds_tree t c \<Longrightarrow> holds_tree tree' (F s c)"
  unfolding stages_refine_def by blast

text \<open>\<open>D\<close> gives the ID of a stage the tree of the pipeline up to it.\<close>

definition ids_denote :: "(string \<Rightarrow> string \<rightharpoonup> string) \<Rightarrow> (stage \<Rightarrow> (string \<rightharpoonup> string) \<Rightarrow> string \<rightharpoonup> string) \<Rightarrow> golib \<Rightarrow> pipeline \<Rightarrow> bool" where
  "ids_denote D F L p \<longleftrightarrow> (\<forall>k < length (pl_Stages p).
     D (Stage_ID L (pl_Stages p ! k)) = run_abstract F (take (Suc k) (pl_Stages p)))"

lemma run_abstract_Suc:
  "k < length ss \<Longrightarrow> run_abstract F (take (Suc k) ss) = F (ss ! k) (run_abstract F (take k ss))"
  by (simp add: run_abstract_def take_Suc_conv_app_nth)

lemma Init_at_stage:
  assumes "Object_Init E st a base = (st2, None)" "writing st a u" "at_stage st u empty_root"
    and "\<And>d. data_at st (ob_path (s_heap st base)) = Some d \<Longrightarrow> holds_tree (dd_tree d) c"
  shows "at_stage st2 u c"
proof -
  obtain d where d: "map_of (d_stage st) u = Some d" "holds_tree (dd_tree d) empty_root"
    using assms(3) by (auto simp: at_stage_def)
  obtain b where b: "data_at st (ob_path (s_heap st base)) = Some b"
    using assms(1) writingD [OF assms(2)] d(1)
    by (cases "data_at st (ob_path (s_heap st base))") (simp_all add: Object_Init_def Let_def data_at_InStage)
  then have "st2 = set_data (InStage u) (overlay_data d b) st"
    using assms(1) writingD [OF assms(2)] d(1)
    by (auto simp: Object_Init_def Let_def data_at_InStage split: if_splits)
  then show ?thesis
    using holds_tree_overlay [OF assms(4) [OF b] d(2)] by (simp add: at_stage_def overlay_data_def)
qed

lemma Object_Close_trees [simp]: "tree_of (Object_Close a st) j = tree_of st j"
  by (rule tree_of_objects) simp

lemma walk_back_trees:
  "writing st a u \<Longrightarrow> tree_of (fst (walk_back B L ss a n todo st)) j = tree_of st j"
proof (induction n arbitrary: todo st)
  case (Suc i)
  obtain st1 r where g: "Get (be_at B (AtWalk i)) st (Stage_ID L (ss ! i)) = (st1, r)" by fastforce
  have t1: "tree_of st1 j = tree_of st j" using Get_tree [of "be_at B (AtWalk i)" st _ j] g by (metis fst_conv)
  have w1: "writing st1 a u"
    using walk_keeps_writing [OF walk_keeps_Get Suc.prems] g by (metis fst_conv)
  note IH = Suc.IH [OF w1]
  show ?case
  proof (cases r)
    case (Inr b)
    show ?thesis
    proof (cases b)
      case (Some base)
      obtain st2 e where i: "Object_Init (be_at B (AtInit i)) st1 a base = (st2, e)" by fastforce
      then have "d_objects st2 = d_objects st1"
        using Init_writing [OF w1, of "be_at B (AtInit i)" base] by (simp add: same_but_stage_def)
      then have "tree_of st2 j = tree_of st1 j" by (rule tree_of_objects)
      then show ?thesis using IH t1 by (cases e) (simp_all add: g Inr Some i)
    qed (simp add: g Inr IH t1)
  qed (simp add: g t1)
qed simp

lemma walk_back_sound:
  assumes "walk_back B L ss a n todo st = (st', Inr todo')" "owns st a u" "disk_sound D st" "mem_sound D st"
    and "at_stage st u empty_root" "n \<le> length ss"
    and "\<And>k. k < n \<Longrightarrow> D (Stage_ID L (ss ! k)) = run_abstract F (take (Suc k) ss)"
  shows "\<exists>k \<le> n. todo' = todo @ rev [k..<n] \<and> owns st' a u \<and> mem_sound D st'
    \<and> at_stage st' u (run_abstract F (take k ss)) \<and> s_objs st' = s_objs st"
  using assms
proof (induction n arbitrary: todo st)
  case 0
  then show ?case by (simp add: run_abstract_def)
next
  case (Suc i)
  obtain st1 r where g: "Get (be_at B (AtWalk i)) st (Stage_ID L (ss ! i)) = (st1, r)" by fastforce
  have w: "writing st a u" using Suc.prems(2) by (simp add: owns_def)
  have keeps: "walk_keeps u st st1" "d_stage st1 = d_stage st" "s_objs st1 = s_objs st"
    using walk_keeps_Get [of u st "be_at B (AtWalk i)" "Stage_ID L (ss ! i)"]
      Get_frame(1,2) [where E = "be_at B (AtWalk i)" and st = st and i = "Stage_ID L (ss ! i)"] g
    by simp_all
  have sound: "disk_sound D st1" "mem_sound D st1" 
    using Get_sound [OF Suc.prems(3,4), of "be_at B (AtWalk i)" "Stage_ID L (ss ! i)"] g by simp_all
  have own: "owns st1 a u"
  proof -
    have "ob_path (s_heap st1 b) \<noteq> InStage u" if "b < s_next st1" "b \<noteq> a" for b
    proof (cases "b < s_next st")
      case True
      with Suc.prems(2) that keeps(1) show ?thesis by (simp add: owns_def walk_keeps_def)
    next
      case False
      with g that show ?thesis
        by (auto simp: Get_def Let_def alloc_def less_Suc_eq split: option.splits if_splits prod.splits)
    qed
    with walk_keeps_writing [OF keeps(1) w] show ?thesis by (simp add: owns_def)
  qed
  have at: "at_stage st1 u empty_root" using Suc.prems(5) keeps(2) by (simp add: at_stage_def)
  have next_: ?case if "walk_back B L ss a i (todo @ [i]) st1 = (st', Inr todo')"
  proof -
    from Suc.IH [OF that own sound at] Suc.prems(6,7) obtain k where "k \<le> i" "todo' = (todo @ [i]) @ rev [k..<i]"
      "owns st' a u" "mem_sound D st'" "at_stage st' u (run_abstract F (take k ss))" "s_objs st' = s_objs st1"
      by auto
    then show ?thesis using keeps(3) by (intro exI [of _ k]) simp
  qed
  show ?case
  proof (cases r)
    case (Inl e)
    with Suc.prems(1) g show ?thesis by simp
  next
    case (Inr b)
    show ?thesis
    proof (cases b)
      case None
      with Suc.prems(1) g Inr next_ show ?thesis by simp
    next
      case (Some base)
      show ?thesis
      proof (cases "ob_mode (s_heap st1 base) = ModeRead")
        case True
        obtain st2 e where i: "Object_Init (be_at B (AtInit i)) st1 a base = (st2, e)" by fastforce
        with Suc.prems(1) g Inr Some True have e: "e = None" "st' = st2" "todo' = todo" by (cases e; simp)+
        have w1: "writing st1 a u" using own by (simp add: owns_def)
        have same: "same_but_stage u st1 st2"
          using Init_writing [OF w1, of "be_at B (AtInit i)" base] i by simp
        have "at_stage st2 u (D (Stage_ID L (ss ! i)))"
        proof (rule Init_at_stage [OF i [unfolded e(1)] w1 at])
          fix d assume "data_at st1 (ob_path (s_heap st1 base)) = Some d"
          with g Inr Some True Suc.prems(3,4) show "holds_tree (dd_tree d) (D (Stage_ID L (ss ! i)))"
            by (intro Get_result [of "be_at B (AtWalk i)" st _ st1 base]) simp_all
        qed
        then show ?thesis
          using owns_same [OF same own] mem_sound_same [OF same own sound(2)] e Suc.prems(7) [of i] same keeps(3)
          by (intro exI [of _ "Suc i"]) (simp add: same_but_stage_def)
      next
        case False
        with Suc.prems(1) g Inr Some next_ show ?thesis by simp
      qed
    qed
  qed
qed

text \<open>A stage that does not come to a result leaves the cache alone.\<close>

lemma run_stage_objects:
  assumes "writing (bs_store b) a u"
  shows "d_objects (bs_store (fst (run_stage B L p bt a i b))) = d_objects (bs_store b)"
proof -
  note ob = writingD [OF assms]
  have "d_objects (close_writer E (s_heap (bs_store b) a) w (stage_writes (s_heap (bs_store b) a) t (bs_store b)))
      = d_objects (bs_store b)" for E w t
    by (auto simp: close_writer_def stage_writes_def ob split: option.split)
  then show ?thesis
    by (auto simp: run_stage_def Let_def case_prod_beta split: option.split sum.split)
qed

lemma run_stages_stuck:
  assumes "meta_at (bs_store b) (ob_meta (s_heap (bs_store b) a)) = None" "todo \<noteq> []"
    "run_stages B L p bt a todo results b = (b', r)"
  shows "(\<exists>e. r = Inl e) \<and> d_objects (bs_store b') = d_objects (bs_store b)"
proof -
  obtain i todo' where t: "todo = i # todo'" using assms(2) by (cases todo) auto
  have "\<exists>b1 e. run_stage B L p bt a i b = (b1, Inl e) \<and> d_objects (bs_store b1) = d_objects (bs_store b)"
    using assms(1) by (cases "be_ctx B i") (auto simp: run_stage_def Let_def meta_Write_def)
  then show ?thesis using assms(3) by (auto simp: t)
qed

lemma run_stages_sound:
  assumes "run_stages B L p bt a [m..<length (pl_Stages p)] results b = (b', r)"
    and "owns (bs_store b) a u" "disk_sound D (bs_store b)" "mem_sound D (bs_store b)"
    and "at_stage (bs_store b) u (run_abstract F (take m (pl_Stages p)))" "m \<le> length (pl_Stages p)"
    and "stages_refine F B p" "ids_denote D F L p"
    and "\<And>k. map_of (s_objs (bs_store b)) k = Some a \<Longrightarrow> D k = run_abstract F (pl_Stages p)" "removes B"
  shows "disk_sound D (bs_store b') \<and> (\<forall>rs. r = Inr (True, rs) \<longrightarrow> mem_sound D (bs_store b')
     \<and> s_objs (bs_store b') = s_objs (bs_store b)
     \<and> (owns (bs_store b') a u \<and> at_stage (bs_store b') u (run_abstract F (pl_Stages p))
        \<or> ob_mode (s_heap (bs_store b') a) = ModeRead))"
  using assms(1-6,9)
proof (induction "length (pl_Stages p) - m" arbitrary: m results b)
  case 0
  then show ?case by simp
next
  case (Suc x)
  let ?ss = "pl_Stages p" and ?n = "length (pl_Stages p)"
  have m: "m < ?n" "[m..<?n] = m # [Suc m..<?n]" using Suc(2) by (simp_all add: upt_conv_Cons)
  have w: "writing (bs_store b) a u" using Suc.prems(2) by (simp add: owns_def)
  have run: "run_stages B L p bt a (m # [Suc m..<?n]) results b = (b', r)" using Suc.prems(1) m(2) by simp
  obtain b0 q where q: "run_stage B L p bt a m b = (b0, q)" by fastforce
  have d0: "d_objects (bs_store b0) = d_objects (bs_store b)" using run_stage_objects [OF w, of B L p bt m] q by simp
  have disk0: "disk_sound D (bs_store b0)" using Suc.prems(3) d0 by (rule disk_sound_same)
  show ?case
  proof (cases q)
    case (Inl e)
    with run q disk0 show ?thesis by auto
  next
    case (Inr res)
    obtain d d' tree' written code out err where d: "map_of (d_stage (bs_store b)) u = Some d"
      and be: "be_run B (?ss ! m) (pl_Runner p) bt (dd_tree d) = (tree', written, Inr (code, out, err))"
      and res: "res = \<lparr>br_Stage = ?ss ! m, br_ReturnCode = code, br_Output = out, br_Error = err\<rparr>"
      and d': "map_of (d_stage (bs_store b0)) u = Some d'" "dd_tree d' = tree'"
      and same: "same_but_stage u (bs_store b) (bs_store b0)"
      using q [unfolded Inr] w by (rule run_stage_tree)
    have own0: "owns (bs_store b0) a u" using same Suc.prems(2) by (rule owns_same)
    have mem0: "mem_sound D (bs_store b0)" using same Suc.prems(2,4) by (rule mem_sound_same)
    have objs0: "s_objs (bs_store b0) = s_objs (bs_store b)" using same by (simp add: same_but_stage_def)
    show ?thesis
    proof (cases "Success res")
      case False
      with run q Inr disk0 show ?thesis by (auto intro: disk_sound_same)
    next
      case True
      then have "code = 0" by (simp add: Success_def res)
      moreover have "holds_tree (dd_tree d) (run_abstract F (take m ?ss))"
        using Suc.prems(5) d by (simp add: at_stage_def)
      ultimately have "holds_tree tree' (run_abstract F (take (Suc m) ?ss))"
        using stages_refineD [OF assms(7) nth_mem [OF m(1)]] be unfolding run_abstract_Suc [OF m(1)] by blast
      then have at0: "at_stage (bs_store b0) u (run_abstract F (take (Suc m) ?ss))"
        using d' by (simp add: at_stage_def)
      have IH: ?thesis if st: "same_but_stage u (bs_store b0) st" "at_stage st u (run_abstract F (take (Suc m) ?ss))"
        and rec: "run_stages B L p bt a [Suc m..<?n] (results @ [res]) (with_store st b0) = (b', r)" for st
      proof -
        have "x = ?n - Suc m" using Suc(2) by simp
        from Suc.hyps(1) [OF this rec] st own0 mem0 disk0 objs0 m(1) Suc.prems(7)
          owns_same [OF st(1) own0] mem_sound_same [OF st(1) own0 mem0] disk_sound_same [OF disk0]
        show ?thesis by (simp add: same_but_stage_def)
      qed
      show ?thesis
      proof (cases "st_Checkpoint (?ss ! m)")
        case False
        with run q Inr True have "run_stages B L p bt a [Suc m..<?n] (results @ [res]) (with_store (bs_store b0) b0) = (b', r)"
          by (simp add: with_store_def)
        from IH [OF same_but_stage_refl at0 this] show ?thesis .
      next
        case check: True
        let ?id = "Stage_ID L (?ss ! m)" and ?E = "be_at B (AtStage m)"
        have Did: "D ?id = run_abstract F (take (Suc m) ?ss)" using assms(8) m(1) by (simp add: ids_denote_def)
        obtain st2 e where c: "Commit ?E (bs_store b0) a ?id = (st2, e)" by fastforce
        have rm: "e_ok ?E RemoveEntry" using assms(10) by (simp add: removes_def)
        from c own0 at0 rm show ?thesis
        proof (cases rule: Commit_cases)
          case present
          from run q Inr True check c present(1)
          have "run_stages B L p bt a [Suc m..<?n] (results @ [res]) (with_store st2 b0) = (b', r)" by simp
          from IH [OF present(3,4) this] show ?thesis .
        next
          case (failed e')
          then have "disk_sound D st2" using disk0 by (blast intro: disk_sound_sub)
          with run q Inr True check c failed(1) show ?thesis by (auto intro: disk_sound_same)
        next
          case (placed st0 od n dd)
          have rec: "run_stages B L p bt a [Suc m..<?n] (results @ [res]) (with_store st2 b0) = (b', r)"
            using run q Inr True check c placed(1) by simp
          have gone: "meta_at st2 (ob_meta (s_heap st2 a)) = None"
            using c placed(1,2) own0 by (intro Commit_new_meta_gone [of ?E "bs_store b0" a ?id st2 u]) (simp_all add: owns_def)
          show ?thesis
          proof (cases "[Suc m..<?n] = []")
            case False
            have hD: "holds_tree (dd_tree dd) (D ?id)" using placed(6) Did by simp
            have "disk_sound D st2"
            proof -
              have t: "tree_of (put_object ?id od st0) j = (if j = ?id then Some (dd_tree dd) else tree_of (bs_store b0) j)" for j
                using placed(3,5) by (simp add: tree_of_def data_at_def same_but_stage_def)
              have "disk_sound D (put_object ?id od st0)"
                unfolding disk_sound_def t using hD disk0 by (auto simp: disk_sound_def)
              moreover have "tree_of st2 j = None \<or> tree_of st2 j = tree_of (put_object ?id od st0) j" for j
                using commit_finish_removes [OF rm, of "put_object ?id od st0" a ?id n j]
                  tree_of_cong [of st2 j "put_object ?id od st0"] tree_of_None [of st2 j] placed(4) by auto
              ultimately show ?thesis by (rule disk_sound_sub)
            qed
            then show ?thesis
              using run_stages_stuck [of "with_store st2 b0" a, OF _ False rec] gone by (auto intro: disk_sound_same)
          next
            case True
            then have last: "Suc m = ?n" using m(1) by auto
            then have all: "take (Suc m) ?ss = ?ss" by simp
            have hD: "holds_tree (dd_tree dd) (D ?id)" using placed(6) Did by simp
            have key: "D ?id = D k" if "map_of (s_objs (bs_store b0)) k = Some a" for k
              using Suc.prems(7) [of k] that objs0 Did all by simp
            note P = Commit_placed [OF placed(3) own0 placed(5) hD disk0 mem0 conjunct2 [OF placed(2)] key rm, of n, folded placed(4)]
            have so: "s_objs st2 = s_objs (bs_store b0)"
              using c by (rule Commit_s_objs)
            have "bs_store b' = st2" using rec True by auto
            then show ?thesis using P so objs0 by simp
          qed
        qed
      qed
    qed
  qed
qed

lemma New_sound:
  assumes "New_object E st u i = (st', Inr a)" "mem_sound D st" "disk_sound D st" "fresh_uuid u st"
  shows "mem_sound D (set_epoch a e st')" "disk_sound D (set_epoch a e st')" "owns (set_epoch a e st') a u"
    "at_stage (set_epoch a e st') u empty_root"
proof -
  note N = New_writing [OF assms(1), where e = e]
  have a: "a = s_next st"
    using assms(1) by (auto simp: New_object_def Let_def alloc_def split: if_splits prod.splits option.splits)
  show "disk_sound D (set_epoch a e st')" using assms(3) N(3) by (rule disk_sound_same)
  show "owns (set_epoch a e st') a u"
    using N(1,5,6) assms(4) a by (auto simp: owns_def fresh_uuid_def less_Suc_eq)
  show "at_stage (set_epoch a e st') u empty_root"
    using N(7) by (auto simp: at_stage_def holds_tree_def tree_ok_def gmap_ok_def content_eq fun_eq_iff empty_root_def)
  show "mem_sound D (set_epoch a e st')"
    unfolding mem_sound_def
  proof (intro allI impI conjI)
    fix k b assume k: "map_of (s_objs (set_epoch a e st')) k = Some b"
    show "b < s_next (set_epoch a e st')"
      using k N(2,6) a mem_soundD(1) [OF assms(2)] by (auto split: if_splits intro: less_SucI)
    show "sound_ob D (d_stage (set_epoch a e st')) k (s_heap (set_epoch a e st') b)"
    proof (cases "b = a")
      case True
      then show ?thesis using writingD(5) [OF N(1)] by (simp add: sound_ob_def)
    next
      case False
      with k N(2) have k0: "map_of (s_objs st) k = Some b" by (auto split: if_splits)
      note D = mem_soundD [OF assms(2) k0]
      have "ob_path (s_heap st b) \<noteq> InStage u" using assms(4) D(1) by (simp add: fresh_uuid_def)
      then show ?thesis using D N(5) [OF D(1)] N(8) by (auto simp: sound_ob_def)
    qed
  qed
qed

lemma build_tree_of_sound:
  assumes "build_tree_of B p st = (st1, r)" "disk_sound D st" "mem_sound D st" "fresh_uuid u st"
  shows "disk_sound D st1 \<and> mem_sound D st1 \<and> fresh_uuid u st1"
proof (cases "pl_Build p")
  case None
  obtain st2 e where g: "GetHostTree (be_at B AtBuildTree) st = (st2, e)" by fastforce
  then have "d_objects st2 = d_objects st" "d_stage st2 = d_stage st" "s_objs st2 = s_objs st" "s_heap st2 = s_heap st"
    "s_next st2 = s_next st"
    by (auto simp: GetHostTree_def split: if_splits)
  moreover have "st1 = st2" using assms(1) g None by (cases e) (simp_all add: build_tree_of_def)
  ultimately show ?thesis
    using assms(3,4) disk_sound_same [OF assms(2)] by (simp add: mem_sound_def fresh_uuid_def)
next
  case (Some bid)
  obtain st2 q where g: "Get (be_at B AtBuildTree) st bid = (st2, q)" by fastforce
  then have "disk_sound D st2" "mem_sound D st2" using Get_sound [OF assms(2,3), of "be_at B AtBuildTree" bid] by simp_all
  moreover have "fresh_uuid u st2"
    using g assms(4)
    by (auto simp: fresh_uuid_def Get_def Let_def alloc_def less_Suc_eq split: option.splits if_splits prod.splits)
  moreover have "st1 = st2"
    using assms(1) g Some by (cases q; cases "projr q") (simp_all add: build_tree_of_def)
  ultimately show ?thesis by simp
qed

lemma finalize_sound:
  assumes "Object_Finalize E st a = (st', e)" "disk_sound D st"
    and "owns st a u \<and> at_stage st u c \<or> ob_mode (s_heap st a) = ModeRead"
    and "\<And>k. map_of (s_objs st) k = Some a \<Longrightarrow> D k = c"
  shows "disk_sound D st'" "mem_sound D st \<Longrightarrow> mem_sound D st'"
proof -
  have "disk_sound D st' \<and> (mem_sound D st \<longrightarrow> mem_sound D st')"
  proof (cases "ob_mode (s_heap st a) = ModeRead")
    case True
    with assms(1,2) show ?thesis by (simp add: Object_Finalize_def Let_def)
  next
    case False
    then have own: "owns st a u" and at: "at_stage st u c" using assms(3) by auto
    have w: "writing st a u" using own by (simp add: owns_def)
    obtain st1 q where c: "clamp_object E st (s_heap st a) = (st1, q)" by fastforce
    have same: "same_but_stage u st st1" using clamp_writing [OF w, of E] c by simp
    have at1: "at_stage st1 u c" using at_stage_clamp [OF w at, of E] c by simp
    have disk1: "disk_sound D st1" using assms(2) same by (auto intro: disk_sound_same simp: same_but_stage_def)
    have mem1: "mem_sound D st1" if "mem_sound D st" using same own that by (rule mem_sound_same)
    show ?thesis
    proof (cases q)
      case (Some e')
      with assms(1) c False disk1 mem1 show ?thesis
        by (cases "ob_mode (s_heap st a)") (auto simp: Object_Finalize_def Let_def)
    next
      case None
      have st': "st' = st1\<lparr>s_heap := (s_heap st1)(a := (s_heap st a)\<lparr>ob_mode := ModeRead\<rparr>)\<rparr>"
        using assms(1) c False None by (cases "ob_mode (s_heap st a)") (auto simp: Object_Finalize_def Let_def)
      have "disk_sound D st'" using disk1 by (rule disk_sound_same) (simp add: st')
      moreover have "mem_sound D st'" if "mem_sound D st"
      proof (rule mem_sound_step [OF mem1 [OF that], where a = a])
        fix i assume "map_of (s_objs st1) i = Some a"
        then have "D i = c" using assms(4) same by (simp add: same_but_stage_def)
        then show "sound_ob D (d_stage st') i (s_heap st' a)"
          using at1 writingD(2) [OF w] by (auto simp: st' sound_ob_def at_stage_def)
      qed (simp_all add: st')
      ultimately show ?thesis by blast
    qed
  qed
  then show "disk_sound D st'" "mem_sound D st \<Longrightarrow> mem_sound D st'" by blast+
qed

lemma build_in_sound:
  assumes "build_in B L p bt a b = (b', r)" "owns (bs_store b) a u" "disk_sound D (bs_store b)" "mem_sound D (bs_store b)"
    and "at_stage (bs_store b) u empty_root" "stages_refine F B p" "ids_denote D F L p"
    and "removes B" and key: "\<And>k. map_of (s_objs (bs_store b)) k = Some a \<Longrightarrow> D k = run_abstract F (pl_Stages p)"
  shows "disk_sound D (bs_store b') \<and> (\<forall>res. r = Inr res \<longrightarrow> pr_success res \<longrightarrow> mem_sound D (bs_store b'))"
proof -
  let ?ss = "pl_Stages p" and ?n = "length (pl_Stages p)"
  have w: "writing (bs_store b) a u" using assms(2) by (simp add: owns_def)
  obtain st1 q where walk: "walk_back B L ?ss a ?n [] (bs_store b) = (st1, q)" by fastforce
  have disk1: "disk_sound D st1"
    using walk_back_trees [OF w, of B L ?ss ?n "[]"] walk assms(3) by (simp add: disk_sound_def)
  show ?thesis
  proof (cases q)
    case (Inl e)
    with assms(1) walk disk1 show ?thesis by (auto simp: build_in_def)
  next
    case (Inr todo)
    obtain k where k: "k \<le> ?n" "todo = rev [k..<?n]" "owns st1 a u" "mem_sound D st1"
      "at_stage st1 u (run_abstract F (take k ?ss))" "s_objs st1 = s_objs (bs_store b)"
      using walk_back_sound [OF walk [unfolded Inr] assms(2,3,4,5) order_refl, of F] assms(7)
      by (auto simp: ids_denote_def)
    obtain b2 q2 where run: "run_stages B L p bt a [k..<?n] [] (with_store st1 b) = (b2, q2)" by fastforce
    have R: "disk_sound D (bs_store b2) \<and> (\<forall>rs. q2 = Inr (True, rs) \<longrightarrow> mem_sound D (bs_store b2)
       \<and> s_objs (bs_store b2) = s_objs st1
       \<and> (owns (bs_store b2) a u \<and> at_stage (bs_store b2) u (run_abstract F ?ss) \<or> ob_mode (s_heap (bs_store b2) a) = ModeRead))"
      using run_stages_sound [OF run, of u D F] k disk1 assms(6,7,8) key by simp
    show ?thesis
    proof (cases "\<exists>rs. q2 = Inr (True, rs)")
      case False
      then have "b' = b2 \<and> (\<forall>res. r = Inr res \<longrightarrow> \<not> pr_success res)"
        using assms(1) walk Inr run k(2) by (auto simp: build_in_def split: sum.splits prod.splits bool.splits)
      with R show ?thesis by auto
    next
      case True
      then obtain rs where rs: "q2 = Inr (True, rs)" by blast
      obtain st3 e where f: "Object_Finalize (be_at B AtFinalize) (bs_store b2) a = (st3, e)" by fastforce
      have b': "bs_store b' = (case e of None \<Rightarrow> st3 | Some _ \<Rightarrow> Object_Close a st3)"
        and r: "e \<noteq> None \<longrightarrow> (\<exists>x. r = Inl x)"
        using assms(1) walk Inr run k(2) rs f by (auto simp: build_in_def split: option.splits)
      have "disk_sound D st3" "mem_sound D st3"
        using finalize_sound [OF f, of D u "run_abstract F ?ss"] R rs key k(6) by auto
      with b' r show ?thesis by (auto split: option.splits simp: disk_sound_def)
    qed
  qed
qed

lemma ids_denote_pipeline:
  "ids_denote D F L p \<Longrightarrow> pl_Stages p \<noteq> [] \<Longrightarrow> D (Pipeline_ID L p) = run_abstract F (pl_Stages p)"
  by (auto simp: ids_denote_def Pipeline_ID_def last_conv_nth)

lemma BuildPipeline_sound:
  assumes "BuildPipeline B L p b = (b', r)" "disk_sound D (bs_store b)" "mem_sound D (bs_store b)"
    and "fresh_uuid (be_uuid B) (bs_store b)" "stages_refine F B p" "ids_denote D F L p" "removes B"
  shows "disk_sound D (bs_store b') \<and> (\<forall>res. r = Inr res \<longrightarrow> pr_success res \<longrightarrow> mem_sound D (bs_store b'))"
proof -
  note pid = ids_denote_pipeline [OF assms(6)]
  show ?thesis
  proof (cases "pl_Stages p = [] \<or> Contains (bs_store b) (Pipeline_ID L p)")
    case True
    then have "b' = b" using assms(1) by (auto simp: BuildPipeline_def Let_def split: if_splits)
    then show ?thesis using assms(2,3) by simp
  next
    case False
    obtain st1 q1 where q1: "build_tree_of B p (bs_store b) = (st1, q1)" by fastforce
    note S1 = build_tree_of_sound [OF q1 assms(2,3,4)]
    show ?thesis
    proof (cases q1)
      case (Inl e)
      with assms(1) False q1 S1 show ?thesis by (auto simp: BuildPipeline_def Let_def)
    next
      case (Inr bt)
      obtain st2 q2 where q2: "New_object (be_at B AtNew) st1 (be_uuid B) (Pipeline_ID L p) = (st2, q2)" by fastforce
      show ?thesis
      proof (cases q2)
        case Inl2: (Inl e)
        have "st2 = st1"
          using q2 Inl2 by (auto simp: New_object_def Let_def alloc_def split: if_splits prod.splits option.splits)
        with assms(1) False q1 Inr q2 Inl2 S1 show ?thesis by (auto simp: BuildPipeline_def Let_def)
      next
        case Inr2: (Inr a)
        note S2 = New_sound [OF q2 [unfolded Inr2], of D "pl_SourceEpoch p"]
        define b1 where "b1 = with_store (set_epoch a (pl_SourceEpoch p) st2) b"
        have bi: "build_in B L p bt a b1 = (b', r)"
          using assms(1) False q1 Inr q2 Inr2 by (simp add: BuildPipeline_def Let_def b1_def)
        have key: "k = Pipeline_ID L p" if "map_of (s_objs (bs_store b1)) k = Some a" for k
        proof (rule ccontr)
          assume "k \<noteq> Pipeline_ID L p"
          with that New_writing(2) [OF q2 [unfolded Inr2]] have k: "map_of (s_objs st1) k = Some a" by (simp add: b1_def)
          have "a = s_next st1"
            using q2 Inr2 by (auto simp: New_object_def Let_def alloc_def split: if_splits prod.splits option.splits)
          moreover have "mem_sound D st1" using S1 by blast
          ultimately show False using mem_soundD(1) [OF _ k] by blast
        qed
        show ?thesis
          by (rule build_in_sound [OF bi, where F = F and u = "be_uuid B"])
            (use S1 S2 assms(5,6,7) False pid key in \<open>auto simp: b1_def\<close>)
      qed
    qed
  qed
qed

text \<open>C6: Building a pipeline on top of a sound store keeps it sound, whether it succeeds, fails or is cut
  off by an error: what the cache then holds under any ID is the tree of that ID. When it succeeds,
  a lookup of the pipeline's ID gives a tree with the contents its stages produce one after the other
  from an empty root, also when the build started from a checkpoint, and also after clamping.
  (What commits and evictions remove can be removed: a failed removal leaves a part of an entry.)\<close>

theorem BuildPipeline_refines:
  assumes "BuildPipeline B L p b = (b', r)" "disk_sound D (bs_store b)" "mem_sound D (bs_store b)"
    and "fresh_uuid (be_uuid B) (bs_store b)" "stages_refine F B p" "ids_denote D F L p" "removes B"
  shows "disk_sound D (bs_store b') \<and> (\<forall>res. r = Inr res \<and> pr_success res \<longrightarrow> mem_sound D (bs_store b')
    \<and> (\<forall>E st a d. pl_Stages p \<noteq> [] \<and> Get E (bs_store b') (Pipeline_ID L p) = (st, Inr (Some a))
        \<and> ob_mode (s_heap st a) = ModeRead \<and> data_at st (ob_path (s_heap st a)) = Some d
        \<longrightarrow> holds_tree (dd_tree d) (run_abstract F (pl_Stages p))))"
  using BuildPipeline_sound [OF assms] Get_result ids_denote_pipeline [OF assms(6)] by (fastforce intro: conjI)

text \<open>A pipeline of one stage that succeeds.\<close>

definition demo_one :: pipeline where
  "demo_one = demo_two\<lparr>pl_Stages := [demo_stage NewOrderedMap]\<rparr>"

lemma demo_one_run:
  obtains b' res where "BuildPipeline (demo_build_env 0) L demo_one demo_bstate = (b', Inr res)" "pr_success res"
proof -
  let ?s = "demo_stage NewOrderedMap" and ?B = "demo_build_env 0"
  let ?id = "Stage_ID L ?s"
  have p: "pl_Stages demo_one = [?s]" "Pipeline_ID L demo_one = ?id" "pl_Build demo_one = None"
    "pl_SourceEpoch demo_one = None" "pl_Name demo_one = ''os''" "\<not> st_Checkpoint ?s"
    by (simp_all add: demo_one_def demo_two_def Pipeline_ID_def demo_stage_def)
  obtain st where new: "New_object demo_env (bs_store demo_bstate) ''v'' ?id = (st, Inr 0)" "set_epoch 0 None st = demo_created ?id"
    by (rule demo_created)
  have walk: "walk_back ?B L (pl_Stages demo_one) 0 (length (pl_Stages demo_one)) [] (demo_created ?id) = (demo_created ?id, Inr [0])"
    by (simp add: p Get_def)
  have "snd (run_stage ?B L demo_one Host 0 0 (with_store (demo_created ?id) demo_bstate))
      = Inr \<lparr>br_Stage = ?s, br_ReturnCode = 0, br_Output = [], br_Error = None\<rparr>"
    by (simp add: run_stage_def p meta_Write_def meta_at_def Let_def) (simp add: demo_env_def)
  then obtain b1 where run: "run_stage ?B L demo_one Host 0 0 (with_store (demo_created ?id) demo_bstate)
      = (b1, Inr \<lparr>br_Stage = ?s, br_ReturnCode = 0, br_Output = [], br_Error = None\<rparr>)"
    by (metis prod.collapse)
  have w: "writing (demo_created ?id) 0 ''v''" by (simp add: writing_def) (simp add: demo_created_def)
  have "same_but_stage ''v'' (demo_created ?id) (bs_store b1)"
    by (rule run_stage_tree [OF run, of "''v''"]) (use w in simp_all)
  then have "s_heap (bs_store b1) 0 = s_heap (demo_created ?id) 0" by (simp add: same_but_stage_def)
  then obtain st4 where fin: "Object_Finalize demo_env (bs_store b1) 0 = (st4, None)"
    by (simp add: Object_Finalize_def Let_def clamp_object_def)
  have "\<not> Contains (bs_store demo_bstate) ?id" by (simp add: Contains_def demo_bstate_def)
  moreover have "build_tree_of ?B demo_one (bs_store demo_bstate) = (bs_store demo_bstate, Inr Host)"
    by (simp add: build_tree_of_def p GetHostTree_def) (simp add: demo_bstate_def)
  moreover have "snd (build_in ?B L demo_one Host 0 (with_store (demo_created ?id) demo_bstate))
      = Inr \<lparr>pr_success = True, pr_name = ''os'',
          pr_stages = Some [\<lparr>br_Stage = ?s, br_ReturnCode = 0, br_Output = [], br_Error = None\<rparr>]\<rparr>"
  proof -
    have w: "with_store (demo_created ?id) (with_store (demo_created ?id) demo_bstate) = with_store (demo_created ?id) demo_bstate"
      by (simp add: with_store_def)
    show ?thesis unfolding build_in_def emit_simps walk by (simp add: w run Success_def p fin)
  qed
  ultimately have "snd (BuildPipeline ?B L demo_one demo_bstate) = Inr \<lparr>pr_success = True, pr_name = ''os'',
          pr_stages = Some [\<lparr>br_Stage = ?s, br_ReturnCode = 0, br_Output = [], br_Error = None\<rparr>]\<rparr>"
    using new by (simp add: BuildPipeline_def p Let_def)
  with that show ?thesis by (metis prod.collapse pipeline_result.select_convs(1))
qed

theorem BuildPipeline_refines_witness:
  "\<exists>b' res. BuildPipeline (demo_build_env 0) demo_lib demo_one demo_bstate = (b', Inr res) \<and> pr_success res
     \<and> disk_sound (\<lambda>_. empty_root) (bs_store b') \<and> mem_sound (\<lambda>_. empty_root) (bs_store b')"
proof -
  obtain b' res where r: "BuildPipeline (demo_build_env 0) demo_lib demo_one demo_bstate = (b', Inr res)" "pr_success res"
    by (rule demo_one_run)
  have "disk_sound (\<lambda>_. empty_root) (bs_store demo_bstate)"
    by (simp add: disk_sound_def tree_of_def data_at_def demo_bstate_def)
  moreover have "mem_sound (\<lambda>_. empty_root) (bs_store demo_bstate)" by (simp add: mem_sound_def demo_bstate_def)
  moreover have "fresh_uuid (be_uuid (demo_build_env 0)) (bs_store demo_bstate)" by (simp add: fresh_uuid_def demo_bstate_def)
  moreover have "stages_refine (\<lambda>s c. c) (demo_build_env 0) demo_one" by (simp add: stages_refine_def)
  moreover have "ids_denote (\<lambda>_. empty_root) (\<lambda>s c. c) demo_lib demo_one"
    by (simp add: ids_denote_def run_abstract_def demo_one_def)
  ultimately show ?thesis using BuildPipeline_refines [OF r(1)] r demo_removes by blast
qed

end
