(* ===== verification/BuildOrder.thy ===== *)
theory BuildOrder
  imports BuildSound Depsolve
begin

text \<open>
  The loop over the pipelines and the order \<open>Depsolve\<close> gives it: which pipelines are built, what the
  monitor sees, and that a build tree is there when a pipeline needs it.
\<close>

section \<open>Trees stay available\<close>

text \<open>An ID a lookup finds something for.\<close>

definition available :: "sstore \<Rightarrow> string \<Rightarrow> bool" where
  "available st i \<longleftrightarrow> map_of (s_objs st) i \<noteq> None \<or> data_at st (InObjects i) \<noteq> None"

definition unlimited :: "sstore \<Rightarrow> bool" where
  "unlimited st \<longleftrightarrow> store_inv st \<and> s_maximumSize st \<le> 0"

text \<open>Without a maximum size nothing that is available goes away.\<close>

definition grows :: "sstore \<Rightarrow> sstore \<Rightarrow> bool" where
  "grows st st' \<longleftrightarrow> (unlimited st \<longrightarrow> unlimited st' \<and> (\<forall>i. available st i \<longrightarrow> available st' i))"

lemma grows_refl [simp]: "grows st st"
  by (simp add: grows_def)

lemma grows_trans: "grows a b \<Longrightarrow> grows b c \<Longrightarrow> grows a c"
  by (simp add: grows_def)

lemma Contains_available:
  assumes "Contains st i" "store_inv st"
  shows "available st i"
proof (cases "map_of (s_objs st) i")
  case None
  then obtain od where od: "map_of (d_objects st) i = Some od"
    using assms(1) by (auto simp: Contains_def split: if_splits option.splits)
  then have "od_data od \<noteq> None" using assms(2) by (simp add: store_inv_def entry_ok_def)
  then show ?thesis by (simp add: available_def data_at_def od)
qed (simp add: available_def)

lemma available_Get:
  assumes "available st i"
  shows "\<exists>st' r. Get E st i = (st', r) \<and> r \<noteq> Inr None"
  using assms
  by (cases "map_of (s_objs st) i")
    (auto simp: available_def Get_def data_at_def Let_def case_prod_beta split: option.splits)

lemma data_at_set_data: "data_at st q = Some d' \<Longrightarrow> data_at (set_data q d st) p = None \<longleftrightarrow> data_at st p = None"
  by (auto simp: set_data_def data_at_def split: data_path.splits option.splits if_splits)

lemma grows_set_data: "data_at st q \<noteq> None \<Longrightarrow> grows st (set_data q d st)"
  using data_at_set_data by (auto simp: grows_def unlimited_def available_def store_inv_set_data)

lemma grows_Get: "grows st (fst (Get E st i))"
proof -
  have "data_at (fst (Get E st i)) (InObjects j) = None \<longleftrightarrow> data_at st (InObjects j) = None" for j
    using Get_tree [of E st i j] by (auto simp: tree_of_def)
  then show ?thesis by (simp add: grows_def unlimited_def available_def store_inv_Get)
qed

lemma grows_clamp: "grows st (fst (clamp_object E st ob))"
  by (simp add: grows_def unlimited_def available_def store_inv_clamp data_at_clamp)

lemma grows_stage: "d_objects st' = d_objects st \<Longrightarrow> s_objs st' = s_objs st \<Longrightarrow> s_maximumSize st' = s_maximumSize st \<Longrightarrow>
    (store_inv st \<Longrightarrow> store_inv st') \<Longrightarrow> grows st st'"
  by (simp add: grows_def unlimited_def available_def data_at_def)

lemma grows_Close_object: "grows st (Object_Close a st)"
  by (rule grows_stage) (simp_all add: store_inv_objects, simp add: Object_Close_def Let_def split: option.split)

lemma grows_Init: "grows st (fst (Object_Init E st a b))"
  by (auto simp: Object_Init_def Let_def grows_set_data split: option.split)

lemma grows_New: "grows st (fst (New_object E st u i))"
proof -
  have "s_maximumSize (fst (New_object E st u i)) = s_maximumSize st" "d_objects (fst (New_object E st u i)) = d_objects st"
    "\<And>j. map_of (s_objs st) j \<noteq> None \<Longrightarrow> map_of (s_objs (fst (New_object E st u i))) j \<noteq> None"
    by (auto simp: New_object_def Let_def alloc_def split: prod.split option.split)
  then show ?thesis by (auto simp: grows_def unlimited_def available_def data_at_def store_inv_New)
qed

lemma grows_epoch: "grows st (set_epoch a e st)"
  by (rule grows_stage) (simp_all add: set_epoch_def store_inv_heap)

lemma updateCacheSize_unlimited: "s_maximumSize st \<le> 0 \<Longrightarrow> snd (updateCacheSize E st n)"
  by (simp add: updateCacheSize_def Let_def)

lemma grows_commit_finish: "e_ok E RemoveEntry \<Longrightarrow> grows st (commit_finish E st a i n)"
proof -
  assume rm: "e_ok E RemoveEntry"
  have "commit_finish E st a i n = fst (updateCacheSize E (commit_place st a i) n)" if "s_maximumSize st \<le> 0"
    using that updateCacheSize_unlimited [of "commit_place st a i" E n]
    by (simp add: commit_finish_def commit_account_def case_prod_beta)
  then have "s_maximumSize st \<le> 0 \<longrightarrow> d_objects (commit_finish E st a i n) = d_objects st
      \<and> s_maximumSize (commit_finish E st a i n) = s_maximumSize st"
    by simp
  then show ?thesis
    using rm by (auto simp: grows_def unlimited_def available_def data_at_def store_inv_commit_finish)
qed

lemma grows_Commit:
  assumes "e_ok E RemoveEntry"
  shows "grows st (fst (Commit E st a i))"
proof -
  define st0 where "st0 = fst (clamp_object E st (s_heap st a))"
  have g0: "grows st st0" by (simp add: st0_def grows_clamp)
  have put: "grows st0 (put_object i od st0)" if "map_of (d_objects st0) i = None" "entry_ok od" for od
    using that by (auto simp: grows_def unlimited_def available_def data_at_def put_object_def store_inv_put split: option.split)
  have drop: "grows st0 (remove_entry E i (put_object i od st0))" if "map_of (d_objects st0) i = None" for od
  proof -
    have "map_of (d_objects (remove_entry E i (put_object i od st0))) = map_of (d_objects st0)"
      using assms that by auto
    moreover have "store_inv (remove_entry E i (put_object i od st0))" if "store_inv st0"
      using that \<open>map_of (d_objects (remove_entry E i (put_object i od st0))) = map_of (d_objects st0)\<close>
      by (auto simp: store_inv_def) (simp add: put_object_def)
    ultimately show ?thesis by (simp add: grows_def unlimited_def available_def data_at_def)
  qed
  have fin: "grows st (commit_finish E (put_object i od st0) a i n)"
    if "map_of (d_objects st0) i = None" "entry_ok od" for od n
    using g0 put [OF that] grows_commit_finish [OF assms] grows_trans by blast
  show ?thesis
    using g0 drop fin grows_trans [OF g0]
    by (auto simp: Commit_def Let_def st0_def [symmetric] entry_ok_def split: option.split)
qed

lemma grows_Finalize: "grows st (fst (Object_Finalize E st a))"
proof -
  obtain st1 e where c: "clamp_object E st (s_heap st a) = (st1, e)" by fastforce
  have g1: "grows st st1" using grows_clamp [of st E "s_heap st a"] c by simp
  have h: "s_heap st1 = s_heap st" using c by (metis clamp_object_frame(2) fst_conv)
  have "grows st1 (st1\<lparr>s_heap := (s_heap st1)(a := (s_heap st a)\<lparr>ob_mode := ModeRead\<rparr>)\<rparr>)"
    by (rule grows_stage) (use store_inv_heap [of st1 _ a] in \<open>simp_all add: h\<close>)
  then have "grows st (st1\<lparr>s_heap := (s_heap st1)(a := (s_heap st a)\<lparr>ob_mode := ModeRead\<rparr>)\<rparr>)"
    by (rule grows_trans [OF g1])
  with g1 c show ?thesis by (auto simp: Object_Finalize_def Let_def split: option.split)
qed

lemma grows_GetHostTree: "grows st (fst (GetHostTree E st))"
  by (rule grows_stage) (simp_all add: GetHostTree_def store_inv_def)

section \<open>A pipeline only adds trees\<close>

lemma grows_walk_back: "grows st (fst (walk_back B L ss a n todo st))"
proof (induction n arbitrary: todo st)
  case (Suc i)
  obtain st1 r where g: "Get (be_at B (AtWalk i)) st (Stage_ID L (ss ! i)) = (st1, r)" by fastforce
  then have g1: "grows st st1" using grows_Get [of st "be_at B (AtWalk i)"] by (metis fst_conv)
  have rec: "grows st (fst (walk_back B L ss a i t st1))" for t using grows_trans [OF g1 Suc.IH] .
  show ?case
  proof (cases r)
    case (Inl e)
    then show ?thesis using grows_trans [OF g1 grows_Close_object] by (simp add: g)
  next
    case (Inr b)
    show ?thesis
    proof (cases b)
      case (Some base)
      obtain st2 e where i: "Object_Init (be_at B (AtInit i)) st1 a base = (st2, e)" by fastforce
      then have g2: "grows st st2" using grows_trans [OF g1 grows_Init] by (metis fst_conv)
      show ?thesis
        using rec g2 grows_trans [OF g2 grows_Close_object] by (cases e) (simp_all add: g Inr Some i)
    qed (simp add: g Inr rec)
  qed
qed simp

lemma grows_run_stage: "grows (bs_store b) (bs_store (fst (run_stage B L p bt a i b)))"
proof -
  have w: "grows st (stage_writes ob t st)" for st ob t
    by (auto simp: stage_writes_def grows_set_data split: option.split)
  have c: "grows st (close_writer E ob wr st)" for st E ob wr
    by (auto simp: close_writer_def grows_set_data split: option.split)
  have wc: "grows st (close_writer E ob wr (stage_writes ob t st))" for st E ob wr t
    using grows_trans [OF w c] .
  have wcc: "grows st (Object_Close a (close_writer E ob wr (stage_writes ob t st)))" for st E ob wr t
    using grows_trans [OF wc grows_Close_object] .
  show ?thesis
    by (auto simp: run_stage_def Let_def case_prod_beta wc wcc grows_Close_object split: option.split sum.split)
qed

lemma grows_run_stages:
  assumes "removes B"
  shows "grows (bs_store b) (bs_store (fst (run_stages B L p bt a todo results b)))"
proof (induction todo arbitrary: results b)
  case (Cons i todo)
  obtain b1 q where q: "run_stage B L p bt a i b = (b1, q)" by fastforce
  then have g1: "grows (bs_store b) (bs_store b1)" using grows_run_stage [of b B L p bt a i] by simp
  obtain st2 e where c: "Commit (be_at B (AtStage i)) (bs_store b1) a (Stage_ID L (pl_Stages p ! i)) = (st2, e)" by fastforce
  have "e_ok (be_at B (AtStage i)) RemoveEntry" using assms by (simp add: removes_def)
  with c have g2: "grows (bs_store b) st2" using grows_trans [OF g1 grows_Commit] by (metis fst_conv)
  have r1: "grows (bs_store b) (bs_store (fst (run_stages B L p bt a todo rs b1)))" for rs
    using grows_trans [OF g1 Cons.IH] .
  have r2: "grows (bs_store b) (bs_store (fst (run_stages B L p bt a todo rs (with_store st2 b1))))" for rs
    using grows_trans [OF g2] Cons.IH [of "with_store st2 b1"] by simp
  show ?case
    using g1 r1 r2 grows_trans [OF g1 grows_Close_object] grows_trans [OF g2 grows_Close_object]
    by (cases q; cases e) (auto simp: q c)
qed simp

lemma grows_build_in:
  assumes "removes B"
  shows "grows (bs_store b) (bs_store (fst (build_in B L p bt a b)))"
proof -
  obtain st1 q where w: "walk_back B L (pl_Stages p) a (length (pl_Stages p)) [] (bs_store b) = (st1, q)" by fastforce
  then have g1: "grows (bs_store b) st1" using grows_walk_back by (metis fst_conv)
  show ?thesis
  proof (cases q)
    case (Inr todo)
    obtain b2 q2 where r: "run_stages B L p bt a (rev todo) [] (with_store st1 b) = (b2, q2)" by fastforce
    then have g2: "grows (bs_store b) (bs_store b2)"
      using grows_trans [OF g1] grows_run_stages [OF assms, of "with_store st1 b" L p bt a "rev todo" "[]"] by simp
    obtain st3 e where f: "Object_Finalize (be_at B AtFinalize) (bs_store b2) a = (st3, e)" by fastforce
    then have g3: "grows (bs_store b) st3" using grows_trans [OF g2 grows_Finalize] by (metis fst_conv)
    show ?thesis
      using g2 g3 grows_trans [OF g3 grows_Close_object]
      by (auto simp: build_in_def w Inr r f split: sum.split prod.split bool.split option.split)
  qed (simp add: build_in_def w g1)
qed

lemma grows_build_tree_of: "grows st (fst (build_tree_of B p st))"
proof (cases "pl_Build p")
  case None
  obtain st2 e where g: "GetHostTree (be_at B AtBuildTree) st = (st2, e)" by fastforce
  then have "grows st st2" using grows_GetHostTree by (metis fst_conv)
  with None g show ?thesis by (cases e) (simp_all add: build_tree_of_def)
next
  case (Some bid)
  obtain st2 q where g: "Get (be_at B AtBuildTree) st bid = (st2, q)" by fastforce
  then have "grows st st2" using grows_Get by (metis fst_conv)
  with Some g show ?thesis by (cases q; cases "projr q") (simp_all add: build_tree_of_def)
qed

text \<open>The only way to miss a build tree.\<close>

lemma build_in_not_missing: "snd (build_in B L p bt a b) \<noteq> Inl (BTreeNotFound i)"
proof -
  have "snd (walk_back B L ss a n todo st) \<noteq> Inl (BTreeNotFound i)" for ss n todo st
  proof (induction n arbitrary: todo st)
    case (Suc n)
    then show ?case by (auto split: prod.split sum.split option.split)
  qed simp
  moreover have stage: "snd (run_stage B L p bt a j b) \<noteq> Inl (BTreeNotFound i)" for j b
    by (auto simp: run_stage_def Let_def case_prod_beta split: option.split sum.split)
  moreover have "snd (run_stages B L p bt a todo rs b) \<noteq> Inl (BTreeNotFound i)" for todo rs b
  proof (induction todo arbitrary: rs b)
    case (Cons j todo)
    then show ?case using stage [of j b] by (auto split: prod.split sum.split option.split)
  qed simp
  ultimately show ?thesis
    unfolding build_in_def
    by (auto split: prod.split sum.split bool.split option.split) (metis snd_conv)+
qed

lemma BuildPipeline_grows:
  assumes "BuildPipeline B L p b = (b', r)" "unlimited (bs_store b)" "removes B"
  shows "unlimited (bs_store b')" "available (bs_store b) i \<Longrightarrow> available (bs_store b') i"
    "(\<exists>res. r = Inr res) \<Longrightarrow> pl_Stages p \<noteq> [] \<Longrightarrow> available (bs_store b') (Pipeline_ID L p)"
proof -
  have "grows (bs_store b) (bs_store b') \<and>
    ((\<exists>res. r = Inr res) \<longrightarrow> pl_Stages p \<noteq> [] \<longrightarrow> available (bs_store b') (Pipeline_ID L p))"
  proof (cases "pl_Stages p = [] \<or> Contains (bs_store b) (Pipeline_ID L p)")
    case True
    then have "b' = b" using assms(1) by (auto simp: BuildPipeline_def Let_def split: if_splits)
    with True assms(2) show ?thesis by (auto simp: unlimited_def intro: Contains_available)
  next
    case False
    obtain st1 q1 where q1: "build_tree_of B p (bs_store b) = (st1, q1)" by fastforce
    then have g1: "grows (bs_store b) st1" using grows_build_tree_of by (metis fst_conv)
    show ?thesis
    proof (cases q1)
      case (Inl e)
      with assms(1) False q1 g1 show ?thesis by (auto simp: BuildPipeline_def Let_def)
    next
      case (Inr bt)
      obtain st2 q2 where q2: "New_object (be_at B AtNew) st1 (be_uuid B) (Pipeline_ID L p) = (st2, q2)" by fastforce
      then have g2: "grows (bs_store b) st2" using grows_trans [OF g1 grows_New] by (metis fst_conv)
      show ?thesis
      proof (cases q2)
        case Inl2: (Inl e)
        with assms(1) False q1 Inr q2 g2 show ?thesis by (auto simp: BuildPipeline_def Let_def)
      next
        case Inr2: (Inr a)
        define b1 where "b1 = with_store (set_epoch a (pl_SourceEpoch p) st2) b"
        have bi: "build_in B L p bt a b1 = (b', r)"
          using assms(1) False q1 Inr q2 Inr2 by (simp add: BuildPipeline_def Let_def b1_def)
        have g3: "grows (bs_store b) (bs_store b1)" using grows_trans [OF g2 grows_epoch] by (simp add: b1_def)
        have g4: "grows (bs_store b1) (bs_store b')" using grows_build_in [OF assms(3), of b1 L p bt a] bi by simp
        have "available (bs_store b1) (Pipeline_ID L p)"
          using New_writing(2) [OF q2 [unfolded Inr2]] by (simp add: available_def b1_def)
        with grows_trans [OF g3 g4] g3 g4 assms(2) show ?thesis by (auto simp: grows_def)
      qed
    qed
  qed
  with assms(2) show "unlimited (bs_store b')" "available (bs_store b) i \<Longrightarrow> available (bs_store b') i"
    "(\<exists>res. r = Inr res) \<Longrightarrow> pl_Stages p \<noteq> [] \<Longrightarrow> available (bs_store b') (Pipeline_ID L p)"
    by (auto simp: grows_def)
qed

lemma BuildPipeline_missing:
  assumes "BuildPipeline B L p b = (b', Inl (BTreeNotFound i))"
  shows "pl_Build p = Some i \<and> \<not> available (bs_store b) i"
proof -
  have ne: "\<not> (pl_Stages p = [] \<or> Contains (bs_store b) (Pipeline_ID L p))"
    using assms by (auto simp: BuildPipeline_def Let_def split: if_splits)
  obtain st1 q1 where q1: "build_tree_of B p (bs_store b) = (st1, q1)" by fastforce
  have "q1 = Inl (BTreeNotFound i)"
  proof (cases q1)
    case (Inl e)
    with assms ne q1 show ?thesis by (simp add: BuildPipeline_def Let_def)
  next
    case (Inr bt)
    then show ?thesis
      using assms ne q1 build_in_not_missing
      by (cases "New_object (be_at B AtNew) st1 (be_uuid B) (Pipeline_ID L p)";
          cases "snd (New_object (be_at B AtNew) st1 (be_uuid B) (Pipeline_ID L p))")
        (auto simp: BuildPipeline_def Let_def, metis snd_conv)
  qed
  then show ?thesis
    using q1 available_Get [of "bs_store b" i "be_at B AtBuildTree"]
    by (auto simp: build_tree_of_def split: option.splits prod.splits sum.splits)
qed

section \<open>The loop\<close>

definition same_plan :: "pipeline \<Rightarrow> pipeline \<Rightarrow> bool" where
  "same_plan p q \<longleftrightarrow> pl_Build p = pl_Build q \<and> pl_Stages p = pl_Stages q \<and> pl_Name p = pl_Name q"

lemma same_plan_ID: "same_plan p q \<Longrightarrow> Pipeline_ID L p = Pipeline_ID L q"
  by (simp add: same_plan_def Pipeline_ID_def)

definition found :: "golib \<Rightarrow> manifest \<Rightarrow> string \<Rightarrow> pipeline option" where
  "found L m name = (case Pipeline_lookup m name of Some p \<Rightarrow> Some p | None \<Rightarrow> PipelineByID L m name)"

lemma build_loop_finds_trees:
  assumes "unlimited (bs_store b)" "\<And>k. removes (Bs k)"
    and "\<And>p. p \<in> set ps \<Longrightarrow> \<exists>q. found L m (pl_Name p) = Some q \<and> same_plan q p"
    and "\<And>k bid. k < length ps \<Longrightarrow> pl_Build (ps ! k) = Some bid \<Longrightarrow>
      available (bs_store b) bid \<or> (\<exists>j < k. Pipeline_ID L (ps ! j) = bid \<and> pl_Stages (ps ! j) \<noteq> [])"
  shows "snd (build_loop ctx Bs L m i (map pl_Name ps) results b) \<noteq> Inl (BTreeNotFound x)"
  using assms(1,3,4)
proof (induction ps arbitrary: i results b)
  case (Cons p ps)
  obtain q where q: "found L m (pl_Name p) = Some q" "same_plan q p" using Cons.prems(2) [of p] by auto
  define b0 where "b0 = emit (EBegin q) b"
  obtain b1 r where r: "BuildPipeline (Bs i) L q b0 = (b1, r)" by fastforce
  have b0: "unlimited (bs_store b0)" using Cons.prems(1) by (simp add: b0_def)
  note grows = BuildPipeline_grows [OF r b0 assms(2)]
  have step: "build_loop ctx Bs L m i (map pl_Name (p # ps)) results b =
      (case ctx i of Some e \<Rightarrow> (b, Inl (BCtx e)) | None \<Rightarrow>
        (case r of Inl e \<Rightarrow> (b1, Inl e) | Inr res \<Rightarrow>
           let b2 = emit (EFinish (pr_name res) (pr_success res)) b1; results1 = gset (Pipeline_ID L q) res results in
           if \<not> pr_success res then (b2, Inr \<lparr>rs_success = False, rs_pipelines = results1\<rparr>)
           else build_loop ctx Bs L m (Suc i) (map pl_Name ps) results1 b2))"
    using q(1) r by (simp add: found_def [symmetric] b0_def [symmetric] split: option.split)
  show ?case
  proof (cases "ctx i")
    case None
    show ?thesis
    proof (cases r)
      case (Inl e)
      have "e \<noteq> BTreeNotFound y" for y
      proof
        assume "e = BTreeNotFound y"
        with BuildPipeline_missing [of "Bs i" L q b0 b1 y] r Inl
        have "pl_Build p = Some y" "\<not> available (bs_store b) y" using q(2) by (auto simp: same_plan_def b0_def)
        with Cons.prems(3) [of 0 y] show False by simp
      qed
      then show ?thesis unfolding step None Inl by simp
    next
      case (Inr res)
      have "snd (build_loop ctx Bs L m (Suc i) (map pl_Name ps) results1 (emit ev b1)) \<noteq> Inl (BTreeNotFound x)" for results1 ev
      proof (rule Cons.IH)
        show "unlimited (bs_store (emit ev b1))" using grows(1) by simp
        show "\<exists>q. found L m (pl_Name p') = Some q \<and> same_plan q p'" if "p' \<in> set ps" for p'
          using Cons.prems(2) that by simp
        fix k bid assume k: "k < length ps" "pl_Build (ps ! k) = Some bid"
        have "available (bs_store b) bid \<or> (\<exists>j < Suc k. Pipeline_ID L ((p # ps) ! j) = bid \<and> pl_Stages ((p # ps) ! j) \<noteq> [])"
          using Cons.prems(3) [of "Suc k" bid] k by simp
        moreover have "available (bs_store b1) bid" if "available (bs_store b) bid"
          using grows(2) that by (simp add: b0_def)
        moreover have "available (bs_store b1) (Pipeline_ID L p)" if "pl_Stages p \<noteq> []"
          using grows(3) that Inr q(2) same_plan_ID [OF q(2), of L] by (simp add: same_plan_def)
        ultimately show "available (bs_store (emit ev b1)) bid \<or> (\<exists>j < k. Pipeline_ID L (ps ! j) = bid \<and> pl_Stages (ps ! j) \<noteq> [])"
          by (auto simp: less_Suc_eq_0_disj)
      qed
      then show ?thesis unfolding step None Inr Let_def by simp
    qed
  next
    case (Some e)
    then show ?thesis unfolding step by simp
  qed
qed simp

section \<open>Parse, Depsolve, Build\<close>

lemma same_plan_update:
  "q\<lparr>pl_Runner := r\<rparr> = p \<Longrightarrow> pl_Name q = pl_Name p \<and> pl_Build q = pl_Build p \<and> pl_Stages q = pl_Stages p"
  by auto

lemma Parse_found:
  assumes "json_ok (GMap desc)" "Parse L ctx R desc = Inr m" "distinct (map pl_Name (mf_Pipelines m))" "p \<in> set (mf_Pipelines m)"
  shows "\<exists>q. found L m (pl_Name p) = Some q \<and> same_plan q p"
proof -
  obtain k where k: "k < length (mf_Pipelines m)" "mf_Pipelines m ! k = p" using assms(4) by (auto simp: in_set_conv_nth)
  show ?thesis
  proof (cases "Pipeline_lookup m (pl_Name p)")
    case None
    with Parse_lookup_spec [OF assms(1,2), of "pl_Name p"] assms(4) show ?thesis by auto
  next
    case (Some q)
    then obtain i where i: "i < length (mf_Pipelines m)" "pl_Name q = pl_Name p"
      "q\<lparr>pl_Runner := pl_Runner (mf_Pipelines m ! i)\<rparr> = mf_Pipelines m ! i"
      using Parse_lookup_spec [OF assms(1,2), of "pl_Name p"] by auto
    note same = same_plan_update [OF i(3)]
    have "pl_Name (mf_Pipelines m ! i) = pl_Name p" using i(2) same by simp
    then have "mf_Pipelines m ! i = p"
      using assms(3) k i(1) by (metis distinct_conv_nth length_map nth_map)
    then have "same_plan q p" using same by (simp add: same_plan_def)
    with Some show ?thesis by (simp add: found_def)
  qed
qed

lemma wanted_in_manifest:
  assumes "json_ok (GMap desc)" "Parse L ctx R desc = Inr m" "wanted L m has targets p"
  shows "\<exists>p' \<in> set (mf_Pipelines m). same_plan p p'"
  using assms(3)
proof cases
  case (target t)
  show ?thesis
  proof (cases "Pipeline_lookup m t")
    case None
    with target have "p \<in> set (mf_Pipelines m)" by (auto simp: find_pipeline_def PipelineByID_def find_Some_iff)
    then show ?thesis by (auto simp: same_plan_def)
  next
    case (Some q)
    with target have "q = p" by (simp add: find_pipeline_def)
    with Some Parse_lookup_spec [OF assms(1,2), of t] obtain i where i: "i < length (mf_Pipelines m)"
      "p\<lparr>pl_Runner := pl_Runner (mf_Pipelines m ! i)\<rparr> = mf_Pipelines m ! i" by auto
    then have "same_plan p (mf_Pipelines m ! i)" using same_plan_update [OF i(2)] by (simp add: same_plan_def)
    with i(1) show ?thesis by (meson nth_mem)
  qed
next
  case (dep q)
  then have "p \<in> set (mf_Pipelines m)" by (auto simp: deps_def PipelineByID_def find_Some_iff)
  then show ?thesis by (auto simp: same_plan_def)
qed

lemma before_nth:
  assumes "before xs y x" "distinct xs" "k < length xs" "xs ! k = x"
  shows "\<exists>j < k. xs ! j = y"
proof -
  obtain us vs where uv: "xs = us @ y # vs" "x \<in> set vs" using assms(1) by (auto simp: before_def)
  obtain l where l: "l < length vs" "vs ! l = x" using uv(2) by (auto simp: in_set_conv_nth)
  have "xs ! (length us + Suc l) = x" "length us + Suc l < length xs" using l by (simp_all add: uv(1) nth_append)
  then have "k = length us + Suc l" using assms(2-4) nth_eq_iff_index_eq by metis
  then show ?thesis by (intro exI [of _ "length us"]) (simp add: uv(1))
qed

text \<open>The build root of a pipeline in the order is there already, or comes before it.\<close>

lemma solver_gives_tree:
  assumes "p = ps ! k" "k < length ps" "pl_Build p = Some bid" "bid \<noteq> []" "\<exists>q \<in> set (mf_Pipelines m). Pipeline_ID L q = bid"
    and "\<And>q. q \<in> deps L m has p \<Longrightarrow> needed L has q \<Longrightarrow> before (map (Pipeline_ID L) ps) (Pipeline_ID L q) (Pipeline_ID L p)"
    and "distinct (map (Pipeline_ID L) ps)"
  shows "has bid \<or> (\<exists>j < k. Pipeline_ID L (ps ! j) = bid \<and> pl_Stages (ps ! j) \<noteq> [])"
proof -
  obtain q where q: "PipelineByID L m bid = Some q" "Pipeline_ID L q = bid"
    using assms(5) unfolding PipelineByID_def by (metis (mono_tags, lifting) find_None_iff find_Some_iff not_Some_eq)
  have dep: "q \<in> deps L m has p" using q(1) assms(3) by (auto simp: deps_def dep_ids_def)
  show ?thesis
  proof (cases "needed L has q")
    case False
    with assms(4) q(2) show ?thesis by (simp add: needed_def)
  next
    case True
    have k: "k < length (map (Pipeline_ID L) ps)" "map (Pipeline_ID L) ps ! k = Pipeline_ID L p" using assms(1,2) by simp_all
    obtain j where j: "j < k" "map (Pipeline_ID L) ps ! j = bid"
      using before_nth [OF assms(6) [OF dep True] assms(7) k] q(2) by blast
    then have "Pipeline_ID L (ps ! j) = bid" using assms(2) by simp
    moreover from this have "pl_Stages (ps ! j) \<noteq> []" using assms(4) by (auto simp: Pipeline_ID_def)
    ultimately show ?thesis using j(1) by blast
  qed
qed

text \<open>C7: Building in the order the solver gives, no pipeline misses its build root: for a parsed manifest
  with distinct pipeline names whose build references point at pipelines with stages, and a complete
  store without a maximum size, \<open>Build\<close> on the result of \<open>Depsolve\<close> never fails because a build tree
  is not found, whatever else goes wrong. (With a maximum size a commit may evict a build tree, and a
  failed commit that cannot remove what it made leaves an entry without one.)\<close>

theorem Build_finds_trees:
  assumes "json_ok (GMap desc)" "Parse L pctx R desc = Inr m" "distinct (map pl_Name (mf_Pipelines m))"
    and refs: "\<And>p bid. p \<in> set (mf_Pipelines m) \<Longrightarrow> pl_Build p = Some bid \<Longrightarrow>
      bid \<noteq> [] \<and> (\<exists>q \<in> set (mf_Pipelines m). Pipeline_ID L q = bid)"
    and "store_inv st" "s_maximumSize st \<le> 0" "\<And>k. removes (Bs k)"
    and "Depsolve fuel L dctx m (Contains st) targets = Some (Inr names)"
  shows "snd (Build ctx Bs L m st names) \<noteq> Inl (BTreeNotFound x)"
proof -
  obtain ps where ps: "names = map pl_Name ps"
    and want: "\<And>p. p \<in> set ps \<Longrightarrow> wanted L m (Contains st) targets p"
    and before: "\<And>p q. p \<in> set ps \<Longrightarrow> q \<in> deps L m (Contains st) p \<Longrightarrow> needed L (Contains st) q \<Longrightarrow>
        before (map (Pipeline_ID L) ps) (Pipeline_ID L q) (Pipeline_ID L p)"
    and dist: "distinct (map (Pipeline_ID L) ps)"
    using Depsolve_result [OF assms(8)] by blast
  show ?thesis
    unfolding Build_def ps
  proof (rule build_loop_finds_trees)
    show "unlimited (bs_store \<lparr>bs_store = st, bs_events = []\<rparr>)" using assms(5,6) by (simp add: unlimited_def)
    show "removes (Bs k)" for k by (rule assms(7))
    fix p assume "p \<in> set ps"
    then obtain p' where "p' \<in> set (mf_Pipelines m)" "same_plan p p'"
      using wanted_in_manifest [OF assms(1,2) want] by blast
    moreover from this(1) obtain q where "found L m (pl_Name p') = Some q" "same_plan q p'"
      using Parse_found [OF assms(1,2,3)] by blast
    ultimately show "\<exists>q. found L m (pl_Name p) = Some q \<and> same_plan q p" by (auto simp: same_plan_def)
  next
    fix k bid assume k: "k < length ps" "pl_Build (ps ! k) = Some bid"
    define p where "p = ps ! k"
    have p: "p \<in> set ps" using k(1) by (simp add: p_def)
    obtain p' where p': "p' \<in> set (mf_Pipelines m)" "same_plan p p'" using wanted_in_manifest [OF assms(1,2) want [OF p]] by blast
    have "bid \<noteq> []" "\<exists>q \<in> set (mf_Pipelines m). Pipeline_ID L q = bid"
      using refs [OF p'(1), of bid] p'(2) k(2) by (auto simp: same_plan_def p_def)
    from solver_gives_tree [OF p_def k(1) _ this before [OF p] dist] k(2)
    show "available (bs_store \<lparr>bs_store = st, bs_events = []\<rparr>) bid \<or>
        (\<exists>j < k. Pipeline_ID L (ps ! j) = bid \<and> pl_Stages (ps ! j) \<noteq> [])"
      using Contains_available [OF _ assms(5)] by (auto simp: p_def)
  qed
qed

section \<open>An image with a build root\<close>

definition image_desc :: gobject where
  "image_desc = [(''version'', GString ''2''), (''pipelines'', GSlice
     [GMap [(''name'', GString ''build''), (''stages'', GSlice [GMap [(''type'', GString ''rpm'')]])],
      GMap [(''name'', GString ''os''), (''build'', GString ''name:build''),
        (''stages'', GSlice [GMap [(''type'', GString ''tar'')]])]])]"

lemma AddStage_fields [simp]:
  "pl_Name (AddStage L p t e c o' ep) = pl_Name p" "pl_Build (AddStage L p t e c o' ep) = pl_Build p"
  "pl_Stages (AddStage L p t e c o' ep) \<noteq> []" "st_Build (last (pl_Stages (AddStage L p t e c o' ep))) = pl_Build p"
  "Stage_Dependencies (last (pl_Stages (AddStage L p t e c o' ep))) = []"
  "length (pl_Stages (AddStage L p t e c o' ep)) = Suc (length (pl_Stages p))"
  by (simp_all add: AddStage_def Stage_Dependencies_def)

lemma fixup_runner_fields [simp]:
  "pl_Name (fixup_runner rs h p) = pl_Name p" "pl_Build (fixup_runner rs h p) = pl_Build p"
  "pl_Stages (fixup_runner rs h p) = pl_Stages p" "Pipeline_ID L (fixup_runner rs h p) = Pipeline_ID L p"
  by (simp_all add: fixup_runner_def Pipeline_ID_def split: option.splits)

lemmas image_eval =
  Parse_def image_desc_def demo_api_def get_string0_def get_string_def get_map0_def get_map_def
  empty_manifest_def parse_pipelines_def get_slice_def parsePipeline_def pipeline_build_def
  pipeline_runner_def pipeline_epoch_def parse_stages_def add_pipeline_def append_pipeline_def
  fixupRunners_def Pipeline_lookup_def deref_def Let_def
  parseStage_def set_pipeline_def parse_devices_def parse_inputs_def parse_mounts_def HasPrefix_def resolveRef_def

lemma image_json_ok: "json_ok (GMap image_desc)"
  by (auto simp: image_desc_def gmap_ok_def intro!: json_ok.object json_ok.array)
    (rule json_ok.leaf; simp)+

lemma image_parses:
  "\<exists>m a b. Parse demo_lib (\<lambda>_. None) demo_api image_desc = Inr m \<and> mf_Pipelines m = [a, b]
     \<and> pl_Name a = ''build'' \<and> pl_Build a = None \<and> pl_Name b = ''os'' \<and> pl_Build b = Some (Pipeline_ID demo_lib a)
     \<and> Pipeline_lookup m ''os'' = Some b \<and> pl_Stages a \<noteq> [] \<and> pl_Stages b \<noteq> []
     \<and> st_Build (last (pl_Stages a)) = None \<and> st_Build (last (pl_Stages b)) = Some (Pipeline_ID demo_lib a)
     \<and> length (pl_Stages a) = 1 \<and> length (pl_Stages b) = 1
     \<and> Stage_Dependencies (last (pl_Stages a)) = [] \<and> Stage_Dependencies (last (pl_Stages b)) = []"
  by (simp add: image_eval)

lemma other_build_other_ID:
  assumes "st_Build s = None" "st_Build t = Some x"
  shows "Stage_ID demo_lib s \<noteq> Stage_ID demo_lib t"
proof
  assume "Stage_ID demo_lib s = Stage_ID demo_lib t"
  then have "stage_preimage demo_lib s = stage_preimage demo_lib t" unfolding Stage_ID_def by (auto dest: digest_hex_inj)
  from stage_preimage_parts(2) [OF this] assms show False
    by (simp add: marshal_bytes_def Marshal_def marshalString_def)
qed

definition image_store :: sstore where
  "image_store = demo_store\<lparr>s_objs := [], d_objects := [], s_maximumSize := 0\<rparr>"

lemma image_store_facts: "store_inv image_store" "s_maximumSize image_store \<le> 0" "\<not> Contains image_store i"
  by (auto simp: image_store_def store_inv_def demo_store_def gmap_ok_def Contains_def)

lemma image_Depsolve:
  "\<exists>m. Parse demo_lib (\<lambda>_. None) demo_api image_desc = Inr m \<and> distinct (map pl_Name (mf_Pipelines m))
     \<and> (\<forall>p \<in> set (mf_Pipelines m). \<forall>bid. pl_Build p = Some bid \<longrightarrow>
          bid \<noteq> [] \<and> (\<exists>q \<in> set (mf_Pipelines m). Pipeline_ID demo_lib q = bid))
     \<and> Depsolve 2 demo_lib (\<lambda>_. None) m (Contains image_store) [''os''] = Some (Inr [''build'', ''os''])"
proof -
  obtain m a b where m: "Parse demo_lib (\<lambda>_. None) demo_api image_desc = Inr m" "mf_Pipelines m = [a, b]"
    and f: "pl_Name a = ''build''" "pl_Build a = None" "pl_Name b = ''os''" "pl_Build b = Some (Pipeline_ID demo_lib a)"
      "Pipeline_lookup m ''os'' = Some b"
    and s: "st_Build (last (pl_Stages a)) = None" "st_Build (last (pl_Stages b)) = Some (Pipeline_ID demo_lib a)"
      "Stage_Dependencies (last (pl_Stages a)) = []" "Stage_Dependencies (last (pl_Stages b)) = []"
      "length (pl_Stages a) = 1" "length (pl_Stages b) = 1"
    using image_parses by blast
  obtain u v where st: "pl_Stages a = [u]" "pl_Stages b = [v]"
    using s(5,6) by (auto simp: length_Suc_conv)
  have ids: "Pipeline_ID demo_lib a = Stage_ID demo_lib u" "Pipeline_ID demo_lib b = Stage_ID demo_lib v"
    by (simp_all add: Pipeline_ID_def st)
  have ne: "Stage_ID demo_lib v \<noteq> Stage_ID demo_lib u" using other_build_other_ID s(1,2) st by force
  have "depsolve_targets demo_lib m [''os''] = [Some b]" by (simp add: depsolve_targets_def find_pipeline_def f)
  then have "Depsolve 2 demo_lib (\<lambda>_. None) m (Contains image_store) [''os''] = Some (Inr [''build'', ''os''])"
    using s(3,4) ne
    by (simp add: Depsolve_def numeral_2_eq_2 image_store_facts ids Stage_ID_nonempty push_deps_def st f PipelineByID_def m
        move_to_end_def Let_def)
  with m f ids Stage_ID_nonempty show ?thesis by (intro exI [of _ m]) simp
qed

theorem Build_finds_trees_witness:
  "\<exists>m. Parse demo_lib (\<lambda>_. None) demo_api image_desc = Inr m
     \<and> snd (Build (\<lambda>_. None) (\<lambda>_. demo_build_env 0) demo_lib m image_store [''build'', ''os'']) \<noteq> Inl (BTreeNotFound ''x'')"
proof -
  obtain m where m: "Parse demo_lib (\<lambda>_. None) demo_api image_desc = Inr m" "distinct (map pl_Name (mf_Pipelines m))"
    "\<And>p bid. p \<in> set (mf_Pipelines m) \<Longrightarrow> pl_Build p = Some bid \<Longrightarrow>
        bid \<noteq> [] \<and> (\<exists>q \<in> set (mf_Pipelines m). Pipeline_ID demo_lib q = bid)"
    "Depsolve 2 demo_lib (\<lambda>_. None) m (Contains image_store) [''os''] = Some (Inr [''build'', ''os''])"
    using image_Depsolve by blast
  have "snd (Build (\<lambda>_. None) (\<lambda>_. demo_build_env 0) demo_lib m image_store [''build'', ''os'']) \<noteq> Inl (BTreeNotFound ''x'')"
    by (rule Build_finds_trees [OF image_json_ok m(1,2) _ image_store_facts(1,2) _ m(4)]) (rule m(3), simp_all)
  with m(1) show ?thesis by blast
qed

end
