(* ===== verification/Ipc.thy ===== *)
theory Ipc
  imports Jsonutil
begin

text \<open>
  \<^verbatim>\<open>ipc/fdset.go\<close> and \<^verbatim>\<open>ipc/socket.go\<close>: messages with file descriptors over a packet socket. The
  kernel side is explicit: open files with their contents and offset, the packets queued between
  the two ends, and the descriptor table of each end. What system calls fail is a parameter. So
  a lost or a doubly closed descriptor is visible as a difference of tables.
\<close>

section \<open>FDSet\<close>

datatype fd_error = OutOfRange int nat | AlreadyStolen int

definition NewFDSet :: "int list \<Rightarrow> int list" where
  "NewFDSet fds = fds"

definition FD_Len :: "int list \<Rightarrow> nat" where
  "FD_Len f = length (filter (\<lambda>fd. fd \<ge> 0) f)"

definition FD_Get :: "int list \<Rightarrow> int \<Rightarrow> fd_error + int" where
  "FD_Get f i =
     (if i < 0 \<or> i \<ge> int (length f) then Inl (OutOfRange i (length f))
      else if f ! nat i < 0 then Inl (AlreadyStolen i)
      else Inr (f ! nat i))"

definition FD_Steal :: "int list \<Rightarrow> int \<Rightarrow> int list \<times> (fd_error + int)" where
  "FD_Steal f i = (case FD_Get f i of Inl e \<Rightarrow> (f, Inl e) | Inr fd \<Rightarrow> (f[nat i := -1], Inr fd))"

text \<open>\<open>Close\<close> gives the set it leaves and the descriptors it closes, in order.\<close>

fun FD_Close :: "int list \<Rightarrow> int list \<times> int list" where
  "FD_Close [] = ([], [])"
| "FD_Close (fd # f) =
     (let (f', shut) = FD_Close f in if fd \<ge> 0 then (-1 # f', fd # shut) else (fd # f', shut))"

text \<open>A descriptor set in use: what is in it, what was taken out of it, what it shut.\<close>

inductive fdset_step :: "int list \<times> int list \<times> int list \<Rightarrow> int list \<times> int list \<times> int list \<Rightarrow> bool" where
  steal: "FD_Steal f i = (f', Inr fd) \<Longrightarrow> fdset_step (f, stolen, shut) (f', stolen @ [fd], shut)"
| fail: "FD_Steal f i = (f', Inl e) \<Longrightarrow> fdset_step (f, stolen, shut) (f', stolen, shut)"
| close: "FD_Close f = (f', now) \<Longrightarrow> fdset_step (f, stolen, shut) (f', stolen, shut @ now)"

inductive_cases fdset_stepE: "fdset_step (f, stolen, shut) s'"

definition live :: "int list \<Rightarrow> int list" where
  "live f = filter (\<lambda>fd. fd \<ge> 0) f"

lemma FD_Close_spec: "FD_Close f = (map (\<lambda>fd. if fd \<ge> 0 then -1 else fd) f, live f)"
  by (induction f) (auto simp: live_def Let_def)

lemma live_Close [simp]: "live (fst (FD_Close f)) = []"
  by (auto simp: FD_Close_spec live_def filter_empty_conv)

lemma FD_Steal_Inl: "FD_Steal f i = (f', Inl e) \<Longrightarrow> f' = f"
  by (auto simp: FD_Steal_def split: sum.splits)

lemma live_Steal:
  assumes "FD_Steal f i = (f', Inr fd)"
  shows "mset (live f) = add_mset fd (mset (live f'))"
proof -
  have i: "nat i < length f" "f ! nat i = fd" "fd \<ge> 0" "f' = f[nat i := -1]"
    using assms by (auto simp: FD_Steal_def FD_Get_def split: sum.splits if_splits)
  then have "f = take (nat i) f @ fd # drop (Suc (nat i)) f" by (metis id_take_nth_drop)
  moreover have "f' = take (nat i) f @ -1 # drop (Suc (nat i)) f" using i by (simp add: upd_conv_take_nth_drop)
  ultimately have "live f = live (take (nat i) f) @ fd # live (drop (Suc (nat i)) f)"
    "live f' = live (take (nat i) f) @ live (drop (Suc (nat i)) f)"
    using i(3) unfolding live_def by (metis filter.simps(2) filter_append, simp)
  then show ?thesis by simp
qed

lemma fdset_step_keeps:
  assumes "fdset_step (f, stolen, shut) (f', stolen', shut')"
  shows "mset stolen' + mset shut' + mset (live f') = mset stolen + mset shut + mset (live f)"
proof -
  have "mset now + mset (live f') = mset (live f)" if "FD_Close f = (f', now)" for now
    using that live_Close [of f] by (auto simp: FD_Close_spec)
  then show ?thesis using assms by (auto elim!: fdset_stepE simp: live_Steal dest: FD_Steal_Inl)
qed

lemma fdset_run_keeps:
  assumes "fdset_step\<^sup>*\<^sup>* (f, stolen, shut) (f', stolen', shut')"
  shows "mset stolen' + mset shut' + mset (live f') = mset stolen + mset shut + mset (live f)"
  using assms
  by (induction "(f', stolen', shut')" arbitrary: f' stolen' shut' rule: rtranclp_induct)
    (auto dest!: fdset_step_keeps)

text \<open>Every descriptor a set was made of is handed to the caller or closed exactly once: after any
  sequence of \<open>Steal\<close> and \<open>Close\<close>, successful or not, a final \<open>Close\<close> leaves the stolen ones with
  the caller and has closed each of the others once, and none twice.\<close>

theorem FDSet_ownership:
  assumes "fdset_step\<^sup>*\<^sup>* (NewFDSet fds, [], []) (f, stolen, shut)"
  shows "mset stolen + mset (shut @ snd (FD_Close f)) = mset (live fds)"
  using fdset_run_keeps [OF assms] by (simp add: FD_Close_spec NewFDSet_def add.assoc)

theorem FDSet_ownership_witness:
  "mset [7] + mset ([5] @ snd (FD_Close [-1, -1, -1])) = mset (live [5, 7, -1])"
proof (rule FDSet_ownership)
  have "fdset_step (NewFDSet [5, 7, -1], [], []) ([5, -1, -1], [] @ [7], [])"
    by (rule fdset_step.steal [of _ 1]) (simp add: FD_Steal_def FD_Get_def NewFDSet_def)
  moreover have "fdset_step ([5, -1, -1], [7], []) ([-1, -1, -1], [7], [] @ [5])"
    by (rule fdset_step.close) simp
  ultimately show "fdset_step\<^sup>*\<^sup>* (NewFDSet [5, 7, -1], [], []) ([-1, -1, -1], [7], [5])" by simp
qed

end
