(* ===== verification/Socket.thy ===== *)
theory Socket
  imports Ipc
begin

text \<open>
  \<^verbatim>\<open>ipc/socket.go\<close>: \<open>Send\<close> and \<open>Recv\<close> over a connected pair of packet sockets. The state of the
  two ends is in \<open>chan\<close>: the open files of the kernel (contents and read offset), the packets on
  their way, and the descriptor tables of the sender and the receiver. JSON is a parameter of
  each end: \<open>enc\<close> is \<open>json.Marshal\<close> of the payload, \<open>dec\<close> is \<open>json.Unmarshal\<close> into a map, where \<open>None\<close> is the
  nil map that \<open>null\<close> decodes to.
\<close>

section \<open>Descriptor tables\<close>

type_synonym fdtable = "(int, nat) gmap"

text \<open>The lowest free number, as the kernel assigns them.\<close>

definition first_free :: "fdtable \<Rightarrow> int" where
  "first_free tab = hd (filter (\<lambda>fd. fd \<notin> set (gkeys tab)) (map int [0..<Suc (length tab)]))"

lemma first_free_fresh: "first_free tab \<notin> set (gkeys tab)" and first_free_nonneg: "first_free tab \<ge> 0"
proof -
  let ?xs = "map int [0..<Suc (length tab)]"
  have "\<not> set ?xs \<subseteq> set (gkeys tab)"
  proof
    assume "set ?xs \<subseteq> set (gkeys tab)"
    then have "card (set ?xs) \<le> card (set (gkeys tab))" by (intro card_mono) simp_all
    also have "\<dots> \<le> length tab" using card_length [of "gkeys tab"] by simp
    finally show False by (simp add: card_image del: upt_Suc)
  qed
  then have "filter (\<lambda>fd. fd \<notin> set (gkeys tab)) ?xs \<noteq> []" by (auto simp: filter_empty_conv)
  then have "first_free tab \<in> {fd \<in> set ?xs. fd \<notin> set (gkeys tab)}"
    unfolding first_free_def set_filter [symmetric] by (rule hd_in_set)
  then have "first_free tab \<notin> set (gkeys tab)" "first_free tab \<in> int ` {0..<Suc (length tab)}"
    by (simp_all del: upt_Suc)
  then show "first_free tab \<notin> set (gkeys tab)" "first_free tab \<ge> 0" by auto
qed

fun install_fds :: "nat list \<Rightarrow> fdtable \<Rightarrow> int list \<times> fdtable" where
  "install_fds [] tab = ([], tab)"
| "install_fds (d # ds) tab =
     (let fd = first_free tab; (fds, tab') = install_fds ds (tab @ [(fd, d)]) in (fd # fds, tab'))"

definition close_fds :: "int list \<Rightarrow> fdtable \<Rightarrow> fdtable" where
  "close_fds fds tab = fold gdel fds tab"

record chan =
  ch_file :: "nat \<Rightarrow> string \<times> nat"
  ch_next :: nat
  ch_queue :: "(string \<times> nat list) list"
  ch_tx :: fdtable
  ch_rx :: fdtable

section \<open>Send\<close>

definition argsViaFDMarker :: string where
  "argsViaFDMarker = ''<args-via-fd>''"

text \<open>The most bytes one \<open>write\<close> or \<open>sendmsg\<close> transfers, and the most descriptors in one message.\<close>

definition max_rw :: nat where "max_rw = 2147479552"
definition scm_max :: nat where "scm_max = 253"

text \<open>What the sender's system calls do: \<open>Some e\<close> is an error.\<close>

record send_env =
  sd_wmem :: "string option"
  sd_memfd :: "string option"
  sd_write :: "string option"
  sd_seek :: "string option"
  sd_sendmsg :: "string + nat"

datatype send_error = SMarshal string | SSendmsg string | SShort nat nat | SMemfd string | SWrite string | SSeek string

definition wmemMax :: "string option \<Rightarrow> int" where
  "wmemMax file =
     (case file of
        None \<Rightarrow> 64000
      | Some text \<Rightarrow> if Atoi_ok (TrimSpace text) then Atoi_val (TrimSpace text) else 64000)"

text \<open>\<open>SendmsgN\<close>: a packet with the open files behind the descriptors.\<close>

definition sendmsgN :: "send_env \<Rightarrow> string \<Rightarrow> int list \<Rightarrow> chan \<Rightarrow> chan \<times> (string + nat)" where
  "sendmsgN E bytes fds st =
     (if \<exists>fd \<in> set fds. map_of (ch_tx st) fd = None then (st, Inl ''bad file descriptor'')
      else if length fds > scm_max then (st, Inl ''invalid argument'')
      else case sd_sendmsg E of
             Inl e \<Rightarrow> (st, Inl e)
           | Inr n \<Rightarrow> (st\<lparr>ch_queue := ch_queue st @ [(take n bytes, map (\<lambda>fd. the (map_of (ch_tx st) fd)) fds)]\<rparr>,
                       Inr (min n (length bytes))))"

definition sendViaSendmsg :: "send_env \<Rightarrow> string \<Rightarrow> int list \<Rightarrow> chan \<Rightarrow> chan \<times> send_error option" where
  "sendViaSendmsg E serialized fds st =
     (case sendmsgN E serialized fds st of
        (st1, Inl e) \<Rightarrow> (st1, Some (SSendmsg e))
      | (st1, Inr n) \<Rightarrow> (st1, if n \<noteq> length serialized then Some (SShort n (length serialized)) else None))"

text \<open>
  The payload in a memory file. The number of bytes \<open>Write\<close> reports is not looked at. \<open>defer\<close>
  closes the file on every return after it is made.
\<close>

definition sendViaFD :: "send_env \<Rightarrow> string \<Rightarrow> int list \<Rightarrow> chan \<Rightarrow> chan \<times> send_error option" where
  "sendViaFD E serialized fds st =
     (case sd_memfd E of
        Some e \<Rightarrow> (st, Some (SMemfd e))
      | None \<Rightarrow>
        (let memfd = first_free (ch_tx st); d = ch_next st;
             shut = (\<lambda>s. s\<lparr>ch_tx := gdel memfd (ch_tx s)\<rparr>);
             st1 = st\<lparr>ch_file := (ch_file st)(d := ([], 0)), ch_next := Suc d, ch_tx := ch_tx st @ [(memfd, d)]\<rparr> in
         case sd_write E of
           Some e \<Rightarrow> (shut st1, Some (SWrite e))
         | None \<Rightarrow>
           (let written = take max_rw serialized; st2 = st1\<lparr>ch_file := (ch_file st1)(d := (written, length written))\<rparr> in
            case sd_seek E of
              Some e \<Rightarrow> (shut st2, Some (SSeek e))
            | None \<Rightarrow>
              (let st3 = st2\<lparr>ch_file := (ch_file st2)(d := (written, 0))\<rparr> in
               case sendmsgN E argsViaFDMarker (memfd # fds) st3 of
                 (st4, Inl e) \<Rightarrow> (shut st4, Some (SSendmsg e))
               | (st4, Inr n) \<Rightarrow>
                   (shut st4, if n \<noteq> length argsViaFDMarker then Some (SShort n (length argsViaFDMarker)) else None)))))"

definition Send :: "send_env \<Rightarrow> (gval \<Rightarrow> string + string) \<Rightarrow> gval \<Rightarrow> int list \<Rightarrow> chan \<Rightarrow> chan \<times> send_error option" where
  "Send E enc payload fds st =
     (case enc payload of
        Inl e \<Rightarrow> (st, Some (SMarshal e))
      | Inr serialized \<Rightarrow>
          if int (length serialized) > wmemMax (sd_wmem E) then sendViaFD E serialized fds st
          else sendViaSendmsg E serialized fds st)"

section \<open>Recv\<close>

text \<open>
  The receiver's system calls: \<open>rv_peek k\<close> and \<open>rv_read k\<close> are the \<open>k\<close>-th peek and read;
  \<open>rv_room\<close> is how many descriptors fit into its table, the kernel drops the others and sets
  \<open>MSG_CTRUNC\<close>.
\<close>

record recv_env =
  rv_peek :: "nat \<Rightarrow> string option"
  rv_recvmsg :: "string option"
  rv_room :: nat
  rv_control :: "string option"
  rv_rights :: "string option"
  rv_read :: "nat \<Rightarrow> string option"

datatype recv_error = RPeek string | RRecvmsg string | RControl string | RRights string | RNoPayloadFD
  | RRead string | RTruncated | RUnmarshal string

text \<open>The size of the buffer is \<open>4096 * 2 ^ k\<close> at the \<open>k\<close>-th peek; it doubles while the packet is cut off.\<close>

function peek_size :: "recv_env \<Rightarrow> nat \<Rightarrow> nat \<Rightarrow> string + nat" where
  "peek_size E len k =
     (case rv_peek E k of
        Some e \<Rightarrow> Inl e
      | None \<Rightarrow> if len \<le> 4096 * 2 ^ k then Inr (4096 * 2 ^ k) else peek_size E len (Suc k))"
  by pat_completeness auto
termination
proof (relation "measure (\<lambda>(E, len, k). len - k)")
  fix E :: recv_env and len k :: nat
  assume "\<not> len \<le> 4096 * 2 ^ k"
  moreover have "k < 2 ^ k" by simp
  then have "k < 4096 * 2 ^ k" by linarith
  ultimately show "((E, len, Suc k), E, len, k) \<in> measure (\<lambda>(E, len, k). len - k)" by simp
qed simp

declare peek_size.simps [simp del]

text \<open>\<open>readAll\<close>: reads of 32768 bytes from where the file stands to its end; gives what it consumed too.\<close>

function readAll :: "recv_env \<Rightarrow> nat \<Rightarrow> string \<Rightarrow> nat \<times> (string + string)" where
  "readAll E k rest =
     (case rv_read E k of
        Some e \<Rightarrow> (0, Inl e)
      | None \<Rightarrow>
          if rest = [] then (0, Inr [])
          else (case readAll E (Suc k) (drop 32768 rest) of
                  (n, Inl e) \<Rightarrow> (min 32768 (length rest) + n, Inl e)
                | (n, Inr others) \<Rightarrow> (min 32768 (length rest) + n, Inr (take 32768 rest @ others))))"
  by pat_completeness auto
termination by (relation "measure (\<lambda>(E, k, rest). length rest)") auto

declare readAll.simps [simp del]

definition read_payload :: "recv_env \<Rightarrow> int \<Rightarrow> chan \<Rightarrow> chan \<times> (string + string)" where
  "read_payload E fd st =
     (let d = the (map_of (ch_rx st) fd); (text, off) = ch_file st d; (n, r) = readAll E 0 (drop off text) in
      (st\<lparr>ch_file := (ch_file st)(d := (text, off + n))\<rparr>, r))"

text \<open>The end of \<open>Recv\<close>: \<open>shut\<close> is the deferred close of the payload file.\<close>

definition recv_decode ::
    "(string \<Rightarrow> string + gobject option) \<Rightarrow> bool \<Rightarrow> string \<Rightarrow> int list \<Rightarrow> chan
     \<Rightarrow> chan \<times> (recv_error + gobject option \<times> int list option)" where
  "recv_decode dec truncated serialized fds st =
     (let fdset = NewFDSet fds; dropped = st\<lparr>ch_rx := close_fds (snd (FD_Close fdset)) (ch_rx st)\<rparr> in
      if truncated then (dropped, Inl RTruncated)
      else (case dec serialized of
              Inl e \<Rightarrow> (dropped, Inl (RUnmarshal e))
            | Inr result \<Rightarrow> (st, Inr (result, Some fdset))))"

definition recv_packet ::
    "recv_env \<Rightarrow> (string \<Rightarrow> string + gobject option) \<Rightarrow> bool \<Rightarrow> string \<Rightarrow> int list \<Rightarrow> chan
     \<Rightarrow> chan \<times> (recv_error + gobject option \<times> int list option)" where
  "recv_packet E dec truncated data fds st =
     (if data = argsViaFDMarker then
        (case fds of
           [] \<Rightarrow> (st, Inl RNoPayloadFD)
         | payloadFD # others \<Rightarrow>
             (let shut = (\<lambda>s. s\<lparr>ch_rx := close_fds [payloadFD] (ch_rx s)\<rparr>) in
              case read_payload E payloadFD st of
                (st1, Inl e) \<Rightarrow> (shut (st1\<lparr>ch_rx := close_fds others (ch_rx st1)\<rparr>), Inl (RRead e))
              | (st1, Inr payload) \<Rightarrow>
                  (case recv_decode dec truncated payload others st1 of (st2, r) \<Rightarrow> (shut st2, r))))
      else recv_decode dec truncated data fds st)"

text \<open>An empty queue stands for a connection the other end has closed.\<close>

definition Recv ::
    "recv_env \<Rightarrow> (string \<Rightarrow> string + gobject option) \<Rightarrow> chan
     \<Rightarrow> chan \<times> (recv_error + gobject option \<times> int list option)" where
  "Recv E dec st =
     (case ch_queue st of
        [] \<Rightarrow> (st, case rv_peek E 0 of Some e \<Rightarrow> Inl (RPeek e) | None \<Rightarrow> Inr (None, None))
      | (bytes, descs) # queue \<Rightarrow>
          (case peek_size E (length bytes) 0 of
             Inl e \<Rightarrow> (st, Inl (RPeek e))
           | Inr size' \<Rightarrow>
               if bytes = [] then (st, Inr (None, None))
               else
                 (case rv_recvmsg E of
                    Some e \<Rightarrow> (st, Inl (RRecvmsg e))
                  | None \<Rightarrow>
                      (let (fds, tab) = install_fds (take (rv_room E) descs) (ch_rx st);
                           st1 = st\<lparr>ch_queue := queue, ch_rx := tab\<rparr>;
                           truncated = (length bytes > size' \<or> rv_room E < length descs) in
                       case (if fds = [] then None else rv_control E) of
                         Some e \<Rightarrow> (st1, Inl (RControl e))
                       | None \<Rightarrow>
                           (case (if fds = [] then None else rv_rights E) of
                              Some e \<Rightarrow> (st1, Inl (RRights e))
                            | None \<Rightarrow> recv_packet E dec truncated (take size' bytes) fds st1)))))"

end
