(* ===== verification/Service.thy ===== *)
theory Service
  imports Socket
begin

text \<open>
  \<^verbatim>\<open>service/protocol.go\<close> and \<^verbatim>\<open>service/manager.go\<close>: the messages a service process is called with and
  answers with, the loop that waits for the answer of a call, and the manager that starts and stops
  the processes.
\<close>

section \<open>Protocol\<close>

datatype protocol_error = MissingType | MissingData | MissingName | MissingReply | UnknownType string

record remote_error =
  re_Name :: string
  re_Value :: string
  re_Backtrace :: string

definition EncodeMethod :: "string \<Rightarrow> gval \<Rightarrow> gobject" where
  "EncodeMethod name args =
     (let args' = (if args = GNil then GSlice [] else args) in
      [(''type'', GString ''method''), (''data'', GMap [(''name'', GString name), (''args'', args')])])"

definition EncodeReply :: "gval \<Rightarrow> gobject" where
  "EncodeReply reply = [(''type'', GString ''reply''), (''data'', GMap [(''reply'', reply)])]"

definition EncodeSignal :: "gval \<Rightarrow> gobject" where
  "EncodeSignal sig = [(''type'', GString ''signal''), (''data'', GMap [(''reply'', sig)])]"

definition EncodeException :: "string \<Rightarrow> string \<Rightarrow> string \<Rightarrow> gobject" where
  "EncodeException name value backtrace =
     [(''type'', GString ''exception''), (''data'', GMap [(''name'', GString name), (''value'', GString value),
        (''backtrace'', GString backtrace)])]"

definition DecodeMessage :: "gobject \<Rightarrow> protocol_error + string \<times> gobject" where
  "DecodeMessage msg =
     (case map_of msg ''type'' of
        Some (GString kind) \<Rightarrow>
          (case map_of msg ''data'' of Some (GMap data) \<Rightarrow> Inr (kind, data) | _ \<Rightarrow> Inl MissingData)
      | _ \<Rightarrow> Inl MissingType)"

definition DecodeMethod :: "gobject \<Rightarrow> protocol_error + string \<times> gval" where
  "DecodeMethod data =
     (case map_of data ''name'' of
        Some (GString name) \<Rightarrow>
          Inr (name, case map_of data ''args'' of None \<Rightarrow> GSlice [] | Some args \<Rightarrow> if args = GNil then GSlice [] else args)
      | _ \<Rightarrow> Inl MissingName)"

definition DecodeReply :: "gobject \<Rightarrow> protocol_error + gval" where
  "DecodeReply data = (case map_of data ''reply'' of None \<Rightarrow> Inl MissingReply | Some r \<Rightarrow> Inr r)"

definition DecodeException :: "gobject \<Rightarrow> remote_error" where
  "DecodeException data =
     \<lparr>re_Name = get_string0 data ''name'', re_Value = get_string0 data ''value'', re_Backtrace = get_string0 data ''backtrace''\<rparr>"

text \<open>What one side of the protocol encodes, the other decodes: method calls with their name and
  arguments (a nil argument arrives as the empty list), replies and signals with any value, nil
  included, and exceptions with their three fields.\<close>

theorem protocol_roundtrip:
  "(case DecodeMessage (EncodeMethod name args) of
      Inr (kind, data) \<Rightarrow> kind = ''method'' \<and> DecodeMethod data = Inr (name, if args = GNil then GSlice [] else args)
    | Inl _ \<Rightarrow> False)
   \<and> (case DecodeMessage (EncodeReply v) of Inr (kind, data) \<Rightarrow> kind = ''reply'' \<and> DecodeReply data = Inr v | Inl _ \<Rightarrow> False)
   \<and> (case DecodeMessage (EncodeSignal v) of Inr (kind, data) \<Rightarrow> kind = ''signal'' \<and> DecodeReply data = Inr v | Inl _ \<Rightarrow> False)
   \<and> (case DecodeMessage (EncodeException n w bt) of
        Inr (kind, data) \<Rightarrow> kind = ''exception'' \<and> DecodeException data = \<lparr>re_Name = n, re_Value = w, re_Backtrace = bt\<rparr>
      | Inl _ \<Rightarrow> False)"
  by (simp add: EncodeMethod_def EncodeReply_def EncodeSignal_def EncodeException_def DecodeMessage_def
      DecodeMethod_def DecodeReply_def DecodeException_def get_string0_def get_string_def)

section \<open>A call\<close>

datatype call_error = CSend send_error | CCtx string | CRecv recv_error | CClosed | CProtocol protocol_error
  | CRemote remote_error

text \<open>What a call does besides returning: the signals it hands to the caller's handler, and the descriptors it closes.\<close>

record call_state =
  cs_signals :: "(gval \<times> int list option) list"
  cs_shut :: "int list"

type_synonym incoming = "recv_error + gobject option \<times> int list option"

definition fds_in :: "int list option \<Rightarrow> int list" where
  "fds_in s = (case s of None \<Rightarrow> [] | Some fds \<Rightarrow> live fds)"

definition drop_fds :: "int list option \<Rightarrow> call_state \<Rightarrow> call_state" where
  "drop_fds s c = (case s of None \<Rightarrow> c | Some fds \<Rightarrow> c\<lparr>cs_shut := cs_shut c @ snd (FD_Close fds)\<rparr>)"

text \<open>
  \<open>msgs\<close> is what the successive calls of \<open>Recv\<close> return; \<open>None\<close> is a call that still waits when they
  are used up. \<open>ctx i\<close> is the poll before the \<open>i\<close>-th of them, \<open>handler\<close> whether \<open>onSignal\<close> is set.
\<close>

fun call_loop ::
    "(nat \<Rightarrow> string option) \<Rightarrow> bool \<Rightarrow> nat \<Rightarrow> incoming list \<Rightarrow> call_state
     \<Rightarrow> call_state \<times> (call_error + gval \<times> int list option) option" where
  "call_loop ctx handler i [] c = (c, case ctx i of Some e \<Rightarrow> Some (Inl (CCtx e)) | None \<Rightarrow> None)"
| "call_loop ctx handler i (m # msgs) c =
     (case ctx i of
        Some e \<Rightarrow> (c, Some (Inl (CCtx e)))
      | None \<Rightarrow>
        (case m of
           Inl e \<Rightarrow> (c, Some (Inl (CRecv e)))
         | Inr (None, retFDs) \<Rightarrow> (c, Some (Inl CClosed))
         | Inr (Some ret, retFDs) \<Rightarrow>
             (case DecodeMessage ret of
                Inl e \<Rightarrow> (drop_fds retFDs c, Some (Inl (CProtocol e)))
              | Inr (kind, data) \<Rightarrow>
                  if kind = ''signal'' then
                    (let reply = (case DecodeReply data of Inl _ \<Rightarrow> GNil | Inr r \<Rightarrow> r) in
                     call_loop ctx handler (Suc i) msgs
                       (if handler then c\<lparr>cs_signals := cs_signals c @ [(reply, retFDs)]\<rparr> else drop_fds retFDs c))
                  else if kind = ''reply'' then
                    (case DecodeReply data of
                       Inl e \<Rightarrow> (drop_fds retFDs c, Some (Inl (CProtocol e)))
                     | Inr reply \<Rightarrow> (c, Some (Inr (reply, retFDs))))
                  else if kind = ''exception'' then
                    (drop_fds retFDs c, Some (Inl (CRemote (DecodeException data))))
                  else (drop_fds retFDs c, Some (Inl (CProtocol (UnknownType kind)))))))"

text \<open>\<open>send\<close> is \<open>Send\<close> on the client's socket.\<close>

definition CallWithFDs ::
    "(gobject \<Rightarrow> int list \<Rightarrow> send_error option) \<Rightarrow> (nat \<Rightarrow> string option) \<Rightarrow> bool \<Rightarrow> string \<Rightarrow> gval \<Rightarrow> int list
     \<Rightarrow> incoming list \<Rightarrow> call_state \<times> (call_error + gval \<times> int list option) option" where
  "CallWithFDs send ctx handler method args fds msgs =
     (let c = \<lparr>cs_signals = [], cs_shut = []\<rparr> in
      case send (EncodeMethod method args) fds of
        Some e \<Rightarrow> (c, Some (Inl (CSend e)))
      | None \<Rightarrow> call_loop ctx handler 0 msgs c)"

text \<open>\<open>Call\<close> drops the descriptors of the answer without closing them.\<close>

definition Call ::
    "(gobject \<Rightarrow> int list \<Rightarrow> send_error option) \<Rightarrow> (nat \<Rightarrow> string option) \<Rightarrow> string \<Rightarrow> gval
     \<Rightarrow> incoming list \<Rightarrow> call_state \<times> (call_error + gval) option" where
  "Call send ctx method args msgs =
     (case CallWithFDs send ctx False method args [] msgs of (c, r) \<Rightarrow> (c, map_option (map_sum id fst) r))"

text \<open>How a call takes a message: whether it goes on after it, and the descriptors that come with it.\<close>

definition is_signal :: "incoming \<Rightarrow> bool" where
  "is_signal m =
     (case m of
        Inr (Some ret, fds) \<Rightarrow> (case DecodeMessage ret of Inr (kind, data) \<Rightarrow> kind = ''signal'' | Inl _ \<Rightarrow> False)
      | _ \<Rightarrow> False)"

definition signal_of :: "incoming \<Rightarrow> gval \<times> int list option" where
  "signal_of m =
     (case m of
        Inr (Some ret, fds) \<Rightarrow>
          (case DecodeMessage ret of
             Inr (kind, data) \<Rightarrow> (case DecodeReply data of Inl _ \<Rightarrow> GNil | Inr r \<Rightarrow> r, fds)
           | Inl _ \<Rightarrow> (GNil, fds))
      | _ \<Rightarrow> (GNil, None))"

definition received :: "incoming \<Rightarrow> int list" where
  "received m = (case m of Inl e \<Rightarrow> [] | Inr (ret, fds) \<Rightarrow> fds_in fds)"

definition is_null :: "incoming \<Rightarrow> bool" where
  "is_null m = (case m of Inr (None, Some fds) \<Rightarrow> True | _ \<Rightarrow> False)"

definition returned :: "call_error + gval \<times> int list option \<Rightarrow> int list" where
  "returned r = (case r of Inl e \<Rightarrow> [] | Inr (v, fds) \<Rightarrow> fds_in fds)"

text \<open>The descriptors a call has dealt with so far.\<close>

definition dealt_with :: "call_state \<Rightarrow> int multiset" where
  "dealt_with c = mset (concat (map (fds_in \<circ> snd) (cs_signals c))) + mset (cs_shut c)"

lemma dealt_with_drop [simp]: "dealt_with (drop_fds fds c) = dealt_with c + mset (fds_in fds)"
  by (simp add: dealt_with_def drop_fds_def fds_in_def FD_Close_spec split: option.split)

lemma drop_fds_signals [simp]: "cs_signals (drop_fds fds c) = cs_signals c"
  by (simp add: drop_fds_def split: option.split)

lemma is_signal_iff:
  "is_signal m \<longleftrightarrow> (\<exists>ret fds data. m = Inr (Some ret, fds) \<and> DecodeMessage ret = Inr (''signal'', data))"
proof (cases "\<exists>ret fds. m = Inr (Some ret, fds)")
  case True
  then obtain ret fds where "m = Inr (Some ret, fds)" by blast
  then show ?thesis by (cases "DecodeMessage ret") (auto simp: is_signal_def)
qed (auto simp: is_signal_def split: sum.split option.split)

lemma call_loop_signal:
  assumes "is_signal m" "ctx i = None"
  shows "call_loop ctx handler i (m # msgs) c =
    call_loop ctx handler (Suc i) msgs
      (if handler then c\<lparr>cs_signals := cs_signals c @ [signal_of m]\<rparr> else drop_fds (snd (signal_of m)) c)"
proof -
  obtain ret fds data where m: "m = Inr (Some ret, fds)" "DecodeMessage ret = Inr (''signal'', data)"
    using assms(1) by (auto simp: is_signal_iff)
  show ?thesis by (subst call_loop.simps) (simp add: m assms(2) signal_of_def Let_def)
qed

lemma received_signal: "is_signal m \<Longrightarrow> received m = fds_in (snd (signal_of m))"
  by (auto simp: is_signal_def signal_of_def received_def split: sum.splits option.splits prod.splits)

lemma call_loop_final:
  assumes "\<not> is_signal m" "\<not> is_null m" "ctx i = None"
  shows "\<exists>c' r. call_loop ctx handler i (m # msgs) c = (c', Some r) \<and> cs_signals c' = cs_signals c
    \<and> dealt_with c' + mset (returned r) = dealt_with c + mset (received m)"
proof (cases m)
  case (Inl e)
  then show ?thesis using assms by (simp add: returned_def received_def)
next
  case (Inr p)
  obtain ret fds where p: "p = (ret, fds)" by fastforce
  show ?thesis
  proof (cases ret)
    case None
    with assms(2) Inr p have "fds = None" by (auto simp: is_null_def split: option.splits)
    with None Inr p assms(3) show ?thesis by (simp add: returned_def received_def fds_in_def)
  next
    case (Some d)
    with assms Inr p show ?thesis
      by (auto simp: is_signal_def returned_def received_def split: sum.splits prod.splits)
  qed
qed

declare call_loop.simps [simp del]

lemma call_loop_accounts:
  assumes "\<forall>m \<in> set sigs. is_signal m" "\<not> is_signal final" "\<not> is_null final" "\<And>i. ctx i = None"
  shows "\<exists>c' r. call_loop ctx handler i (sigs @ final # rest) c = (c', Some r)
    \<and> cs_signals c' = cs_signals c @ (if handler then map signal_of sigs else [])
    \<and> dealt_with c' + mset (returned r) = dealt_with c + mset (concat (map received (sigs @ [final])))"
  using assms(1)
proof (induction sigs arbitrary: i c)
  case Nil
  then show ?case using call_loop_final [OF assms(2-4)] by simp
next
  case (Cons m sigs)
  let ?c1 = "if handler then c\<lparr>cs_signals := cs_signals c @ [signal_of m]\<rparr> else drop_fds (snd (signal_of m)) c"
  have m: "is_signal m" using Cons.prems by simp
  have "dealt_with ?c1 = dealt_with c + mset (received m)"
    by (simp add: received_signal [OF m]) (simp add: dealt_with_def)
  moreover have "cs_signals ?c1 = cs_signals c @ (if handler then [signal_of m] else [])" by simp
  ultimately show ?case
    using Cons.IH [of "Suc i" ?c1] Cons.prems unfolding append_Cons call_loop_signal [OF m assms(4)]
    by (cases handler) (simp_all add: add_ac)
qed

declare call_loop.simps [simp]

text \<open>C31: A call deals with every descriptor it receives: whatever signals come before the final message,
  and whatever that message is - a reply, an exception, a message of no known form, or an error of
  the socket - the call ends there, a handler gets every signal, in order, with its descriptors, and
  each descriptor received is handed to the handler, closed, or returned with the reply, exactly
  once. (The one message excluded is \<open>null\<close>: it is taken for the end of the connection, and
  descriptors that come with it stay open.)\<close>

theorem CallWithFDs_accounts:
  assumes "\<forall>m \<in> set sigs. is_signal m" "\<not> is_signal final" "\<not> is_null final" "\<And>i. ctx i = None"
    "send (EncodeMethod method args) fds = None"
  shows "\<exists>c r. CallWithFDs send ctx handler method args fds (sigs @ final # rest) = (c, Some r)
    \<and> cs_signals c = (if handler then map signal_of sigs else [])
    \<and> mset (concat (map (fds_in \<circ> snd) (cs_signals c))) + mset (cs_shut c) + mset (returned r)
        = mset (concat (map received (sigs @ [final])))"
  using call_loop_accounts [OF assms(1-4), where c = "\<lparr>cs_signals = [], cs_shut = []\<rparr>" and handler = handler and i = 0 and rest = rest] assms(5)
  by (simp add: CallWithFDs_def Let_def dealt_with_def)

theorem CallWithFDs_accounts_witness:
  "\<exists>c r. CallWithFDs (\<lambda>_ _. None) (\<lambda>_. None) False ''open'' GNil []
       [Inr (Some (EncodeSignal (GInt 50)), Some [7]), Inr (Some (EncodeReply GNil), Some [8, 9])] = (c, Some r)
     \<and> mset (cs_shut c) + mset (returned r) = {#7, 8, 9#}"
proof -
  let ?sig = "Inr (Some (EncodeSignal (GInt 50)), Some [7]) :: incoming"
    and ?fin = "Inr (Some (EncodeReply GNil), Some [8, 9]) :: incoming"
  have "is_signal ?sig" "\<not> is_signal ?fin" "\<not> is_null ?fin"
    by (simp_all add: is_signal_def is_null_def EncodeSignal_def EncodeReply_def DecodeMessage_def)
  then show ?thesis
    using CallWithFDs_accounts [of "[?sig]" ?fin "\<lambda>_. None" "\<lambda>_ _. None" "''open''" GNil "[]" False "[]"]
    by (auto simp: received_def fds_in_def live_def)
qed

lemma CallWithFDs_null:
  "send (EncodeMethod method args) fds = None \<Longrightarrow> ctx 0 = None \<Longrightarrow>
     CallWithFDs send ctx handler method args fds (Inr (None, Some fds') # rest)
       = (\<lparr>cs_signals = [], cs_shut = []\<rparr>, Some (Inl CClosed))"
  by (simp add: CallWithFDs_def Let_def)

end
