(* ===== verification/SocketFacts.thy ===== *)
theory SocketFacts
  imports Socket
begin

text \<open>
  What a message survives: the round trip through both ways of sending, and what becomes of the
  descriptors of a message that cannot be received.
\<close>

section \<open>Tables\<close>

lemma close_fds_filter: "close_fds fds tab = filter (\<lambda>e. fst e \<notin> set fds) tab"
proof (induction fds arbitrary: tab)
  case (Cons fd fds)
  have "close_fds (fd # fds) tab = close_fds fds (gdel fd tab)" by (simp add: close_fds_def)
  then show ?case
    by (auto simp: Cons gdel_def AList.delete_eq case_prod_beta intro!: filter_cong)
qed (simp add: close_fds_def)

lemma install_fds_spec:
  assumes "install_fds ds tab = (fds, tab')"
  shows "tab' = tab @ zip fds ds \<and> length fds = length ds \<and> set fds \<inter> set (gkeys tab) = {} \<and> distinct fds
    \<and> (\<forall>fd \<in> set fds. fd \<ge> 0)"
  using assms
proof (induction ds arbitrary: tab fds tab')
  case (Cons d ds)
  obtain fs t where r: "install_fds ds (tab @ [(first_free tab, d)]) = (fs, t)" by fastforce
  with Cons.prems have "fds = first_free tab # fs" "tab' = t" by (auto simp: Let_def)
  with Cons.IH [OF r] first_free_fresh [of tab] first_free_nonneg [of tab] show ?case by auto
qed simp

lemma install_fds_Nil: "install_fds ds tab = ([], tab') \<Longrightarrow> ds = [] \<and> tab' = tab"
  using install_fds_spec [of ds tab "[]" tab'] by simp

lemma close_installed:
  assumes "install_fds ds tab = (fds, tab')" "set fds \<subseteq> set shut" "set shut \<inter> set (gkeys tab) = {}"
  shows "close_fds shut tab' = tab"
proof -
  note i = install_fds_spec [OF assms(1)]
  have "filter (\<lambda>e. fst e \<notin> set shut) tab = tab" using assms(3) by (auto simp: filter_id_conv)
  moreover have "filter (\<lambda>e. fst e \<notin> set shut) (zip fds ds) = []"
    using assms(2) by (auto simp: filter_empty_conv dest: set_zip_leftD)
  ultimately show ?thesis using i by (simp add: close_fds_filter)
qed

lemma close_fds_append: "close_fds fds (close_fds fds' tab) = close_fds (fds' @ fds) tab"
  by (simp add: close_fds_def)

lemma live_nonneg: "\<forall>fd \<in> set fds. fd \<ge> 0 \<Longrightarrow> snd (FD_Close fds) = fds"
  by (simp add: FD_Close_spec live_def)

section \<open>Reading a packet\<close>

lemma peek_size_enough: "peek_size E len k = Inr n \<Longrightarrow> len \<le> n"
  by (induction E len k rule: peek_size.induct) (auto simp: peek_size.simps [of _ _ k for k] split: option.splits if_splits)

lemma peek_size_total: "(\<And>k. rv_peek E k = None) \<Longrightarrow> \<exists>n. peek_size E len k = Inr n"
  by (induction E len k rule: peek_size.induct) (auto simp: peek_size.simps [of _ _ k for k])

lemma readAll_total: "(\<And>k. rv_read E k = None) \<Longrightarrow> readAll E k s = (length s, Inr s)"
  by (induction E k s rule: readAll.induct) (auto simp: readAll.simps [of _ k for k])

lemma read_payload_tables [simp]:
  "ch_rx (fst (read_payload E fd st)) = ch_rx st" "ch_tx (fst (read_payload E fd st)) = ch_tx st"
  "ch_queue (fst (read_payload E fd st)) = ch_queue st"
  by (simp_all add: read_payload_def Let_def split: prod.splits)

lemma recv_decode_error:
  assumes "recv_decode dec truncated s fds st = (st', Inl e)" "\<forall>fd \<in> set fds. fd \<ge> 0"
  shows "ch_rx st' = close_fds fds (ch_rx st)"
  using assms by (auto simp: recv_decode_def NewFDSet_def live_nonneg Let_def split: if_splits sum.splits)

lemma recv_packet_error:
  assumes "recv_packet E dec truncated data fds st = (st', Inl e)" "\<forall>fd \<in> set fds. fd \<ge> 0"
  shows "ch_rx st' = close_fds fds (ch_rx st)"
proof (cases "data = argsViaFDMarker")
  case False
  then show ?thesis using assms recv_decode_error by (auto simp: recv_packet_def)
next
  case True
  show ?thesis
  proof (cases fds)
    case Nil
    then show ?thesis using assms True by (auto simp: recv_packet_def close_fds_def)
  next
    case (Cons p others)
    obtain st1 r where r: "read_payload E p st = (st1, r)" by fastforce
    then have rx: "ch_rx st1 = ch_rx st" using read_payload_tables(1) [of E p st] by simp
    have app: "close_fds [p] (close_fds others t) = close_fds fds t" for t
      by (simp add: close_fds_filter Cons conj_commute)
    show ?thesis
    proof (cases r)
      case (Inl e')
      then show ?thesis using assms True Cons r rx app by (auto simp: recv_packet_def Let_def)
    next
      case (Inr payload)
      obtain st2 r2 where d: "recv_decode dec truncated payload others st1 = (st2, r2)" by fastforce
      with assms True Cons r Inr have "r2 = Inl e" "st' = st2\<lparr>ch_rx := close_fds [p] (ch_rx st2)\<rparr>"
        by (auto simp: recv_packet_def Let_def)
      with recv_decode_error [OF d [unfolded this(1)]] assms(2) Cons rx app show ?thesis by simp
    qed
  qed
qed

text \<open>C30: A message that cannot be received leaks no descriptor: when \<open>Recv\<close> fails, because a system
  call fails, the message is cut off, its payload cannot be read, or its JSON is invalid, the
  receiver has the same descriptors open as before. The exceptions are the two errors of taking
  the control message apart, after which whatever came with the message stays open.\<close>

theorem Recv_error_no_leak:
  assumes "Recv E dec st = (st', Inl e)" "e \<notin> range RControl" "e \<notin> range RRights"
  shows "ch_rx st' = ch_rx st"
proof (cases "ch_queue st")
  case Nil
  then show ?thesis using assms(1) by (auto simp: Recv_def)
next
  case (Cons p queue)
  obtain bytes descs where p: "p = (bytes, descs)" by fastforce
  show ?thesis
  proof (cases "\<exists>n. peek_size E (length bytes) 0 = Inr n \<and> bytes \<noteq> [] \<and> rv_recvmsg E = None")
    case False
    then show ?thesis using assms(1) Cons p by (auto simp: Recv_def split: sum.splits if_splits option.splits)
  next
    case True
    then obtain n where n: "peek_size E (length bytes) 0 = Inr n" "bytes \<noteq> []" "rv_recvmsg E = None" by blast
    obtain fds tab where i: "install_fds (take (rv_room E) descs) (ch_rx st) = (fds, tab)" by fastforce
    define st1 where "st1 = st\<lparr>ch_queue := queue, ch_rx := tab\<rparr>"
    have "recv_packet E dec (length bytes > n \<or> rv_room E < length descs) (take n bytes) fds st1 = (st', Inl e)"
      using assms Cons p n i unfolding st1_def
      by (auto simp: Recv_def Let_def split: option.splits if_splits)
    then have "ch_rx st' = close_fds fds (ch_rx st1)"
      using recv_packet_error install_fds_spec [OF i] by blast
    with close_installed [OF i, of fds] install_fds_spec [OF i] show ?thesis by (simp add: st1_def)
  qed
qed

section \<open>The round trip\<close>

text \<open>A receiver on which nothing fails and which has room for \<open>n\<close> descriptors.\<close>

definition recv_works :: "recv_env \<Rightarrow> nat \<Rightarrow> bool" where
  "recv_works E n \<longleftrightarrow> rv_peek E = (\<lambda>_. None) \<and> rv_recvmsg E = None \<and> n \<le> rv_room E \<and> rv_control E = None
     \<and> rv_rights E = None \<and> rv_read E = (\<lambda>_. None)"

text \<open>The open files behind descriptors, and the bytes that arrive of a message.\<close>

definition files_of :: "fdtable \<Rightarrow> int list \<Rightarrow> nat list" where
  "files_of tab fds = map (\<lambda>fd. the (map_of tab fd)) fds"

definition arrives :: "send_env \<Rightarrow> string \<Rightarrow> string" where
  "arrives E s = (if int (length s) > wmemMax (sd_wmem E) then take max_rw s else s)"

lemma Recv_packet:
  assumes "recv_works E (length descs)" "ch_queue st = (bytes, descs) # queue" "bytes \<noteq> []"
    "install_fds descs (ch_rx st) = (fds, tab)"
  shows "Recv E dec st = recv_packet E dec False bytes fds (st\<lparr>ch_queue := queue, ch_rx := tab\<rparr>)"
proof -
  have env: "rv_peek E = (\<lambda>_. None)" "rv_recvmsg E = None" "length descs \<le> rv_room E" "rv_control E = None" "rv_rights E = None"
    using assms(1) by (simp_all add: recv_works_def)
  obtain n where n: "peek_size E (length bytes) 0 = Inr n" using peek_size_total [of E] env(1) by auto
  then have "length bytes \<le> n" by (rule peek_size_enough)
  with n env assms(2-4) show ?thesis by (simp add: Recv_def Let_def not_less)
qed

lemma recv_decode_ok:
  "dec s = Inr m \<Longrightarrow> recv_decode dec False s fds st = (st, Inr (m, Some fds))"
  by (simp add: recv_decode_def NewFDSet_def Let_def)

lemma close_payload:
  assumes "install_fds (d # ds) tab = (fd # fds, tab')"
  shows "close_fds [fd] tab' = tab @ zip fds ds"
proof -
  note i = install_fds_spec [OF assms]
  then have "tab' = tab @ (fd, d) # zip fds ds" "fd \<notin> set (gkeys tab)" "fd \<notin> set fds" by auto
  moreover from this(2,3) have "filter (\<lambda>e. fst e \<notin> {fd}) tab = tab"
    "filter (\<lambda>e. fst e \<notin> {fd}) (zip fds ds) = zip fds ds"
    by (auto simp: filter_id_conv dest: set_zip_leftD)
  ultimately show ?thesis by (simp add: close_fds_filter)
qed

lemma Recv_direct:
  assumes "recv_works E (length descs)" "ch_queue st = [(bytes, descs)]" "bytes \<noteq> []" "bytes \<noteq> argsViaFDMarker"
    "dec bytes = Inr m"
  shows "\<exists>rfds. Recv E dec st = (st\<lparr>ch_queue := [], ch_rx := ch_rx st @ zip rfds descs\<rparr>, Inr (m, Some rfds))
    \<and> length rfds = length descs"
proof -
  obtain fds tab where i: "install_fds descs (ch_rx st) = (fds, tab)" by fastforce
  from Recv_packet [where dec = dec, OF assms(1-3) i] install_fds_spec [OF i] assms(4,5) show ?thesis
    by (intro exI [of _ fds]) (simp add: recv_packet_def recv_decode_ok)
qed

lemma Recv_via_file:
  assumes "recv_works E (Suc (length descs))" "ch_queue st = [(argsViaFDMarker, d # descs)]" "ch_file st d = (text, 0)"
    "dec text = Inr m"
  shows "\<exists>rfds st'. Recv E dec st = (st', Inr (m, Some rfds)) \<and> ch_rx st' = ch_rx st @ zip rfds descs
    \<and> length rfds = length descs \<and> ch_queue st' = [] \<and> ch_tx st' = ch_tx st"
proof -
  obtain fds0 tab where i0: "install_fds (d # descs) (ch_rx st) = (fds0, tab)" by fastforce
  moreover from install_fds_spec [OF i0] obtain fd fds where "fds0 = fd # fds" by (cases fds0) auto
  ultimately have i: "install_fds (d # descs) (ch_rx st) = (fd # fds, tab)" by simp
  note spec = install_fds_spec [OF i]
  define st1 where "st1 = st\<lparr>ch_queue := [], ch_rx := tab\<rparr>"
  have "map_of (ch_rx st) fd = None" using spec by (auto simp: map_of_eq_None_iff)
  then have fd: "map_of (ch_rx st1) fd = Some d" using spec by (auto simp: st1_def map_add_def)
  have contents: "ch_file st1 d = (text, 0)" using assms(3) by (simp add: st1_def)
  have read: "read_payload E fd st1 = (st1\<lparr>ch_file := (ch_file st1)(d := (text, length text))\<rparr>, Inr text)"
    using assms(1) fd contents by (simp add: read_payload_def readAll_total recv_works_def)
  have "Recv E dec st = recv_packet E dec False argsViaFDMarker (fd # fds) st1"
    unfolding st1_def by (rule Recv_packet [OF _ assms(2) _ i]) (use assms(1) in \<open>simp_all add: argsViaFDMarker_def\<close>)
  also have "\<dots> = (st1\<lparr>ch_file := (ch_file st1)(d := (text, length text)), ch_rx := close_fds [fd] (ch_rx st1)\<rparr>, Inr (m, Some fds))"
    by (simp add: recv_packet_def read recv_decode_ok assms(4))
  finally show ?thesis
    using close_payload [OF i] spec by (intro exI [of _ fds]) (auto simp: st1_def)
qed

lemma sendmsgN_queue:
  assumes "sendmsgN E bytes fds st = (st', Inr (length bytes))"
  shows "st' = st\<lparr>ch_queue := ch_queue st @ [(bytes, files_of (ch_tx st) fds)]\<rparr>"
  using assms by (auto simp: sendmsgN_def files_of_def split: if_splits sum.splits)

lemma sendViaFD_queue:
  assumes "sendViaFD E s fds st = (st', None)" "set fds \<subseteq> set (gkeys (ch_tx st))"
  shows "\<exists>d. ch_queue st' = ch_queue st @ [(argsViaFDMarker, d # files_of (ch_tx st) fds)] \<and> ch_file st' d = (take max_rw s, 0)
    \<and> ch_tx st' = ch_tx st \<and> ch_rx st' = ch_rx st"
proof -
  let ?memfd = "first_free (ch_tx st)" and ?d = "ch_next st"
  define st3 where "st3 = st\<lparr>ch_next := Suc ?d, ch_tx := ch_tx st @ [(?memfd, ?d)], ch_file := (ch_file st)(?d := (take max_rw s, 0))\<rparr>"
  obtain st4 where st4: "sendmsgN E argsViaFDMarker (?memfd # fds) st3 = (st4, Inr (length argsViaFDMarker))"
    "st' = st4\<lparr>ch_tx := gdel ?memfd (ch_tx st4)\<rparr>"
    using assms(1) unfolding st3_def
    by (auto simp: sendViaFD_def Let_def split: option.splits prod.splits sum.splits if_splits)
  have fresh: "?memfd \<notin> set (gkeys (ch_tx st))" by (rule first_free_fresh)
  have "files_of (ch_tx st3) (?memfd # fds) = ?d # files_of (ch_tx st) fds"
  proof -
    have "map_of (ch_tx st) ?memfd = None" using fresh by (simp add: map_of_eq_None_iff)
    moreover have "map_of (ch_tx st3) fd = map_of (ch_tx st) fd" if "fd \<in> set fds" for fd
    proof -
      have "fd \<in> dom (map_of (ch_tx st))" using that assms(2) by (auto simp: dom_map_of_conv_image_fst)
      then show ?thesis by (auto simp: st3_def map_add_def split: option.splits)
    qed
    ultimately show ?thesis by (simp add: files_of_def st3_def map_add_def)
  qed
  moreover have "gdel ?memfd (ch_tx st @ [(?memfd, ?d)]) = ch_tx st"
    using fresh by (force simp: gdel_def AList.delete_eq filter_id_conv)
  ultimately show ?thesis using st4 sendmsgN_queue [OF st4(1)] by (intro exI [of _ ?d]) (simp add: st3_def)
qed


lemma sendViaSendmsg_queue:
  "sendViaSendmsg E s fds st = (st', None) \<Longrightarrow>
     st' = st\<lparr>ch_queue := ch_queue st @ [(s, files_of (ch_tx st) fds)]\<rparr>"
  using sendmsgN_queue [of E s fds st]
  by (auto simp: sendViaSendmsg_def split: prod.splits sum.splits if_splits)

text \<open>C29: A message arrives as it was sent, whichever way it takes: after a \<open>Send\<close> that reports success, a
  receiver on which nothing fails gets the decoded payload and one new descriptor for each
  descriptor sent, open on the same file and in the same order; the sender's table is as before and
  nothing else was added to the receiver's, so the memory file of a large payload is closed at both
  ends. Of a payload that goes through a memory file only the first 2147479552 bytes arrive.\<close>

theorem Send_Recv:
  assumes "Send S enc v fds st = (st1, None)" "enc v = Inr s" "s \<noteq> []" "s \<noteq> argsViaFDMarker"
    "ch_queue st = []" "set fds \<subseteq> set (gkeys (ch_tx st))"
    "recv_works R (Suc (length fds))" "dec (arrives S s) = Inr m"
  shows "\<exists>rfds st2. Recv R dec st1 = (st2, Inr (m, Some rfds))
    \<and> ch_rx st2 = ch_rx st @ zip rfds (files_of (ch_tx st) fds) \<and> length rfds = length fds
    \<and> ch_tx st2 = ch_tx st \<and> ch_queue st2 = []"
proof (cases "int (length s) > wmemMax (sd_wmem S)")
  case False
  then have "sendViaSendmsg S s fds st = (st1, None)" "dec s = Inr m"
    using assms(1,2,8) by (auto simp: Send_def arrives_def)
  moreover have "recv_works R (length (files_of (ch_tx st) fds))"
    using assms(7) by (simp add: recv_works_def files_of_def)
  moreover have "ch_queue (st\<lparr>ch_queue := ch_queue st @ [(s, files_of (ch_tx st) fds)]\<rparr>) = [(s, files_of (ch_tx st) fds)]"
    using assms(5) by simp
  ultimately show ?thesis
    using sendViaSendmsg_queue [of S s fds st st1] Recv_direct [OF _ _ assms(3,4), of R "files_of (ch_tx st) fds" st1 dec m]
    by (auto simp: files_of_def)
next
  case True
  then have "sendViaFD S s fds st = (st1, None)" and dec: "dec (take max_rw s) = Inr m"
    using assms(1,2,8) by (auto simp: Send_def arrives_def)
  then obtain d where d: "ch_queue st1 = [(argsViaFDMarker, d # files_of (ch_tx st) fds)]"
    "ch_file st1 d = (take max_rw s, 0)" "ch_tx st1 = ch_tx st" "ch_rx st1 = ch_rx st"
    using sendViaFD_queue [OF _ assms(6)] assms(5) by fastforce
  have "recv_works R (Suc (length (files_of (ch_tx st) fds)))" using assms(7) by (simp add: files_of_def)
  from Recv_via_file [where dec = dec, OF this d(1,2) dec] d(3,4) show ?thesis by (auto simp: files_of_def)
qed

section \<open>An example\<close>

definition demo_chan :: chan where
  "demo_chan = \<lparr>ch_file = (\<lambda>_. ([], 0)), ch_next = 9, ch_queue = [], ch_tx = [(0, 4)], ch_rx = [(0, 5)]\<rparr>"

definition demo_send :: send_env where
  "demo_send = \<lparr>sd_wmem = Some ''1'', sd_memfd = None, sd_write = None, sd_seek = None, sd_sendmsg = Inr 100\<rparr>"

definition demo_recv :: recv_env where
  "demo_recv = \<lparr>rv_peek = (\<lambda>_. None), rv_recvmsg = None, rv_room = 10, rv_control = None, rv_rights = None,
     rv_read = (\<lambda>_. None)\<rparr>"

lemma demo_first_free: "first_free [(0, 4)] = 1"
  by (simp add: first_free_def)

lemma demo_wmem: "wmemMax (Some ''1'') = 1"
  by code_simp

text \<open>The payload \<open>{}\<close> goes through a memory file, with the descriptor 0 (file 4) attached.\<close>

theorem Send_Recv_witness:
  "\<exists>st1 rfds st2. Send demo_send (\<lambda>_. Inr ''{}'') (GMap []) [0] demo_chan = (st1, None)
     \<and> Recv demo_recv (\<lambda>_. Inr (Some [])) st1 = (st2, Inr (Some [], Some rfds)) \<and> ch_rx st2 = (0, 5) # zip rfds [4]"
proof -
  have "\<exists>st1. Send demo_send (\<lambda>_. Inr ''{}'') (GMap []) [0] demo_chan = (st1, None)"
    by (simp add: Send_def demo_send_def demo_wmem sendViaFD_def sendmsgN_def demo_chan_def demo_first_free
        argsViaFDMarker_def scm_max_def Let_def)
  then obtain st1 where st1: "Send demo_send (\<lambda>_. Inr ''{}'') (GMap []) [0] demo_chan = (st1, None)" by blast
  have "recv_works demo_recv (Suc (length [0::int]))" by (simp add: recv_works_def demo_recv_def)
  with Send_Recv [OF st1, of "''{}''" demo_recv "\<lambda>_. Inr (Some [])" "Some []"] st1 show ?thesis
    by (auto simp: demo_chan_def argsViaFDMarker_def files_of_def)
qed

theorem Recv_error_no_leak_witness:
  "\<exists>st'. Recv demo_recv (\<lambda>_. Inl ''bad'') (demo_chan\<lparr>ch_queue := [(''x'', [4])]\<rparr>) = (st', Inl (RUnmarshal ''bad''))
     \<and> ch_rx st' = [(0, 5)]"
proof -
  let ?st = "demo_chan\<lparr>ch_queue := [(''x'', [4])]\<rparr>"
  obtain fds tab where i: "install_fds [4] (ch_rx ?st) = (fds, tab)" by fastforce
  have "recv_works demo_recv (length [4::nat])" by (simp add: recv_works_def demo_recv_def)
  from Recv_packet [OF this _ _ i, where dec = "\<lambda>_. Inl ''bad''" and bytes = "''x''" and queue = "[]"]
  obtain st' where st': "Recv demo_recv (\<lambda>_. Inl ''bad'') ?st = (st', Inl (RUnmarshal ''bad''))"
    by (auto simp: recv_packet_def argsViaFDMarker_def recv_decode_def Let_def)
  with Recv_error_no_leak [OF st'] show ?thesis by (auto simp: demo_chan_def)
qed

end
