(* ===== verification/ServiceManager.thy ===== *)
theory ServiceManager
  imports Service SocketFacts
begin

text \<open>
  \<^verbatim>\<open>service/manager.go\<close>: the processes a manager runs. A client is a number, in the order the
  processes are started; the state has the manager's map and order, the descriptors of the
  process, and the clients whose \<open>Stop\<close> was called, in order. \<open>Start\<close> takes the lock twice, once to
  look whether the service runs and once to file it, so it is three definitions and their
  composition.
\<close>

section \<open>The manager\<close>

record start_env =
  se_pair :: "string option"
  se_environ :: "string list"
  se_python :: "string + string"
  se_stdin :: "string option"
  se_stdout :: "string option"
  se_exec :: "string option"

datatype start_error = AlreadyStarted string | SocketPair string | Environment string | SlicePanic
  | StdoutPipe string | StartFailed string | UnknownService string

record mgr =
  mg_services :: "(string, nat) gmap"
  mg_order :: "string list"
  mg_clients :: nat
  mg_stops :: "nat list"
  mg_sock :: "nat \<Rightarrow> int option"
  mg_fds :: fdtable

definition NewManager :: "fdtable \<Rightarrow> mgr" where
  "NewManager fds = \<lparr>mg_services = [], mg_order = [], mg_clients = 0, mg_stops = [], mg_sock = (\<lambda>_. None), mg_fds = fds\<rparr>"

text \<open>
  The output of \<^verbatim>\<open>python3\<close> without its last byte; there is none to take off an empty output. All
  descriptors stand for file 0 here: only which are open matters.
\<close>

definition findOsbuildPythonPath :: "string + string \<Rightarrow> start_error + string" where
  "findOsbuildPythonPath out =
     (case out of
        Inl e \<Rightarrow> Inl (Environment e)
      | Inr text \<Rightarrow> if text = [] then Inl SlicePanic else Inr (Clean (butlast text)))"

definition makeEnv :: "string list \<Rightarrow> string + string \<Rightarrow> start_error + string list" where
  "makeEnv environ out =
     bindR (findOsbuildPythonPath out) (\<lambda>path. Inr (environ @ [''PYTHONPATH='' @ path, ''PYTHONUNBUFFERED=1'']))"

definition start_argv :: "string \<Rightarrow> string \<Rightarrow> string list \<Rightarrow> string list" where
  "start_argv cmd uid extraArgs = [cmd, ''--service-id'', uid, ''--service-fd'', ''3''] @ extraArgs"

definition open_two :: "fdtable \<Rightarrow> (int \<times> int) \<times> fdtable" where
  "open_two tab = (case install_fds [0, 0] tab of (fds, tab') \<Rightarrow> ((fds ! 0, fds ! 1), tab'))"

text \<open>The descriptors a start leaves: on success our end of the socket and the pipe the output is read from.\<close>

definition Start_spawn :: "start_env \<Rightarrow> fdtable \<Rightarrow> fdtable \<times> (start_error + int)" where
  "Start_spawn E tab =
     (case se_pair E of
        Some e \<Rightarrow> (tab, Inl (SocketPair e))
      | None \<Rightarrow>
        (let ((ours, theirs), tab1) = open_two tab in
         case makeEnv (se_environ E) (se_python E) of
           Inl SlicePanic \<Rightarrow> (tab1, Inl SlicePanic)
         | Inl e \<Rightarrow> (close_fds [ours, theirs] tab1, Inl e)
         | Inr env \<Rightarrow>
           (let (stdin, tab2) =
              (case se_stdin E of Some e \<Rightarrow> ([], tab1) | None \<Rightarrow> (case open_two tab1 of ((r, w), t) \<Rightarrow> ([w, r], t))) in
            case se_stdout E of
              Some e \<Rightarrow> (close_fds [ours, theirs] tab2, Inl (StdoutPipe e))
            | None \<Rightarrow>
              (let ((outR, outW), tab3) = open_two tab2 in
               case se_exec E of
                 Some e \<Rightarrow> (close_fds [ours, theirs, outR, outW] tab3, Inl (StartFailed e))
               | None \<Rightarrow> (close_fds ([theirs, outW] @ stdin) tab3, Inr ours)))))"

definition Start_register :: "string \<Rightarrow> int \<Rightarrow> mgr \<Rightarrow> mgr" where
  "Start_register uid ours m =
     (let k = mg_clients m in
      m\<lparr>mg_services := gset uid k (mg_services m), mg_order := mg_order m @ [uid], mg_clients := Suc k,
        mg_sock := (mg_sock m)(k := Some ours)\<rparr>)"

definition Start :: "start_env \<Rightarrow> string \<Rightarrow> mgr \<Rightarrow> mgr \<times> (start_error + nat)" where
  "Start E uid m =
     (case map_of (mg_services m) uid of
        Some k \<Rightarrow> (m, Inl (AlreadyStarted uid))
      | None \<Rightarrow>
        (case Start_spawn E (mg_fds m) of
           (tab, Inl e) \<Rightarrow> (m\<lparr>mg_fds := tab\<rparr>, Inl e)
         | (tab, Inr ours) \<Rightarrow> (Start_register uid ours (m\<lparr>mg_fds := tab\<rparr>), Inr (mg_clients m))))"

definition Client_Stop :: "nat \<Rightarrow> mgr \<Rightarrow> mgr" where
  "Client_Stop k m =
     (let m1 = m\<lparr>mg_stops := mg_stops m @ [k]\<rparr> in
      case mg_sock m k of
        None \<Rightarrow> m1
      | Some fd \<Rightarrow> m1\<lparr>mg_sock := (mg_sock m)(k := None), mg_fds := gdel fd (mg_fds m)\<rparr>)"

definition Manager_Stop :: "string \<Rightarrow> mgr \<Rightarrow> mgr \<times> start_error option" where
  "Manager_Stop uid m =
     (case map_of (mg_services m) uid of
        None \<Rightarrow> (m, Some (UnknownService uid))
      | Some k \<Rightarrow>
          (Client_Stop k (m\<lparr>mg_services := gdel uid (mg_services m), mg_order := remove1 uid (mg_order m)\<rparr>), None))"

definition Manager_Close :: "mgr \<Rightarrow> mgr" where
  "Manager_Close m =
     fold (\<lambda>uid m'. case map_of (mg_services m) uid of None \<Rightarrow> m' | Some k \<Rightarrow> Client_Stop k m')
       (rev (mg_order m)) (m\<lparr>mg_services := [], mg_order := []\<rparr>)"

text \<open>A manager used by one goroutine.\<close>

inductive mgr_step :: "mgr \<Rightarrow> mgr \<Rightarrow> bool" where
  start: "Start E uid m = (m', r) \<Longrightarrow> mgr_step m m'"
| stop: "Manager_Stop uid m = (m', r) \<Longrightarrow> mgr_step m m'"

section \<open>Every process is stopped once\<close>

text \<open>The clients running, in the order of the manager.\<close>

definition running :: "mgr \<Rightarrow> nat list" where
  "running m = map (\<lambda>uid. the (map_of (mg_services m) uid)) (mg_order m)"

definition mgr_inv :: "mgr \<Rightarrow> bool" where
  "mgr_inv m \<longleftrightarrow> distinct (mg_order m) \<and> set (mg_order m) = dom (map_of (mg_services m))
     \<and> sorted_wrt (<) (running m) \<and> mset (mg_stops m) + mset (running m) = mset [0..<mg_clients m]"

lemma Client_Stop_fields [simp]:
  "mg_services (Client_Stop k m) = mg_services m" "mg_order (Client_Stop k m) = mg_order m"
  "mg_clients (Client_Stop k m) = mg_clients m" "mg_stops (Client_Stop k m) = mg_stops m @ [k]"
  by (simp_all add: Client_Stop_def Let_def split: option.split)

lemma mgr_inv_register:
  assumes "mgr_inv m" "uid \<notin> dom (map_of (mg_services m))"
  shows "mgr_inv (Start_register uid ours m)"
proof -
  have "running (Start_register uid ours m) = running m @ [mg_clients m]"
    using assms by (auto simp: running_def Start_register_def Let_def mgr_inv_def)
  moreover have "\<forall>k \<in> set (running m). k < mg_clients m"
  proof -
    have "set_mset (mset (running m)) \<subseteq> set_mset (mset [0..<mg_clients m])"
      using assms(1) unfolding mgr_inv_def by (metis mset_subset_eq_add_right set_mset_mono)
    then show ?thesis by auto
  qed
  ultimately show ?thesis
    using assms by (auto simp: mgr_inv_def Start_register_def Let_def sorted_wrt_append)
qed

lemma running_stop:
  assumes "distinct (mg_order m)" "set (mg_order m) = dom (map_of (mg_services m))" "map_of (mg_services m) uid = Some k"
    "sorted_wrt (<) (running m)"
  defines "m1 \<equiv> m\<lparr>mg_services := gdel uid (mg_services m), mg_order := remove1 uid (mg_order m)\<rparr>"
  shows "sorted_wrt (<) (running m1) \<and> mset (running m) = add_mset k (mset (running m1))"
proof -
  have "uid \<in> set (mg_order m)" using assms(2,3) by blast
  then obtain us vs where uv: "mg_order m = us @ uid # vs" "uid \<notin> set us" by (meson split_list_first)
  then have o1: "mg_order m1 = us @ vs" "uid \<notin> set vs" using assms(1) by (auto simp: m1_def remove1_append)
  let ?f = "\<lambda>u. the (map_of (mg_services m) u)"
  have "map (\<lambda>u. the (map_of (mg_services m1) u)) (us @ vs) = map ?f (us @ vs)"
    using uv(2) o1(2) by (auto simp: m1_def)
  then have "running m1 = map ?f us @ map ?f vs" by (simp add: running_def o1)
  moreover have "running m = map ?f us @ k # map ?f vs" using uv(1) assms(3) by (simp add: running_def)
  ultimately show ?thesis using assms(4) by (auto simp: sorted_wrt_append)
qed

lemma mgr_inv_stop:
  assumes "mgr_inv m" "Manager_Stop uid m = (m', r)"
  shows "mgr_inv m'"
proof (cases "map_of (mg_services m) uid")
  case None
  then show ?thesis using assms by (simp add: Manager_Stop_def)
next
  case (Some k)
  let ?m1 = "m\<lparr>mg_services := gdel uid (mg_services m), mg_order := remove1 uid (mg_order m)\<rparr>"
  have m': "m' = Client_Stop k ?m1" using assms(2) Some by (simp add: Manager_Stop_def)
  have "running m' = running ?m1" by (simp add: m' running_def)
  with running_stop [OF _ _ Some] assms(1) show ?thesis
    by (auto simp: mgr_inv_def m' dom_def)
qed

lemma mgr_inv_reachable: "mgr_step\<^sup>*\<^sup>* (NewManager fds) m \<Longrightarrow> mgr_inv m"
proof (induction rule: rtranclp_induct)
  case base
  show ?case by (simp add: NewManager_def mgr_inv_def running_def)
next
  case (step m m')
  from step(2) show ?case
  proof cases
    case (start E uid r)
    have "mgr_inv (m\<lparr>mg_fds := tab\<rparr>)" for tab using step.IH by (simp add: mgr_inv_def running_def)
    with start step.IH show ?thesis
      by (auto simp: Start_def intro!: mgr_inv_register split: option.splits prod.splits sum.splits)
  next
    case (stop uid r)
    then show ?thesis using mgr_inv_stop step.IH by blast
  qed
qed

lemma fold_stops:
  assumes "\<forall>u \<in> set us. f u \<noteq> None"
  shows "mg_stops (fold (\<lambda>u m'. case f u of None \<Rightarrow> m' | Some k \<Rightarrow> Client_Stop k m') us m)
    = mg_stops m @ map (\<lambda>u. the (f u)) us"
  using assms by (induction us arbitrary: m) auto

text \<open>C32: However services are started and stopped before, \<open>Close\<close> stops exactly the processes that still
  run, the one started last first, so that every process that was ever started has its \<open>Stop\<close>
  called once and only once.\<close>

theorem Manager_Close_stops:
  assumes "mgr_step\<^sup>*\<^sup>* (NewManager fds) m"
  shows "\<exists>ks. mg_stops (Manager_Close m) = mg_stops m @ ks \<and> sorted_wrt (>) ks
    \<and> mset (mg_stops (Manager_Close m)) = mset [0..<mg_clients m]"
proof -
  have inv: "mgr_inv m" using mgr_inv_reachable [OF assms] .
  then have "\<forall>u \<in> set (rev (mg_order m)). map_of (mg_services m) u \<noteq> None" by (auto simp: mgr_inv_def)
  then have "mg_stops (Manager_Close m) = mg_stops m @ rev (running m)"
    unfolding Manager_Close_def by (simp add: fold_stops running_def rev_map)
  moreover have "sorted_wrt (>) (rev (running m))" using inv by (simp add: mgr_inv_def sorted_wrt_rev)
  ultimately show ?thesis using inv by (auto simp: mgr_inv_def)
qed

definition demo_start :: start_env where
  "demo_start = \<lparr>se_pair = None, se_environ = [], se_python = Inr ''/usr'', se_stdin = None, se_stdout = None, se_exec = None\<rparr>"

lemma demo_spawn: "\<exists>tab' ours. Start_spawn demo_start tab = (tab', Inr ours)"
  by (simp add: Start_spawn_def demo_start_def makeEnv_def findOsbuildPythonPath_def Let_def split: prod.split)

theorem Manager_Close_stops_witness:
  "\<exists>m. mg_clients m = 1 \<and> mset (mg_stops (Manager_Close m)) = {#0#}"
proof -
  obtain tab' ours where "Start_spawn demo_start [] = (tab', Inr ours)" using demo_spawn by blast
  then obtain m where m: "Start demo_start ''device/disk'' (NewManager []) = (m, Inr 0)" "mg_clients m = 1"
    by (auto simp: Start_def NewManager_def Start_register_def Let_def)
  then have "mgr_step\<^sup>*\<^sup>* (NewManager []) m" by (auto intro: mgr_step.start)
  from Manager_Close_stops [OF this] m(2) show ?thesis by auto
qed

text \<open>
  Two goroutines that start the same service at once both pass the check, and the second to file its
  process hides the first: \<open>Close\<close> then stops one process twice and the other never.
\<close>

lemma Start_race:
  assumes "map_of (mg_services m) uid = None" "mg_order m = []" "mg_stops m = []" "mg_clients m = 0"
  shows "mg_stops (Manager_Close (Start_register uid b (Start_register uid a m))) = [1, 1]"
  using assms by (simp add: Manager_Close_def Start_register_def Let_def)

text \<open>A process that cannot be started leaves both ends of the pipe made for its input open.\<close>

lemma Start_leaks_stdin:
  assumes "se_pair E = None" "makeEnv (se_environ E) (se_python E) = Inr env" "se_stdin E = None" "se_stdout E = None"
    "se_exec E = Some e"
  shows "\<exists>tab'. Start_spawn E tab = (tab', Inl (StartFailed e)) \<and> length tab' = length tab + 2"
proof -
  obtain ours theirs tab1 where 1: "open_two tab = ((ours, theirs), tab1)" by (metis prod.exhaust)
  obtain r w tab2 where 2: "open_two tab1 = ((r, w), tab2)" by (metis prod.exhaust)
  obtain outR outW tab3 where 3: "open_two tab2 = ((outR, outW), tab3)" by (metis prod.exhaust)
  have two: "\<exists>fds. fds = [x, y] \<and> install_fds [0, 0] t = (fds, t')" if "open_two t = ((x, y), t')" for t t' x y
  proof -
    obtain fds t2 where i: "install_fds [0, 0] t = (fds, t2)" by fastforce
    moreover have "length fds = 2" using install_fds_spec [OF i] by simp
    ultimately show ?thesis using that by (auto simp: open_two_def numeral_2_eq_2 length_Suc_conv)
  qed
  note s1 = install_fds_spec [of "[0, 0]" tab "[ours, theirs]" tab1]
    and s2 = install_fds_spec [of "[0, 0]" tab1 "[r, w]" tab2]
    and s3 = install_fds_spec [of "[0, 0]" tab2 "[outR, outW]" tab3]
  have t: "tab1 = tab @ [(ours, 0), (theirs, 0)]" "tab2 = tab1 @ [(r, 0), (w, 0)]" "tab3 = tab2 @ [(outR, 0), (outW, 0)]"
    "{ours, theirs} \<inter> set (gkeys tab) = {}" "{r, w} \<inter> set (gkeys tab1) = {}" "{outR, outW} \<inter> set (gkeys tab2) = {}"
    using two [OF 1] two [OF 2] two [OF 3] s1 s2 s3 by simp_all
  have "close_fds [ours, theirs, outR, outW] tab3 = tab @ [(r, 0), (w, 0)]"
  proof -
    have "filter (\<lambda>e. fst e \<notin> {ours, theirs, outR, outW}) tab = tab" using t by (force simp: filter_id_conv)
    then show ?thesis using t by (auto simp: close_fds_filter)
  qed
  with assms 1 2 3 show ?thesis by (simp add: Start_spawn_def Let_def)
qed

end
