(* ===== verification/LoopDev.thy ===== *)
theory LoopDev
  imports SocketFacts "HOL-Library.Word"
begin

text \<open>
  \<^verbatim>\<open>loop/loop.go\<close>: attaching a file to a free loop device. The state has the descriptor table and
  what the kernel has bound to each loop device. An attempt of the retry loop comes with the
  answers of the system calls it makes; \<open>EAGAIN\<close> is \<open>EWOULDBLOCK\<close> on Linux.
\<close>

unbundle bit_operations_syntax

datatype errno = EBUSY | EAGAIN | EINVAL | EOther string

record loop_options =
  lo_Offset :: "64 word"
  lo_SizeLimit :: "64 word"
  lo_BlockSize :: "32 word"
  lo_Lock :: bool
  lo_PartScan :: bool
  lo_ReadOnly :: bool
  lo_AutoClear :: bool

record loopInfo64 =
  li_Offset :: "64 word"
  li_SizeLimit :: "64 word"
  li_Flags :: "32 word"

text \<open>What a loop device is bound to: the open file, the block size and the status set on it.\<close>

record binding =
  bn_file :: nat
  bn_BlockSize :: "32 word"
  bn_info :: loopInfo64

record lstate =
  ls_fds :: fdtable
  ls_bound :: "nat \<Rightarrow> binding option"

record loop_device =
  ld_fd :: int
  ld_devname :: string
  ld_minor :: nat

definition LoopMajor :: nat where "LoopMajor = 7"

record attempt =
  at_ctx :: "string option"
  at_GetFree :: "errno + nat"
  at_open :: "errno option"
  at_fstat :: "errno option"
  at_isblk :: bool
  at_rdev :: "nat \<times> nat"
  at_flock :: "errno option"
  at_configure :: "errno option"
  at_setfd :: "errno option"
  at_status :: "errno option"

datatype loop_error = LInvalidFD int | LCtx string | LGetFree errno | LOpen errno | LStat errno | LNotBlock
  | LUnexpected nat nat | LFlock errno | LConfigure errno | LSetFD errno | LSetStatus errno

section \<open>A device\<close>

definition openDevice :: "attempt \<Rightarrow> nat \<Rightarrow> lstate \<Rightarrow> lstate \<times> (loop_error + loop_device)" where
  "openDevice a minor s =
     (case at_open a of
        Some e \<Rightarrow> (s, Inl (LOpen e))
      | None \<Rightarrow>
        (let fd = first_free (ls_fds s); s1 = s\<lparr>ls_fds := ls_fds s @ [(fd, 0)]\<rparr>;
             shut = s1\<lparr>ls_fds := gdel fd (ls_fds s1)\<rparr> in
         case at_fstat a of
           Some e \<Rightarrow> (shut, Inl (LStat e))
         | None \<Rightarrow>
             if \<not> at_isblk a then (shut, Inl LNotBlock)
             else if fst (at_rdev a) \<noteq> LoopMajor \<or> snd (at_rdev a) \<noteq> minor
                  then (shut, Inl (LUnexpected (fst (at_rdev a)) (snd (at_rdev a))))
             else (s1, Inr \<lparr>ld_fd = fd, ld_devname = ''loop'' @ Itoa (int minor), ld_minor = minor\<rparr>)))"

text \<open>\<open>close\<close> and \<open>clearFD\<close>; \<open>Close\<close> does both, once.\<close>

definition dev_close :: "loop_device \<Rightarrow> lstate \<Rightarrow> loop_device \<times> lstate" where
  "dev_close d s = (d\<lparr>ld_fd := -1, ld_devname := ''<closed>''\<rparr>, s\<lparr>ls_fds := gdel (ld_fd d) (ls_fds s)\<rparr>)"

definition clearFD :: "loop_device \<Rightarrow> lstate \<Rightarrow> lstate" where
  "clearFD d s = s\<lparr>ls_bound := (ls_bound s)(ld_minor d := None)\<rparr>"

definition Device_Close :: "loop_device \<Rightarrow> lstate \<Rightarrow> loop_device \<times> lstate" where
  "Device_Close d s = (if ld_fd d < 0 then (d, s) else dev_close d (clearFD d s))"

definition flag_if :: "bool \<Rightarrow> 32 word \<Rightarrow> 32 word \<Rightarrow> 32 word" where
  "flag_if b f flags = (if b then flags OR f else flags)"

definition loop_info :: "loop_options \<Rightarrow> loopInfo64" where
  "loop_info opts =
     \<lparr>li_Offset = (if lo_Offset opts \<noteq> 0 then lo_Offset opts else 0),
      li_SizeLimit = (if lo_SizeLimit opts \<noteq> 0 then lo_SizeLimit opts else 0),
      li_Flags = flag_if (lo_ReadOnly opts) 1 (flag_if (lo_PartScan opts) 8 (flag_if (lo_AutoClear opts) 4 0))\<rparr>"

text \<open>
  \<open>LOOP_CONFIGURE\<close> binds and sets everything at once; the fallback binds with \<open>LOOP_SET_FD\<close>, with
  the kernel's default block size and no status, and then sets the status.
\<close>

definition configure :: "attempt \<Rightarrow> loop_device \<Rightarrow> nat \<Rightarrow> loop_options \<Rightarrow> lstate \<Rightarrow> lstate \<times> (errno \<times> loop_error) option" where
  "configure a d fl opts s =
     (let info = loop_info opts; none = \<lparr>li_Offset = 0, li_SizeLimit = 0, li_Flags = 0\<rparr>;
          bind = (\<lambda>b. s\<lparr>ls_bound := (ls_bound s)(ld_minor d := Some b)\<rparr>) in
      case at_configure a of
        None \<Rightarrow> (bind \<lparr>bn_file = fl, bn_BlockSize = lo_BlockSize opts, bn_info = info\<rparr>, None)
      | Some e \<Rightarrow>
          if e \<noteq> EINVAL then (s, Some (e, LConfigure e))
          else
            (case at_setfd a of
               Some e2 \<Rightarrow> (s, Some (e2, LSetFD e2))
             | None \<Rightarrow>
                 (case at_status a of
                    Some e3 \<Rightarrow> (bind \<lparr>bn_file = fl, bn_BlockSize = 512, bn_info = none\<rparr>, Some (e3, LSetStatus e3))
                  | None \<Rightarrow> (bind \<lparr>bn_file = fl, bn_BlockSize = 512, bn_info = info\<rparr>, None))))"

section \<open>The retry loop\<close>

text \<open>\<open>None\<close> is a loop that still retries when the attempts are used up.\<close>

fun loop_attempts :: "attempt list \<Rightarrow> nat \<Rightarrow> loop_options \<Rightarrow> lstate \<Rightarrow> lstate \<times> (loop_error + loop_device) option" where
  "loop_attempts [] fl opts s = (s, None)"
| "loop_attempts (a # ats) fl opts s =
     (case at_ctx a of
        Some e \<Rightarrow> (s, Some (Inl (LCtx e)))
      | None \<Rightarrow>
        (case at_GetFree a of
           Inl e \<Rightarrow> (s, Some (Inl (LGetFree e)))
         | Inr minor \<Rightarrow>
           (case openDevice a minor s of
              (s1, Inl e) \<Rightarrow> (s1, Some (Inl e))
            | (s1, Inr dev) \<Rightarrow>
                if lo_Lock opts \<and> at_flock a = Some EAGAIN then loop_attempts ats fl opts (snd (dev_close dev s1))
                else if lo_Lock opts \<and> at_flock a \<noteq> None
                  then (snd (dev_close dev s1), Some (Inl (LFlock (the (at_flock a)))))
                else
                  (case configure a dev fl opts s1 of
                     (s2, None) \<Rightarrow> (s2, Some (Inr dev))
                   | (s2, Some (e, err)) \<Rightarrow>
                       if e = EBUSY then loop_attempts ats fl opts (snd (dev_close dev s2))
                       else if e = EAGAIN then loop_attempts ats fl opts (snd (dev_close dev (clearFD dev s2)))
                       else (snd (dev_close dev s2), Some (Inl err))))))"

text \<open>\<open>fd\<close> is the descriptor of the file to attach; \<open>file_of\<close> the open file behind it.\<close>

definition LoopForFD :: "attempt list \<Rightarrow> int \<Rightarrow> nat \<Rightarrow> loop_options \<Rightarrow> lstate \<Rightarrow> lstate \<times> (loop_error + loop_device) option" where
  "LoopForFD attempts fd file_of opts s =
     (if fd < 0 then (s, Some (Inl (LInvalidFD fd))) else loop_attempts attempts file_of opts s)"

text \<open>
  \<open>Mknod\<close>: the node is the host's, bind mounted, or made anew. The calls are: the host node exists,
  the target could be written, the mount worked, \<open>mknodat\<close> worked. The result is how the node was
  made.
\<close>

datatype node = BoundNode | MadeNode nat nat

definition mknodFallback :: "loop_device \<Rightarrow> bool \<Rightarrow> node option" where
  "mknodFallback d mknod_ok = (if mknod_ok then Some (MadeNode LoopMajor (ld_minor d)) else None)"

definition Mknod :: "loop_device \<Rightarrow> bool \<Rightarrow> bool \<Rightarrow> bool \<Rightarrow> bool \<Rightarrow> node option" where
  "Mknod d host_exists write_ok mount_ok mknod_ok =
     (if host_exists then
        if \<not> write_ok then mknodFallback d mknod_ok
        else if \<not> mount_ok then mknodFallback d mknod_ok
        else Some BoundNode
      else mknodFallback d mknod_ok)"

section \<open>What a call leaves\<close>

lemma gdel_fresh: "fd \<notin> set (gkeys tab) \<Longrightarrow> gdel fd (tab @ [(fd, d)]) = tab"
  by (force simp: gdel_def AList.delete_eq filter_id_conv)

lemma openDevice_cases:
  assumes "openDevice a minor s = (s1, r)"
  shows "(case r of
      Inl e \<Rightarrow> s1 = s
    | Inr dev \<Rightarrow> s1 = s\<lparr>ls_fds := ls_fds s @ [(ld_fd dev, 0)]\<rparr> \<and> ld_fd dev \<notin> set (gkeys (ls_fds s)) \<and> ld_fd dev \<ge> 0
        \<and> ld_minor dev = minor \<and> at_rdev a = (LoopMajor, minor))"
  using assms first_free_fresh [of "ls_fds s"] first_free_nonneg [of "ls_fds s"]
  by (cases "at_rdev a") (auto simp: openDevice_def gdel_fresh Let_def split: option.splits if_splits)

lemma configure_fds: "ls_fds (fst (configure a d fl opts s)) = ls_fds s"
  by (simp add: configure_def Let_def split: option.split)

lemma configure_ok:
  "configure a d fl opts s = (s', None) \<Longrightarrow>
     \<exists>b. ls_bound s' (ld_minor d) = Some b \<and> bn_file b = fl \<and> bn_info b = loop_info opts
       \<and> bn_BlockSize b \<in> {lo_BlockSize opts, 512}"
  by (auto simp: configure_def Let_def split: option.splits if_splits)

lemma loop_info_fields:
  "li_Offset (loop_info opts) = lo_Offset opts" "li_SizeLimit (loop_info opts) = lo_SizeLimit opts"
  by (simp_all add: loop_info_def)

text \<open>The specification of a result, by the descriptors open before.\<close>

definition loop_result_ok :: "nat \<Rightarrow> loop_options \<Rightarrow> fdtable \<Rightarrow> lstate \<Rightarrow> loop_error + loop_device \<Rightarrow> bool" where
  "loop_result_ok fl opts fds s' r \<longleftrightarrow>
     (case r of
        Inl e \<Rightarrow> ls_fds s' = fds
      | Inr dev \<Rightarrow> ls_fds s' = fds @ [(ld_fd dev, 0)] \<and> ld_fd dev \<notin> set (gkeys fds) \<and> ld_fd dev \<ge> 0
          \<and> (\<exists>b. ls_bound s' (ld_minor dev) = Some b \<and> bn_file b = fl \<and> bn_info b = loop_info opts
               \<and> bn_BlockSize b \<in> {lo_BlockSize opts, 512}))"

lemma loop_attempts_result:
  assumes "loop_attempts ats fl opts s = (s', Some r)"
  shows "loop_result_ok fl opts (ls_fds s) s' r"
  using assms
proof (induction ats arbitrary: s)
  case (Cons a ats)
  show ?case
  proof (cases "at_ctx a = None \<and> (\<exists>minor. at_GetFree a = Inr minor)")
    case False
    then show ?thesis using Cons.prems by (auto simp: loop_result_ok_def split: option.splits sum.splits)
  next
    case True
    then obtain minor where m: "at_ctx a = None" "at_GetFree a = Inr minor" by blast
    obtain s1 q where o1: "openDevice a minor s = (s1, q)" by fastforce
    note oc = openDevice_cases [OF o1]
    show ?thesis
    proof (cases q)
      case (Inl e)
      then show ?thesis using Cons.prems m o1 oc by (auto simp: loop_result_ok_def)
    next
      case (Inr dev)
      then have s1: "s1 = s\<lparr>ls_fds := ls_fds s @ [(ld_fd dev, 0)]\<rparr>" "ld_fd dev \<notin> set (gkeys (ls_fds s))" "ld_fd dev \<ge> 0"
        using oc by auto
      have shut: "ls_fds (snd (dev_close dev t)) = ls_fds s" if "ls_fds t = ls_fds s1" for t
        using that s1 by (simp add: dev_close_def gdel_fresh)
      have again: ?thesis if "loop_attempts ats fl opts (snd (dev_close dev t)) = (s', Some r)" "ls_fds t = ls_fds s1" for t
        using Cons.IH [OF that(1)] shut [OF that(2)] by simp
      have err: ?thesis if "s' = snd (dev_close dev t)" "ls_fds t = ls_fds s1" "r = Inl e" for t e
        using that shut by (simp add: loop_result_ok_def)
      obtain s2 c where c: "configure a dev fl opts s1 = (s2, c)" by fastforce
      then have s2: "ls_fds s2 = ls_fds s1" "ls_fds (clearFD dev s2) = ls_fds s1"
        using configure_fds [of a dev fl opts s1] by (simp_all add: clearFD_def)
      note step = Cons.prems [unfolded loop_attempts.simps m option.case sum.case o1 Inr prod.case c]
      show ?thesis
      proof (cases "lo_Lock opts \<and> at_flock a \<noteq> None")
        case True
        then show ?thesis using step again [of s1] err [of s1] by (cases "at_flock a = Some EAGAIN") auto
      next
        case False
        show ?thesis
        proof (cases c)
          case None
          with step False have "s' = s2" "r = Inr dev" by (auto split: if_splits)
          with configure_ok [OF c [unfolded None]] s2(1) s1 show ?thesis by (auto simp: loop_result_ok_def)
        next
          case (Some p)
          obtain e er where "p = (e, er)" by fastforce
          with Some step False show ?thesis
            using again [OF _ s2(1)] again [OF _ s2(2)] err [OF _ s2(1)] by (auto split: if_splits)
        qed
      qed
    qed
  qed
qed simp

lemma LoopForFD_ok: "LoopForFD ats fd fl opts s = (s', Some r) \<Longrightarrow> loop_result_ok fl opts (ls_fds s) s' r"
  using loop_attempts_result by (auto simp: LoopForFD_def loop_result_ok_def split: if_splits)

text \<open>When \<open>LoopForFD\<close> succeeds, the device is bound to the file, with the offset, the size limit and
  the flags asked for, and the one descriptor it leaves open is the device's; when it fails it
  leaves none open, however often it retried before.\<close>

theorem LoopForFD_result:
  assumes "LoopForFD ats fd fl opts s = (s', Some r)"
  shows "loop_result_ok fl opts (ls_fds s) s' r"
  using assms by (rule LoopForFD_ok)

definition demo_opts :: loop_options where
  "demo_opts = \<lparr>lo_Offset = 512, lo_SizeLimit = 0, lo_BlockSize = 4096, lo_Lock = True, lo_PartScan = True,
     lo_ReadOnly = False, lo_AutoClear = True\<rparr>"

definition demo_attempt :: "errno option \<Rightarrow> attempt" where
  "demo_attempt conf = \<lparr>at_ctx = None, at_GetFree = Inr 0, at_open = None, at_fstat = None, at_isblk = True,
     at_rdev = (7, 0), at_flock = None, at_configure = conf, at_setfd = None, at_status = None\<rparr>"

text \<open>The first attempt is told the device is busy, the second works.\<close>

theorem LoopForFD_result_witness:
  "\<exists>s' dev. LoopForFD [demo_attempt (Some EBUSY), demo_attempt None] 3 9 demo_opts
       \<lparr>ls_fds = [(0, 0)], ls_bound = (\<lambda>_. None)\<rparr> = (s', Some (Inr dev))
     \<and> loop_result_ok 9 demo_opts [(0, 0)] s' (Inr dev)"
proof -
  have ff: "first_free [(0, 0)] = 1" by (simp add: first_free_def)
  obtain s' dev where r: "LoopForFD [demo_attempt (Some EBUSY), demo_attempt None] 3 9 demo_opts
      \<lparr>ls_fds = [(0, 0)], ls_bound = (\<lambda>_. None)\<rparr> = (s', Some (Inr dev))"
    by (auto simp: LoopForFD_def demo_attempt_def demo_opts_def openDevice_def ff LoopMajor_def dev_close_def
        configure_def gdel_def Let_def)
  with LoopForFD_result [OF r] show ?thesis by simp
qed

text \<open>
  The fallback for old kernels also runs when a new kernel rejects the block size with \<open>EINVAL\<close>: then
  the device comes back attached with 512-byte blocks and no error.
\<close>

lemma configure_ignores_block_size:
  assumes "at_configure a = Some EINVAL" "at_setfd a = None" "at_status a = None"
  shows "\<exists>s' b. configure a d fl opts s = (s', None) \<and> ls_bound s' (ld_minor d) = Some b \<and> bn_BlockSize b = 512"
  using assms by (simp add: configure_def Let_def)

text \<open>
  When the fallback's second call fails, the loop gives up without detaching the device: it stays
  bound to the file, without the flag that would release it with its last descriptor.
\<close>

lemma loop_attempts_leaves_bound:
  assumes "at_ctx a = None" "at_GetFree a = Inr k" "openDevice a k s = (s1, Inr dev)" "\<not> lo_Lock opts"
    "at_configure a = Some EINVAL" "at_setfd a = None" "at_status a = Some (EOther e)"
  shows "\<exists>s' b. loop_attempts (a # ats) fl opts s = (s', Some (Inl (LSetStatus (EOther e))))
    \<and> ls_bound s' k = Some b \<and> bn_file b = fl \<and> li_Flags (bn_info b) = 0"
  using assms openDevice_cases [OF assms(3)] by (simp add: configure_def dev_close_def Let_def)

end
