(* ===== verification/ApiServers.thy ===== *)
theory ApiServers
  imports LoopDev ObjectStore
begin

text \<open>
  \<^verbatim>\<open>api/\<close>: the servers a running stage talks to. A handler takes a decoded message and its
  descriptors; the replies it sends are recorded, a reply that cannot be sent is lost without a
  trace. Clients are served one message after the other.
\<close>

section \<open>The server\<close>

record server =
  sv_Endpoint :: string
  sv_SocketAddress :: string
  sv_socketDir :: string
  sv_listening :: bool

text \<open>Directories made for sockets, and socket files, below \<^verbatim>\<open>/run/osbuild\<close>.\<close>

record rundir =
  rd_dirs :: "string list"
  rd_sockets :: "string list"

record server_env =
  sn_MkdirTemp :: "string + string"
  sn_Listen :: "string option"
  sn_Backlog :: "string option"

definition NewServer :: "string \<Rightarrow> server" where
  "NewServer endpoint = \<lparr>sv_Endpoint = endpoint, sv_SocketAddress = [], sv_socketDir = [], sv_listening = False\<rparr>"

definition Server_listen :: "server_env \<Rightarrow> server \<Rightarrow> rundir \<Rightarrow> (server \<times> rundir) \<times> string option" where
  "Server_listen E s d =
     (case sn_Listen E of
        Some e \<Rightarrow> ((s, d), Some e)
      | None \<Rightarrow>
          (case sn_Backlog E of
             Some e \<Rightarrow> ((s, d), Some e)
           | None \<Rightarrow> ((s\<lparr>sv_listening := True\<rparr>, d\<lparr>rd_sockets := rd_sockets d @ [sv_SocketAddress s]\<rparr>), None)))"

definition Server_Start :: "server_env \<Rightarrow> server \<Rightarrow> rundir \<Rightarrow> (server \<times> rundir) \<times> string option" where
  "Server_Start E s d =
     (if sv_SocketAddress s = [] then
        (case sn_MkdirTemp E of
           Inl e \<Rightarrow> ((s, d), Some e)
         | Inr dir \<Rightarrow>
             Server_listen E (s\<lparr>sv_socketDir := dir, sv_SocketAddress := path_Join [dir, sv_Endpoint s]\<rparr>)
               (d\<lparr>rd_dirs := rd_dirs d @ [dir]\<rparr>))
      else Server_listen E s d)"

text \<open>Closing the listener unlinks its socket.\<close>

definition Server_Stop :: "server \<Rightarrow> rundir \<Rightarrow> server \<times> rundir" where
  "Server_Stop s d =
     (if sv_listening s
      then (s\<lparr>sv_listening := False\<rparr>, d\<lparr>rd_sockets := filter (\<lambda>a. a \<noteq> sv_SocketAddress s) (rd_sockets d)\<rparr>)
      else (s, d))"

definition Server_Cleanup :: "server \<Rightarrow> rundir \<Rightarrow> server \<times> rundir" where
  "Server_Cleanup s d =
     (case Server_Stop s d of (s1, d1) \<Rightarrow>
        (s1, if sv_socketDir s1 \<noteq> [] then d1\<lparr>rd_dirs := filter (\<lambda>x. x \<noteq> sv_socketDir s1) (rd_dirs d1)\<rparr> else d1))"

text \<open>
  A client: messages are handled until one cannot be received or the connection ends. \<open>poll i\<close> says
  what happens before the \<open>i\<close>-th: \<open>False\<close> when the server was stopped or \<open>poll\<close> failed.
\<close>

fun handleClient ::
    "(gobject \<Rightarrow> int list option \<Rightarrow> 's \<Rightarrow> 's) \<Rightarrow> (int list \<Rightarrow> 's \<Rightarrow> 's) \<Rightarrow> (nat \<Rightarrow> bool) \<Rightarrow> nat
     \<Rightarrow> (recv_error + gobject option \<times> int list option) list \<Rightarrow> 's \<Rightarrow> 's" where
  "handleClient handler drop_fds poll i [] s = s"
| "handleClient handler drop_fds poll i (m # msgs) s =
     (if \<not> poll i then s
      else case m of
             Inl e \<Rightarrow> s
           | Inr (None, fds) \<Rightarrow> (case fds of None \<Rightarrow> s | Some f \<Rightarrow> drop_fds (snd (FD_Close f)) s)
           | Inr (Some msg, fds) \<Rightarrow> handleClient handler drop_fds poll (Suc i) msgs (handler msg fds s))"

section \<open>The exception server\<close>

text \<open>What is stored, and the descriptors closed: those of any message, before it is looked at.\<close>

definition Osbuild_handle :: "gobject \<Rightarrow> int list option \<Rightarrow> gobject option \<times> int list \<Rightarrow> gobject option \<times> int list" where
  "Osbuild_handle msg fds = (\<lambda>(err, shut).
     let shut1 = (case fds of None \<Rightarrow> shut | Some f \<Rightarrow> shut @ snd (FD_Close f)) in
     if get_string0 msg ''method'' \<noteq> ''exception'' then (err, shut1)
     else (case get_map msg ''exception'' of
             Some exc \<Rightarrow> (Some [(''type'', GString ''exception''), (''data'', GMap exc)], shut1)
           | None \<Rightarrow> (err, shut1)))"

section \<open>The loop device server\<close>

text \<open>
  A number of a decoded message is a \<open>float64\<close>; the conversion to an integer type truncates toward
  zero; out of the range of an unsigned type what it gives is up to the machine, \<open>ovf\<close>.
\<close>

definition trunc_rat :: "rat \<Rightarrow> int" where
  "trunc_rat q = (if q \<ge> 0 then floor q else ceiling q)"

definition float_conv :: "(gofloat \<Rightarrow> int) \<Rightarrow> int \<Rightarrow> int \<Rightarrow> gofloat \<Rightarrow> int" where
  "float_conv ovf lo hi f =
     (case f of FFin q \<Rightarrow> if lo \<le> trunc_rat q \<and> trunc_rat q \<le> hi then trunc_rat q else ovf f | _ \<Rightarrow> ovf f)"

definition api_toInt :: "gval option \<Rightarrow> int \<times> bool" where
  "api_toInt v =
     (case v of
        Some (GFloat f) \<Rightarrow> (float_to_int f, True)
      | Some (GInt n) \<Rightarrow> (n, True)
      | _ \<Rightarrow> (0, False))"

definition toUint64 :: "(gofloat \<Rightarrow> int) \<Rightarrow> gval option \<Rightarrow> 64 word \<times> bool" where
  "toUint64 ovf v =
     (case v of
        Some (GFloat f) \<Rightarrow> (word_of_int (float_conv ovf 0 (2 ^ 64 - 1) f), True)
      | Some (GInt n) \<Rightarrow> (word_of_int n, True)
      | _ \<Rightarrow> (0, False))"

definition toUint32 :: "(gofloat \<Rightarrow> int) \<Rightarrow> gval option \<Rightarrow> 32 word \<times> bool" where
  "toUint32 ovf v =
     (case v of
        Some (GFloat f) \<Rightarrow> (word_of_int (float_conv ovf 0 (2 ^ 32 - 1) f), True)
      | Some (GInt n) \<Rightarrow> (word_of_int n, True)
      | _ \<Rightarrow> (0, False))"

definition bool_at :: "gobject \<Rightarrow> string \<Rightarrow> bool" where
  "bool_at msg k = (case map_of msg k of Some (GBool b) \<Rightarrow> b | _ \<Rightarrow> False)"

definition loop_options_of :: "(gofloat \<Rightarrow> int) \<Rightarrow> gobject \<Rightarrow> loop_options" where
  "loop_options_of ovf msg =
     \<lparr>lo_Offset = fst (toUint64 ovf (map_of msg ''offset'')), lo_SizeLimit = fst (toUint64 ovf (map_of msg ''sizelimit'')),
      lo_BlockSize = fst (toUint32 ovf (map_of msg ''sector_size'')), lo_Lock = bool_at msg ''lock'',
      lo_PartScan = bool_at msg ''partscan'', lo_ReadOnly = bool_at msg ''read_only'', lo_AutoClear = True\<rparr>"

record loop_server =
  lv_devs :: "loop_device list"
  lv_ctl :: "int option"
  lv_state :: lstate
  lv_replies :: "gobject list"

record loop_env =
  le_ovf :: "gofloat \<Rightarrow> int"
  le_NewControl :: "string option"
  le_attempts :: "attempt list"
  le_Mknod :: "loop_device \<Rightarrow> node option"
  le_message :: "loop_error \<Rightarrow> string"

definition reply_error :: "string \<Rightarrow> loop_server \<Rightarrow> loop_server" where
  "reply_error e s = s\<lparr>lv_replies := lv_replies s @ [[(''error'', GString e)]]\<rparr>"

definition with_fds :: "(fdtable \<Rightarrow> fdtable) \<Rightarrow> loop_server \<Rightarrow> loop_server" where
  "with_fds f s = s\<lparr>lv_state := (lv_state s)\<lparr>ls_fds := f (ls_fds (lv_state s))\<rparr>\<rparr>"

text \<open>From the two stolen descriptors on.\<close>

definition loop_control :: "loop_env \<Rightarrow> loop_server \<Rightarrow> loop_server \<times> string option" where
  "loop_control E s =
     (case lv_ctl s of
        Some c \<Rightarrow> (s, None)
      | None \<Rightarrow>
          (case le_NewControl E of
             Some e \<Rightarrow> (s, Some e)
           | None \<Rightarrow>
               (let c = first_free (ls_fds (lv_state s)) in
                (with_fds (\<lambda>t. t @ [(c, 0)]) (s\<lparr>lv_ctl := Some c\<rparr>), None))))"

definition loop_attach :: "loop_env \<Rightarrow> gobject \<Rightarrow> int \<Rightarrow> loop_server \<Rightarrow> loop_server option" where
  "loop_attach E msg fd s =
     (case loop_control E s of
        (s1, Some e) \<Rightarrow> Some (reply_error e s1)
      | (s1, None) \<Rightarrow>
          (case LoopForFD (le_attempts E) fd (the (map_of (ls_fds (lv_state s1)) fd)) (loop_options_of (le_ovf E) msg) (lv_state s1) of
             (st, None) \<Rightarrow> None
           | (st, Some (Inl e)) \<Rightarrow> Some (reply_error (le_message E e) (s1\<lparr>lv_state := st\<rparr>))
           | (st, Some (Inr dev)) \<Rightarrow>
               (case le_Mknod E dev of
                  None \<Rightarrow> Some (reply_error ''mknod'' (s1\<lparr>lv_state := snd (Device_Close dev st)\<rparr>))
                | Some n \<Rightarrow> Some (s1\<lparr>lv_state := st, lv_devs := lv_devs s1 @ [dev],
                               lv_replies := lv_replies s1 @ [[(''devname'', GString (ld_devname dev))]]\<rparr>))))"

text \<open>\<open>None\<close> is a handler that still retries. The deferred \<open>fds.Close()\<close> runs on every return.\<close>

definition Loop_handle :: "loop_env \<Rightarrow> gobject \<Rightarrow> int list option \<Rightarrow> loop_server \<Rightarrow> loop_server option" where
  "Loop_handle E msg fds s =
     (case fds of
        None \<Rightarrow> Some (reply_error ''no file descriptors'' s)
      | Some f \<Rightarrow>
        (let shut = (\<lambda>f. map_option (with_fds (close_fds (snd (FD_Close f))))) in
         case FD_Steal f (fst (api_toInt (map_of msg ''fd''))) of
           (f1, Inl e) \<Rightarrow> shut f1 (Some (reply_error ''invalid fd index'' s))
         | (f1, Inr fd) \<Rightarrow>
             (case FD_Steal f1 (fst (api_toInt (map_of msg ''dir_fd''))) of
                (f2, Inl e) \<Rightarrow> shut f2 (Some (reply_error ''invalid dir_fd index'' s))
              | (f2, Inr dirFD) \<Rightarrow> shut f2 (loop_attach E msg fd s))))"

definition CleanupDevices :: "loop_server \<Rightarrow> loop_server" where
  "CleanupDevices s =
     (let s1 = s\<lparr>lv_state := fold (\<lambda>d t. snd (Device_Close d t)) (lv_devs s) (lv_state s), lv_devs := []\<rparr> in
      case lv_ctl s1 of None \<Rightarrow> s1 | Some c \<Rightarrow> with_fds (gdel c) (s1\<lparr>lv_ctl := None\<rparr>))"

end
