(* ===== verification/ApiFacts.thy ===== *)
theory ApiFacts
  imports ApiServers
begin

text \<open>
  What the loop device server does with the descriptors a stage sends it, and what a server
  leaves under \<^verbatim>\<open>/run/osbuild\<close>.
\<close>

section \<open>Descriptors\<close>

definition fd_dom :: "fdtable \<Rightarrow> int set" where
  "fd_dom tab = set (gkeys tab)"

abbreviation open_fds :: "loop_server \<Rightarrow> int set" where
  "open_fds s \<equiv> fd_dom (ls_fds (lv_state s))"

lemma fd_dom_simps [simp]:
  "fd_dom (gdel k tab) = fd_dom tab - {k}" "fd_dom (tab @ [(k, d)]) = insert k (fd_dom tab)"
  "fd_dom (close_fds fds tab) = fd_dom tab - set fds"
  by (auto simp: fd_dom_def gdel_def AList.delete_keys close_fds_filter)

lemma first_free_fd_dom [simp]: "first_free tab \<notin> fd_dom tab"
  unfolding fd_dom_def by (rule first_free_fresh)

text \<open>The descriptors a server closes when it is cleaned up.\<close>

definition own_fds :: "loop_server \<Rightarrow> int set" where
  "own_fds s = ld_fd ` set (lv_devs s) \<union> set_option (lv_ctl s)"

lemma in_Device_Close: "x \<in> fd_dom (ls_fds t) \<Longrightarrow> x \<noteq> ld_fd d \<Longrightarrow> x \<in> fd_dom (ls_fds (snd (Device_Close d t)))"
  by (auto simp: Device_Close_def dev_close_def clearFD_def)

lemma loop_control_keeps:
  assumes "loop_control E s = (s1, r)" "x \<in> open_fds s" "x \<notin> own_fds s"
  shows "x \<in> open_fds s1 \<and> x \<notin> own_fds s1"
  using assms first_free_fd_dom [of "ls_fds (lv_state s)"]
  by (auto simp: loop_control_def with_fds_def own_fds_def Let_def split: option.splits)

lemma reply_error_fields [simp]:
  "lv_state (reply_error e s) = lv_state s" "lv_devs (reply_error e s) = lv_devs s" "lv_ctl (reply_error e s) = lv_ctl s" "own_fds (reply_error e s) = own_fds s"
  by (simp_all add: reply_error_def own_fds_def)

lemma loop_attach_keeps:
  assumes "loop_attach E msg fd s = Some s'" "x \<in> open_fds s" "x \<notin> own_fds s"
  shows "x \<in> open_fds s' \<and> x \<notin> own_fds s'"
proof -
  obtain s1 c where c: "loop_control E s = (s1, c)" by fastforce
  note x1 = loop_control_keeps [OF c assms(2,3)]
  show ?thesis
  proof (cases c)
    case (Some e)
    then have "s' = reply_error e s1" using assms(1) c by (simp add: loop_attach_def)
    then show ?thesis using x1 by simp
  next
    case None
    obtain st q where q: "LoopForFD (le_attempts E) fd (the (map_of (ls_fds (lv_state s1)) fd))
        (loop_options_of (le_ovf E) msg) (lv_state s1) = (st, q)" by fastforce
    with assms(1) c None obtain r where r: "q = Some r" by (cases q) (auto simp: loop_attach_def)
    show ?thesis
    proof (cases r)
      case (Inl e)
      then have "s' = reply_error (le_message E e) (s1\<lparr>lv_state := st\<rparr>)" "ls_fds st = ls_fds (lv_state s1)"
        using assms(1) c None q r LoopForFD_ok [OF q [unfolded r]]
        by (auto simp: loop_attach_def loop_result_ok_def)
      moreover have "own_fds (s1\<lparr>lv_state := st\<rparr>) = own_fds s1" by (simp add: own_fds_def)
      ultimately show ?thesis using x1 by simp
    next
      case (Inr dev)
      then have dev: "ls_fds st = ls_fds (lv_state s1) @ [(ld_fd dev, 0)]" "ld_fd dev \<notin> open_fds s1" "ld_fd dev \<notin> set (gkeys (ls_fds (lv_state s1)))"
        using LoopForFD_ok [OF q [unfolded r]] by (auto simp: loop_result_ok_def fd_dom_def)
      then have "x \<noteq> ld_fd dev" using x1 by blast
      with in_Device_Close [of x st dev] assms(1) c None q r Inr dev x1 show ?thesis
        by (auto simp: loop_attach_def own_fds_def split: option.splits)
    qed
  qed
qed

lemma CleanupDevices_keeps:
  assumes "x \<in> open_fds s" "x \<notin> own_fds s"
  shows "x \<in> open_fds (CleanupDevices s)"
proof -
  have "x \<in> fd_dom (ls_fds (fold (\<lambda>d t. snd (Device_Close d t)) ds t))"
    if "x \<in> fd_dom (ls_fds t)" "x \<notin> ld_fd ` set ds" for ds t
    using that
  proof (induction ds arbitrary: t)
    case (Cons d ds)
    then show ?case using in_Device_Close [of x t d] by auto
  qed simp
  with assms show ?thesis
    by (auto simp: CleanupDevices_def own_fds_def with_fds_def Let_def split: option.splits)
qed

text \<open>The two descriptors a stage sends to have a loop device made are never closed: whether the
  request succeeds or fails, once they are taken out of the message's set they are still open after
  the server has released all its devices.\<close>

theorem LoopServer_leaks_fds:
  assumes "Loop_handle E msg (Some f) s = Some s'"
    and "FD_Steal f (fst (api_toInt (map_of msg ''fd''))) = (f1, Inr a)"
    and "FD_Steal f1 (fst (api_toInt (map_of msg ''dir_fd''))) = (f2, Inr b)"
    and "distinct (live f)" "set (live f) \<subseteq> open_fds s" "set (live f) \<inter> own_fds s = {}"
  shows "{a, b} \<subseteq> open_fds (CleanupDevices s')"
proof -
  have live: "mset (live f) = {#a, b#} + mset (live f2)"
    using live_Steal [OF assms(2)] live_Steal [OF assms(3)] by simp
  then have "set (live f) = {a, b} \<union> set (live f2)"
    by (metis set_mset_add_mset_insert set_mset_empty set_mset_mset set_mset_union)
  moreover have "a \<notin> set (live f2)" "b \<notin> set (live f2)"
    using assms(4) live unfolding distinct_count_atmost_1 by (auto split: if_splits)
  ultimately have ab: "{a, b} \<subseteq> open_fds s" "{a, b} \<inter> own_fds s = {}" "{a, b} \<inter> set (live f2) = {}"
    using assms(5,6) by auto
  from assms(1-3) obtain s1 where s1: "loop_attach E msg a s = Some s1" "s' = with_fds (close_fds (snd (FD_Close f2))) s1"
    by (auto simp: Loop_handle_def Let_def)
  have "x \<in> open_fds (CleanupDevices s')" if "x \<in> {a, b}" for x
  proof (rule CleanupDevices_keeps)
    have "x \<in> open_fds s1 \<and> x \<notin> own_fds s1" using loop_attach_keeps [OF s1(1)] ab that by blast
    with ab(3) that show "x \<in> open_fds s'" "x \<notin> own_fds s'"
      by (auto simp: s1(2) with_fds_def FD_Close_spec own_fds_def)
  qed
  then show ?thesis by blast
qed

definition demo_loop_env :: loop_env where
  "demo_loop_env = \<lparr>le_ovf = (\<lambda>_. 0), le_NewControl = Some ''no device'', le_attempts = [], le_Mknod = (\<lambda>_. None),
     le_message = (\<lambda>_. [])\<rparr>"

theorem LoopServer_leaks_fds_witness:
  "\<exists>s'. Loop_handle demo_loop_env [(''dir_fd'', GInt 1)] (Some [5, 6])
       \<lparr>lv_devs = [], lv_ctl = None, lv_state = \<lparr>ls_fds = [(5, 1), (6, 2)], ls_bound = (\<lambda>_. None)\<rparr>, lv_replies = []\<rparr> = Some s'
     \<and> {5, 6} \<subseteq> open_fds (CleanupDevices s')"
proof -
  let ?s = "\<lparr>lv_devs = [], lv_ctl = None, lv_state = \<lparr>ls_fds = [(5, 1), (6, 2)], ls_bound = (\<lambda>_. None)\<rparr>, lv_replies = []\<rparr> :: loop_server"
  have idx: "api_toInt None = (0, False)" "api_toInt (Some (GInt n)) = (n, True)" for n
    by (simp_all add: api_toInt_def)
  have st: "FD_Steal [5, 6] 0 = ([-1, 6], Inr 5)" "FD_Steal [-1, 6] 1 = ([-1, -1], Inr 6)"
    by (simp_all add: FD_Steal_def FD_Get_def)
  have "loop_attach demo_loop_env [(''dir_fd'', GInt 1)] 5 ?s = Some (reply_error ''no device'' ?s)"
    by (simp add: loop_attach_def loop_control_def demo_loop_env_def)
  then obtain s' where s': "Loop_handle demo_loop_env [(''dir_fd'', GInt 1)] (Some [5, 6]) ?s = Some s'"
    by (simp add: Loop_handle_def idx st Let_def)
  have "distinct (live [5, 6])" "set (live [5, 6]) \<subseteq> open_fds ?s" "set (live [5, 6]) \<inter> own_fds ?s = {}"
    by (simp_all add: live_def fd_dom_def own_fds_def)
  then have "{5, 6} \<subseteq> open_fds (CleanupDevices s')"
    by (intro LoopServer_leaks_fds [OF s', of "[-1, 6]" 5 "[-1, -1]" 6]) (simp_all add: idx st)
  with s' show ?thesis by blast
qed

section \<open>Socket directories\<close>

text \<open>\<open>Stop\<close> leaves the directory made for a server's socket behind, only \<open>Cleanup\<close> removes it: a
  server that was started and stopped leaves exactly its new directory more than before, a server
  that was cleaned up leaves nothing.\<close>

theorem Server_Stop_leaves_dir:
  assumes "Server_Start E (NewServer endpoint) d = ((s, d1), None)" "sn_MkdirTemp E = Inr dir" "dir \<noteq> []"
    "dir \<notin> set (rd_dirs d)" "path_Join [dir, endpoint] \<notin> set (rd_sockets d)"
  shows "snd (Server_Stop s d1) = d\<lparr>rd_dirs := rd_dirs d @ [dir]\<rparr> \<and> snd (Server_Cleanup s d1) = d"
proof -
  have [simp]: "filter (\<lambda>a. a \<noteq> path_Join [dir, endpoint]) (rd_sockets d) = rd_sockets d"
    "filter (\<lambda>x. x \<noteq> dir) (rd_dirs d) = rd_dirs d"
    using assms(4,5) by (auto simp: filter_id_conv)
  show ?thesis
    using assms(1-3)
    by (auto simp: Server_Start_def NewServer_def Server_listen_def Server_Stop_def Server_Cleanup_def split: option.splits)
qed

theorem Server_Stop_leaves_dir_witness:
  "\<exists>s d1. Server_Start \<lparr>sn_MkdirTemp = Inr ''/r/api-1'', sn_Listen = None, sn_Backlog = None\<rparr> (NewServer ''osbuild'')
       \<lparr>rd_dirs = [], rd_sockets = []\<rparr> = ((s, d1), None)
     \<and> rd_dirs (snd (Server_Stop s d1)) = [''/r/api-1'']"
proof -
  obtain s d1 where r: "Server_Start \<lparr>sn_MkdirTemp = Inr ''/r/api-1'', sn_Listen = None, sn_Backlog = None\<rparr> (NewServer ''osbuild'')
      \<lparr>rd_dirs = [], rd_sockets = []\<rparr> = ((s, d1), None)"
    by (simp add: Server_Start_def NewServer_def Server_listen_def)
  from Server_Stop_leaves_dir [OF r, of "''/r/api-1''"] r show ?thesis by auto
qed

end
