(* ===== verification/ApiStore.thy ===== *)
theory ApiStore
  imports StoreFacts Ipc
begin

text \<open>
  \<^verbatim>\<open>api/store.go\<close>: the server that shows a stage the trees of the object store, and what is left of
  them when the stage is torn down. The mount table lists source and target of the bind mounts in
  the order they were made; removing a directory deletes the contents of what is mounted below it.
\<close>

section \<open>Mounts\<close>

record mountfs =
  mt_table :: "(string \<times> string) list"
  mt_lost :: "string list"

text \<open>\<^verbatim>\<open>umount\<close> undoes the last mount on the target.\<close>

fun drop_first :: "string \<Rightarrow> (string \<times> string) list \<Rightarrow> (string \<times> string) list" where
  "drop_first t [] = []"
| "drop_first t (m # ms) = (if snd m = t then ms else m # drop_first t ms)"

definition umount_last :: "string \<Rightarrow> mountfs \<Rightarrow> mountfs" where
  "umount_last t fs = fs\<lparr>mt_table := rev (drop_first t (rev (mt_table fs)))\<rparr>"

definition below :: "string \<Rightarrow> string \<Rightarrow> bool" where
  "below d p \<longleftrightarrow> p = d \<or> HasPrefix p (d @ ''/'')"

definition fs_RemoveAll :: "string \<Rightarrow> mountfs \<Rightarrow> mountfs" where
  "fs_RemoveAll d fs = fs\<lparr>mt_lost := mt_lost fs @ map fst (filter (\<lambda>m. below d (snd m)) (mt_table fs))\<rparr>"

section \<open>The server\<close>

record store_server =
  ss_store :: sstore
  ss_tmpRoot :: string
  ss_mounts :: "string list"
  ss_fs :: mountfs
  ss_replies :: "gobject list"
  ss_shut :: "int list"

text \<open>\<open>sh_root\<close> is the root of the store; the rest is what the system calls of a request do.\<close>

record store_req =
  sh_root :: string
  sh_env :: senv
  sh_mount :: "string option"
  sh_MkdirTemp :: "string \<Rightarrow> string \<Rightarrow> string + string"

definition NewStoreServer :: "string \<Rightarrow> sstore \<Rightarrow> mountfs \<Rightarrow> store_server" where
  "NewStoreServer tmpRoot st fs = \<lparr>ss_store = st, ss_tmpRoot = tmpRoot, ss_mounts = [], ss_fs = fs, ss_replies = [], ss_shut = []\<rparr>"

definition data_dir :: "string \<Rightarrow> data_path \<Rightarrow> string" where
  "data_dir rt p =
     (case p of
        InStage u \<Rightarrow> path_Join [path_Join [rt, ''stage'', ''uuid-'' @ u], ''data'']
      | InObjects i \<Rightarrow> path_Join [path_Join [rt, ''objects'', i], ''data''])"

definition Tree_path :: "string \<Rightarrow> object \<Rightarrow> string" where
  "Tree_path rt ob = path_Join [data_dir rt (ob_path ob), ''tree'']"

definition reply_store :: "gobject \<Rightarrow> store_server \<Rightarrow> store_server" where
  "reply_store r s = s\<lparr>ss_replies := ss_replies s @ [r]\<rparr>"

text \<open>The object of a request, or nothing; the store may take note that it was used.\<close>

definition req_object :: "store_req \<Rightarrow> gobject \<Rightarrow> store_server \<Rightarrow> store_server \<times> object option" where
  "req_object E msg s =
     (case Get (sh_env E) (ss_store s) (get_string0 msg ''object-id'') of
        (st, Inr (Some a)) \<Rightarrow> (s\<lparr>ss_store := st\<rparr>, Some (s_heap st a))
      | (st, _) \<Rightarrow> (s\<lparr>ss_store := st\<rparr>, None))"

definition readTree :: "store_req \<Rightarrow> gobject \<Rightarrow> store_server \<Rightarrow> store_server" where
  "readTree E msg s =
     (case req_object E msg s of
        (s1, None) \<Rightarrow> reply_store [(''path'', GNil)] s1
      | (s1, Some ob) \<Rightarrow> reply_store [(''path'', GString (Tree_path (sh_root E) ob))] s1)"

definition readTreeAt :: "store_req \<Rightarrow> gobject \<Rightarrow> store_server \<Rightarrow> store_server" where
  "readTreeAt E msg s =
     (let target = get_string0 msg ''target''; subtree = get_string0 msg ''subtree'' in
      case req_object E msg s of
        (s1, None) \<Rightarrow> reply_store [(''path'', GNil)] s1
      | (s1, Some ob) \<Rightarrow>
          (case sh_mount E of
             Some e \<Rightarrow> reply_store [(''error'', GString (''mount bind: '' @ e))] s1
           | None \<Rightarrow>
               reply_store [(''path'', GString target)]
                 (s1\<lparr>ss_mounts := ss_mounts s1 @ [target],
                     ss_fs := (ss_fs s1)\<lparr>mt_table := mt_table (ss_fs s1) @ [(path_Join [Tree_path (sh_root E) ob, subtree], target)]\<rparr>\<rparr>)))"

definition store_mkdtemp :: "store_req \<Rightarrow> gobject \<Rightarrow> store_server \<Rightarrow> store_server" where
  "store_mkdtemp E msg s =
     (case sh_MkdirTemp E (ss_tmpRoot s) (get_string0 msg ''prefix'' @ ''*'' @ get_string0 msg ''suffix'') of
        Inl e \<Rightarrow> reply_store [(''error'', GString e)] s
      | Inr path \<Rightarrow> reply_store [(''path'', GString path)] s)"

definition store_source :: "store_req \<Rightarrow> gobject \<Rightarrow> store_server \<Rightarrow> store_server" where
  "store_source E msg s =
     reply_store [(''path'', GString (path_Join [sh_root E, ''sources'', get_string0 msg ''name'']))] s"

text \<open>The descriptors of a request are closed first.\<close>

definition shut_fds :: "int list option \<Rightarrow> store_server \<Rightarrow> store_server" where
  "shut_fds fds s = (case fds of None \<Rightarrow> s | Some f \<Rightarrow> s\<lparr>ss_shut := ss_shut s @ snd (FD_Close f)\<rparr>)"

definition Store_handle :: "store_req \<Rightarrow> gobject \<Rightarrow> int list option \<Rightarrow> store_server \<Rightarrow> store_server" where
  "Store_handle E msg fds s0 =
     (let s = shut_fds fds s0; m = get_string0 msg ''method'' in
      if m = ''read-tree'' then readTree E msg s
      else if m = ''read-tree-at'' then readTreeAt E msg s
      else if m = ''mkdtemp'' then store_mkdtemp E msg s
      else if m = ''source'' then store_source E msg s
      else s)"

text \<open>\<open>ok t\<close> is whether unmounting \<open>t\<close> works; a failure is not looked at.\<close>

fun umount_rev :: "(string \<Rightarrow> bool) \<Rightarrow> string list \<Rightarrow> mountfs \<Rightarrow> mountfs" where
  "umount_rev ok [] fs = fs"
| "umount_rev ok (t # ts) fs = umount_rev ok ts (if ok t then umount_last t fs else fs)"

definition CleanupMounts :: "(string \<Rightarrow> bool) \<Rightarrow> store_server \<Rightarrow> store_server" where
  "CleanupMounts ok s =
     (let fs = umount_rev ok (rev (ss_mounts s)) (ss_fs s) in
      s\<lparr>ss_mounts := [], ss_fs := (if ss_tmpRoot s \<noteq> [] then fs_RemoveAll (ss_tmpRoot s) fs else fs)\<rparr>)"

text \<open>The end of \<open>RunStage\<close> as far as the mounts go: \<open>CleanupMounts\<close>, then the stage's temporary directory.\<close>

definition stage_teardown :: "(string \<Rightarrow> bool) \<Rightarrow> string \<Rightarrow> store_server \<Rightarrow> mountfs" where
  "stage_teardown ok tmpDir s = fs_RemoveAll tmpDir (ss_fs (CleanupMounts ok s))"

section \<open>What teardown leaves of the trees\<close>

text \<open>The mounts of a server are exactly those it added to the table, in order.\<close>

definition mounts_ok :: "mountfs \<Rightarrow> string list \<Rightarrow> mountfs \<Rightarrow> bool" where
  "mounts_ok fs mounts fs' \<longleftrightarrow> (\<exists>srcs. length srcs = length mounts \<and> mt_table fs' = mt_table fs @ zip srcs mounts)
     \<and> mt_lost fs' = mt_lost fs"

definition server_ok :: "mountfs \<Rightarrow> store_server \<Rightarrow> bool" where
  "server_ok fs s \<longleftrightarrow> mounts_ok fs (ss_mounts s) (ss_fs s)"

lemma mounts_ok_Nil [simp]: "mounts_ok fs [] fs' \<longleftrightarrow> mt_table fs' = mt_table fs \<and> mt_lost fs' = mt_lost fs"
  by (auto simp: mounts_ok_def)

lemma mounts_ok_add:
  assumes "mounts_ok fs mounts fs'"
  shows "mounts_ok fs (mounts @ [t]) (fs'\<lparr>mt_table := mt_table fs' @ [(src, t)]\<rparr>)"
proof -
  obtain srcs where "length srcs = length mounts" "mt_table fs' = mt_table fs @ zip srcs mounts" "mt_lost fs' = mt_lost fs"
    using assms by (auto simp: mounts_ok_def)
  then show ?thesis unfolding mounts_ok_def by (intro conjI exI [of _ "srcs @ [src]"]) simp_all
qed

lemma mounts_ok_drop:
  assumes "mounts_ok fs (mounts @ [t]) fs'"
  shows "mounts_ok fs mounts (umount_last t fs')"
proof -
  obtain srcs where srcs: "length srcs = length (mounts @ [t])" "mt_table fs' = mt_table fs @ zip srcs (mounts @ [t])"
    "mt_lost fs' = mt_lost fs" using assms by (auto simp: mounts_ok_def)
  then obtain xs x where x: "srcs = xs @ [x]" "length xs = length mounts" by (cases srcs rule: rev_cases) auto
  with srcs show ?thesis unfolding mounts_ok_def umount_last_def by (intro conjI exI [of _ xs]) simp_all
qed

lemma umount_rev_all:
  "mounts_ok fs mounts fs' \<Longrightarrow> (\<And>t. t \<in> set mounts \<Longrightarrow> ok t) \<Longrightarrow>
     mt_table (umount_rev ok (rev mounts) fs') = mt_table fs \<and> mt_lost (umount_rev ok (rev mounts) fs') = mt_lost fs"
proof (induction mounts arbitrary: fs' rule: rev_induct)
  case (snoc t mounts)
  then show ?case using mounts_ok_drop [OF snoc.prems(1)] by simp
qed simp

lemma reply_store_fields [simp]:
  "ss_mounts (reply_store r s) = ss_mounts s" "ss_fs (reply_store r s) = ss_fs s" "ss_tmpRoot (reply_store r s) = ss_tmpRoot s"
  by (simp_all add: reply_store_def)

lemma req_object_fields:
  assumes "req_object E msg s = (s1, r)"
  shows "ss_mounts s1 = ss_mounts s" "ss_fs s1 = ss_fs s" "ss_tmpRoot s1 = ss_tmpRoot s"
  using assms by (auto simp: req_object_def split: prod.splits sum.splits option.splits)

lemma shut_fds_fields [simp]:
  "ss_mounts (shut_fds fds s) = ss_mounts s" "ss_fs (shut_fds fds s) = ss_fs s" "ss_tmpRoot (shut_fds fds s) = ss_tmpRoot s"
  by (simp_all add: shut_fds_def split: option.split)

lemma req_object_shut: "req_object E msg (shut_fds fds s) = map_prod (shut_fds fds) id (req_object E msg s)"
  by (simp add: req_object_def shut_fds_def split: prod.split sum.split option.split)

lemma server_ok_methods:
  assumes "server_ok fs s"
  shows "server_ok fs (readTree E msg s) \<and> ss_tmpRoot (readTree E msg s) = ss_tmpRoot s"
    and "server_ok fs (readTreeAt E msg s) \<and> ss_tmpRoot (readTreeAt E msg s) = ss_tmpRoot s"
    and "server_ok fs (store_mkdtemp E msg s) \<and> ss_tmpRoot (store_mkdtemp E msg s) = ss_tmpRoot s"
    and "server_ok fs (store_source E msg s) \<and> ss_tmpRoot (store_source E msg s) = ss_tmpRoot s"
proof -
  obtain s1 ob where r: "req_object E msg s = (s1, ob)" by fastforce
  note f = req_object_fields [OF r]
  show "server_ok fs (readTree E msg s) \<and> ss_tmpRoot (readTree E msg s) = ss_tmpRoot s"
    using assms f by (cases ob) (simp_all add: readTree_def r server_ok_def)
  show "server_ok fs (readTreeAt E msg s) \<and> ss_tmpRoot (readTreeAt E msg s) = ss_tmpRoot s"
    using assms f by (cases ob; cases "sh_mount E") (simp_all add: readTreeAt_def r server_ok_def mounts_ok_add Let_def)
  show "server_ok fs (store_mkdtemp E msg s) \<and> ss_tmpRoot (store_mkdtemp E msg s) = ss_tmpRoot s"
    using assms by (simp add: store_mkdtemp_def server_ok_def split: sum.split)
  show "server_ok fs (store_source E msg s) \<and> ss_tmpRoot (store_source E msg s) = ss_tmpRoot s"
    using assms by (simp add: store_source_def server_ok_def)
qed

lemma server_ok_handle:
  assumes "server_ok fs s"
  shows "server_ok fs (Store_handle E msg fds s) \<and> ss_tmpRoot (Store_handle E msg fds s) = ss_tmpRoot s"
proof -
  have "server_ok fs (shut_fds fds s)" using assms by (simp add: server_ok_def)
  note ok = this server_ok_methods [OF this, of E msg]
  then show ?thesis by (simp add: Store_handle_def Let_def)
qed

definition serve :: "(store_req \<times> gobject \<times> int list option) list \<Rightarrow> store_server \<Rightarrow> store_server" where
  "serve reqs s = fold (\<lambda>(E, msg, fds). Store_handle E msg fds) reqs s"

lemma server_ok_serve: "server_ok fs s \<Longrightarrow> server_ok fs (serve reqs s) \<and> ss_tmpRoot (serve reqs s) = ss_tmpRoot s"
proof (induction reqs arbitrary: s)
  case (Cons q reqs)
  obtain E msg fds where q: "q = (E, msg, fds)" using prod_cases3 by blast
  show ?case using server_ok_handle [OF Cons.prems, of E msg fds] Cons.IH [of "Store_handle E msg fds s"]
    by (simp add: serve_def q)
qed (simp add: serve_def)

text \<open>Two requests of a stage: the tree of \<open>p\<close> bind-mounted below its temporary directory.\<close>

definition demo_req :: store_req where
  "demo_req = \<lparr>sh_root = ''/s'', sh_env = demo_env, sh_mount = None, sh_MkdirTemp = \<lambda>d p. Inl ''x''\<rparr>"

definition demo_msg :: gobject where
  "demo_msg = [(''method'', GString ''read-tree-at''), (''object-id'', GString ''p''), (''target'', GString ''/t/tree'')]"

definition demo_fs :: mountfs where
  "demo_fs = \<lparr>mt_table = [(''/dev/sda'', ''/'')], mt_lost = []\<rparr>"

lemma demo_msg_fields [simp]:
  "get_string0 demo_msg ''method'' = ''read-tree-at''" "get_string0 demo_msg ''object-id'' = ''p''"
  "get_string0 demo_msg ''target'' = ''/t/tree''" "get_string0 demo_msg ''subtree'' = []"
  by code_simp+

lemma demo_object: "req_object demo_req demo_msg (NewStoreServer ''/r'' demo_store demo_fs)
    = (NewStoreServer ''/r'' demo_store demo_fs, Some (s_heap demo_store 0))"
  by (simp add: req_object_def NewStoreServer_def Get_def demo_store_def)

text \<open>C33: As long as unmounting works, a stage leaves the trees of the store as they are: after any requests
  to the store server, taking the stage down undoes every mount the server made, in whatever places
  the stage asked for them, and removing the temporary directories deletes nothing else.\<close>

theorem stage_teardown_safe:
  assumes "\<And>t. t \<in> set (ss_mounts (serve reqs (NewStoreServer tmpRoot st fs))) \<Longrightarrow> ok t"
    and "\<And>m. m \<in> set (mt_table fs) \<Longrightarrow> \<not> below tmpRoot (snd m) \<and> \<not> below tmpDir (snd m)"
  shows "stage_teardown ok tmpDir (serve reqs (NewStoreServer tmpRoot st fs)) = fs"
proof -
  let ?s = "serve reqs (NewStoreServer tmpRoot st fs)"
  have "server_ok fs (NewStoreServer tmpRoot st fs)" by (simp add: NewStoreServer_def server_ok_def)
  then have ok: "mounts_ok fs (ss_mounts ?s) (ss_fs ?s)" "ss_tmpRoot ?s = tmpRoot"
    using server_ok_serve by (auto simp: server_ok_def NewStoreServer_def)
  note un = umount_rev_all [OF ok(1) assms(1)]
  have none: "filter (\<lambda>m. below d (snd m)) (mt_table fs) = []" if "d = tmpRoot \<or> d = tmpDir" for d
    using that assms(2) by (auto simp: filter_empty_conv)
  have "ss_fs (CleanupMounts ok ?s) = fs"
    using un none by (auto simp: CleanupMounts_def ok(2) fs_RemoveAll_def Let_def)
  then show ?thesis by (simp add: stage_teardown_def fs_RemoveAll_def none)
qed

theorem stage_teardown_safe_witness:
  "stage_teardown (\<lambda>_. True) ''/t'' (serve [(demo_req, demo_msg, None), (demo_req, demo_msg, Some [7])] (NewStoreServer ''/r'' demo_store demo_fs)) = demo_fs"
  by (rule stage_teardown_safe) (simp_all add: demo_fs_def below_def HasPrefix_def)

lemma umount_rev_keeps:
  assumes "(src, t) \<in> set (mt_table fs)" "\<not> ok t"
  shows "(src, t) \<in> set (mt_table (umount_rev ok ts fs))"
proof -
  have drop: "m \<in> set (drop_first u ms)" if "m \<in> set ms" "snd m \<noteq> u" for m :: "string \<times> string" and u ms
    using that by (induction ms) auto
  show ?thesis
    using assms
  proof (induction ts arbitrary: fs)
    case (Cons u ts)
    have "(src, t) \<in> set (mt_table (if ok u then umount_last u fs else fs))"
      using Cons.prems drop [of "(src, t)" "rev (mt_table fs)" u] by (auto simp: umount_last_def)
    then show ?case using Cons.IH Cons.prems(2) by simp
  qed simp
qed

text \<open>C34: When a mount the stage had made below its temporary directory cannot be undone (its target is
  busy), the failure is not noticed and removing the directory deletes the contents of the object's
  tree through the mount.\<close>

theorem stage_teardown_loses:
  assumes "req_object E msg s = (s1, Some ob)" "sh_mount E = None" "get_string0 msg ''method'' = ''read-tree-at''"
    "get_string0 msg ''subtree'' = []" "below tmpDir (get_string0 msg ''target'')" "\<not> ok (get_string0 msg ''target'')"
  shows "path_Join [Tree_path (sh_root E) ob, []] \<in> set (mt_lost (stage_teardown ok tmpDir (Store_handle E msg fds s)))"
proof -
  let ?t = "get_string0 msg ''target''" and ?src = "path_Join [Tree_path (sh_root E) ob, []]"
  have "(?src, ?t) \<in> set (mt_table (ss_fs (Store_handle E msg fds s)))"
    using assms(1-4) by (simp add: Store_handle_def readTreeAt_def req_object_shut Let_def)
  then have "(?src, ?t) \<in> set (mt_table (umount_rev ok (rev (ss_mounts (Store_handle E msg fds s))) (ss_fs (Store_handle E msg fds s))))"
    using assms(6) by (rule umount_rev_keeps)
  then have "(?src, ?t) \<in> set (mt_table (ss_fs (CleanupMounts ok (Store_handle E msg fds s))))"
    by (simp add: CleanupMounts_def fs_RemoveAll_def Let_def)
  with assms(5) show ?thesis by (force simp: stage_teardown_def fs_RemoveAll_def)
qed

theorem stage_teardown_loses_witness:
  "''/s/stage/uuid-u/data/tree'' \<in> set (mt_lost (stage_teardown (\<lambda>_. False) ''/t''
     (Store_handle demo_req demo_msg (Some [7]) (NewStoreServer ''/r'' demo_store demo_fs))))"
proof -
  have p: "path_Join [Tree_path (sh_root demo_req) (s_heap demo_store 0), []] = ''/s/stage/uuid-u/data/tree''"
    by code_simp
  have "path_Join [Tree_path (sh_root demo_req) (s_heap demo_store 0), []] \<in> set (mt_lost (stage_teardown (\<lambda>_. False) ''/t''
     (Store_handle demo_req demo_msg (Some [7]) (NewStoreServer ''/r'' demo_store demo_fs))))"
    by (rule stage_teardown_loses [OF demo_object]) (simp_all add: demo_req_def below_def HasPrefix_def)
  then show ?thesis by (simp only: p)
qed

end
