(* ===== verification/Sandbox.thy ===== *)
theory Sandbox
  imports ApiServers
begin

text \<open>
  \<^verbatim>\<open>sandbox/caps.go\<close> and \<^verbatim>\<open>sandbox/sandbox.go\<close>: the capabilities a stage gets, the directories
  and mounts an open sandbox makes, and the \<^verbatim>\<open>bwrap\<close> command a stage runs under. Log calls and
  the contents of the files below the temporary directory are left out.
\<close>

section \<open>Capabilities\<close>

definition DefaultCaps :: "string list" where
  "DefaultCaps =
     [''CAP_AUDIT_WRITE'', ''CAP_CHOWN'', ''CAP_DAC_OVERRIDE'', ''CAP_DAC_READ_SEARCH'', ''CAP_FOWNER'',
      ''CAP_FSETID'', ''CAP_IPC_LOCK'', ''CAP_LINUX_IMMUTABLE'', ''CAP_MAC_ADMIN'', ''CAP_MAC_OVERRIDE'',
      ''CAP_MKNOD'', ''CAP_NET_RAW'', ''CAP_SETFCAP'', ''CAP_SETGID'', ''CAP_SETPCAP'', ''CAP_SETUID'',
      ''CAP_SYS_ADMIN'', ''CAP_SYS_CHROOT'', ''CAP_SYS_NICE'']"

text \<open>A set of capabilities is a Go map, here its keys in the order \<open>range\<close> visits them; \<open>None\<close> is nil.\<close>

definition BuildCapArgs :: "string list option \<Rightarrow> string list" where
  "BuildCapArgs caps =
     (case caps of
        None \<Rightarrow> []
      | Some cs \<Rightarrow> [''--cap-drop'', ''ALL''] @ concat (map (\<lambda>c. [''--cap-add'', c]) (sort cs)))"

section \<open>Opening and closing\<close>

record sandbox =
  sx_rootDir :: string
  sx_runner :: string
  sx_libdir :: string
  sx_varDir :: string
  sx_dev :: string
  sx_varPath :: string
  sx_tmpPath :: string
  sx_procDir :: string
  sx_apis :: "server list"
  sx_MountBoot :: bool
  sx_Caps :: "string list option"

definition New_sandbox :: "string \<Rightarrow> string \<Rightarrow> string \<Rightarrow> string \<Rightarrow> sandbox" where
  "New_sandbox rootDir runner libdir varDir =
     \<lparr>sx_rootDir = rootDir, sx_runner = runner, sx_libdir = libdir, sx_varDir = varDir, sx_dev = [], sx_varPath = [],
      sx_tmpPath = [], sx_procDir = [], sx_apis = [], sx_MountBoot = True, sx_Caps = None\<rparr>"

definition RegisterAPI :: "server \<Rightarrow> sandbox \<Rightarrow> sandbox" where
  "RegisterAPI srv s = s\<lparr>sx_apis := sx_apis s @ [srv]\<rparr>"

text \<open>
  The directories there are (those of the host too, except the root), what is mounted, and what the
  servers made. The regular files below the directories are left out.
\<close>

record sbworld =
  sw_dirs :: "string list"
  sw_mounts :: "string list"
  sw_run :: rundir

datatype sbcall = Mkdir string | MountDev | CreateNode string | BindNode string | UmountDev | RemoveTree string

text \<open>\<open>sb_MkdirDev\<close> and \<open>sb_MkdirTmp\<close> are the random parts \<open>os.MkdirTemp\<close> chooses, or its failure.\<close>

record sbenv =
  sb_ok :: "sbcall \<Rightarrow> bool"
  sb_MkdirDev :: "string option"
  sb_MkdirTmp :: "string option"
  sb_server :: "string \<Rightarrow> server_env"

definition dev_nodes :: "string list" where
  "dev_nodes = [''full'', ''null'', ''random'', ''urandom'', ''tty'', ''zero'']"

text \<open>
  \<open>os.MkdirAll\<close>: a directory that is there is left alone; otherwise its parent is made first, in the
  same way, and the first failure ends it. \<open>dirs_to p\<close> is the path and its parents, the path first.
  The error is ignored by the callers here.
\<close>

definition dirs_to :: "string \<Rightarrow> string list" where
  "dirs_to p = p # map (\<lambda>i. take i p) (rev (filter (\<lambda>i. 0 < i \<and> p ! i = CHR ''/'') [0..<length p]))"

fun mkdir_up :: "sbenv \<Rightarrow> string list \<Rightarrow> string list \<Rightarrow> string list \<times> bool" where
  "mkdir_up E [] dirs = (dirs, True)"
| "mkdir_up E (p # up) dirs =
     (if p \<in> set dirs then (dirs, True)
      else case mkdir_up E up dirs of
        (dirs1, False) \<Rightarrow> (dirs1, False)
      | (dirs1, True) \<Rightarrow> if sb_ok E (Mkdir p) then (dirs1 @ [p], True) else (dirs1, False))"

definition MkdirAll :: "sbenv \<Rightarrow> string \<Rightarrow> sbworld \<Rightarrow> sbworld" where
  "MkdirAll E p w = w\<lparr>sw_dirs := fst (mkdir_up E (dirs_to p) (sw_dirs w))\<rparr>"

text \<open>\<open>os.MkdirTemp\<close>: the name of the new directory; there is none in a directory that does not exist.\<close>

definition MkdirTemp :: "string \<Rightarrow> string \<Rightarrow> string option \<Rightarrow> sbworld \<Rightarrow> string option" where
  "MkdirTemp dir pattern random w =
     (if dir \<in> set (sw_dirs w) then map_option (\<lambda>x. dir @ ''/'' @ pattern @ x) random else None)"

text \<open>
  \<open>os.RemoveAll\<close> removes a directory with all below it, unless something is mounted there or it
  fails, when the directory stays. The mounts of the device directory are undone together, by
  \<^verbatim>\<open>umount -R\<close>.
\<close>

definition under :: "string \<Rightarrow> string \<Rightarrow> bool" where
  "under d x \<longleftrightarrow> x = d \<or> HasPrefix x (d @ ''/'')"

definition remove_dir :: "sbenv \<Rightarrow> string \<Rightarrow> sbworld \<Rightarrow> sbworld" where
  "remove_dir E d w =
     (if sb_ok E (RemoveTree d) \<and> (\<forall>m \<in> set (sw_mounts w). \<not> under d m)
      then w\<lparr>sw_dirs := filter (\<lambda>x. \<not> under d x) (sw_dirs w)\<rparr> else w)"

definition umount_below :: "string \<Rightarrow> sbworld \<Rightarrow> sbworld" where
  "umount_below d w = w\<lparr>sw_mounts := filter (\<lambda>m. \<not> under d m) (sw_mounts w)\<rparr>"

fun stop_servers :: "server list \<Rightarrow> rundir \<Rightarrow> server list \<times> rundir" where
  "stop_servers [] d = ([], d)"
| "stop_servers (s # ss) d =
     (case Server_Stop s d of (s', d1) \<Rightarrow> (case stop_servers ss d1 of (ss', d2) \<Rightarrow> (s' # ss', d2)))"

definition Sandbox_Close :: "sbenv \<Rightarrow> sandbox \<Rightarrow> sbworld \<Rightarrow> sandbox \<times> sbworld" where
  "Sandbox_Close E s w =
     (let (apis, run) = stop_servers (sx_apis s) (sw_run w);
          s1 = s\<lparr>sx_apis := apis\<rparr>; w1 = w\<lparr>sw_run := run\<rparr>;
          (s2, w2) = (if sx_dev s1 \<noteq> []
            then (s1\<lparr>sx_dev := []\<rparr>, remove_dir E (sx_dev s1) (if sb_ok E UmountDev then umount_below (sx_dev s1) w1 else w1))
            else (s1, w1)) in
      if sx_tmpPath s2 \<noteq> [] then (s2\<lparr>sx_tmpPath := []\<rparr>, remove_dir E (sx_tmpPath s2) w2) else (s2, w2))"

text \<open>The node is an empty file in the device directory, and the host's node is mounted on it.\<close>

definition bindDev :: "sbenv \<Rightarrow> string \<Rightarrow> string \<Rightarrow> sbworld \<Rightarrow> sbworld \<times> string option" where
  "bindDev E dev name w =
     (let dest = path_Join [dev, name] in
      if \<not> sb_ok E (CreateNode name) then (w, Some (''creating dev node '' @ name))
      else if \<not> sb_ok E (BindNode name) then (w, Some (''bind mount /dev/'' @ name))
      else (w\<lparr>sw_mounts := sw_mounts w @ [dest]\<rparr>, None))"

fun bind_devs :: "sbenv \<Rightarrow> string \<Rightarrow> string list \<Rightarrow> sbworld \<Rightarrow> sbworld \<times> string option" where
  "bind_devs E dev [] w = (w, None)"
| "bind_devs E dev (n # ns) w =
     (case bindDev E dev n w of (w1, Some e) \<Rightarrow> (w1, Some e) | (w1, None) \<Rightarrow> bind_devs E dev ns w1)"

text \<open>The servers are started in order; the ones from the first that fails on stay as they are.\<close>

fun start_servers :: "(string \<Rightarrow> server_env) \<Rightarrow> server list \<Rightarrow> rundir \<Rightarrow> (server list \<times> rundir) \<times> string option" where
  "start_servers E [] d = (([], d), None)"
| "start_servers E (s # ss) d =
     (case Server_Start (E (sv_Endpoint s)) s d of
        ((s', d1), Some e) \<Rightarrow> ((s' # ss, d1), Some (''starting api '' @ sv_Endpoint s))
      | ((s', d1), None) \<Rightarrow> (case start_servers E ss d1 of ((ss', d2), r) \<Rightarrow> ((s' # ss', d2), r)))"

definition run_dir :: string where
  "run_dir = ''/run/osbuild''"

definition Sandbox_Open :: "sbenv \<Rightarrow> sandbox \<Rightarrow> sbworld \<Rightarrow> (sandbox \<times> sbworld) \<times> string option" where
  "Sandbox_Open E s w =
     (let w0 = MkdirAll E run_dir w in
      case MkdirTemp run_dir ''osbuild-dev-'' (sb_MkdirDev E) w0 of
        None \<Rightarrow> ((s, w0), Some ''creating dev tmpdir'')
      | Some dev \<Rightarrow>
        (let s1 = s\<lparr>sx_dev := dev\<rparr>; w1 = w0\<lparr>sw_dirs := sw_dirs w0 @ [dev]\<rparr> in
         if \<not> sb_ok E MountDev then ((s1, remove_dir E dev w1), Some ''mounting dev tmpfs'')
         else
           (case bind_devs E dev dev_nodes (w1\<lparr>sw_mounts := sw_mounts w1 @ [dev]\<rparr>) of
              (w2, Some e) \<Rightarrow> (Sandbox_Close E s1 w2, Some e)
            | (w2, None) \<Rightarrow>
              (let w3 = MkdirAll E (sx_varDir s1) w2 in
               case MkdirTemp (sx_varDir s1) ''osbuild-tmp-'' (sb_MkdirTmp E) w3 of
                 None \<Rightarrow> (Sandbox_Close E s1 w3, Some ''creating tmp dir'')
               | Some tmp \<Rightarrow>
                 (let s2 = s1\<lparr>sx_tmpPath := tmp, sx_varPath := path_Join [tmp, ''var''], sx_procDir := path_Join [tmp, ''proc'']\<rparr>;
                      w4 = w3\<lparr>sw_dirs := sw_dirs w3 @ [tmp]\<rparr>;
                      w5 = MkdirAll E (path_Join [sx_varPath s2, ''tmp'']) (MkdirAll E (sx_varPath s2) w4);
                      w6 = MkdirAll E (sx_procDir s2) w5 in
                  case start_servers (sb_server E) (sx_apis s2) (sw_run w6) of
                    ((apis, run), Some e) \<Rightarrow> (Sandbox_Close E (s2\<lparr>sx_apis := apis\<rparr>) (w6\<lparr>sw_run := run\<rparr>), Some e)
                  | ((apis, run), None) \<Rightarrow> ((s2\<lparr>sx_apis := apis\<rparr>, w6\<lparr>sw_run := run\<rparr>), None))))))"

section \<open>The command\<close>

record run_options =
  ro_Binds :: "string list"
  ro_ReadonlyBinds :: "string list"
  ro_ExtraEnv :: "(string, string) gmap"
  ro_Timeout :: "int option"

text \<open>What the host looks like: directories, the contents of the library directory, the environment.\<close>

record run_host =
  rh_IsDir :: "string \<Rightarrow> bool"
  rh_IsRealDir :: "string \<Rightarrow> bool"
  rh_ReadDir :: "string \<Rightarrow> string list option"
  rh_python :: "string option"
  rh_TERM :: string

text \<open>\<open>strings.SplitN(b, ":", 2)\<close>, and a bind only when there are two parts.\<close>

definition bind_args :: "string \<Rightarrow> string \<Rightarrow> string list" where
  "bind_args option_name b =
     (case Cut (CHR '':'') b of None \<Rightarrow> [] | Some (source, target) \<Rightarrow> [option_name, source, target])"

definition findOsbuildModule :: "string option \<Rightarrow> string" where
  "findOsbuildModule out = (case out of None \<Rightarrow> [] | Some text \<Rightarrow> TrimSpace text)"

definition root_mounts :: "run_host \<Rightarrow> sandbox \<Rightarrow> string list" where
  "root_mounts H s =
     (let bootDir = path_Join [sx_rootDir s, ''boot''] in
      if sx_MountBoot s \<and> rh_IsDir H bootDir then [''--ro-bind'', bootDir, ''/boot''] else [])
     @ (let usrDir = path_Join [sx_rootDir s, ''usr''] in
        if rh_IsRealDir H usrDir then [''--ro-bind'', usrDir, ''/usr''] else [])
     @ [''--symlink'', ''usr/lib'', ''/lib'', ''--symlink'', ''usr/lib64'', ''/lib64'',
        ''--symlink'', ''usr/bin'', ''/bin'', ''--symlink'', ''usr/sbin'', ''/sbin'']"

definition system_mounts :: "sandbox \<Rightarrow> string list" where
  "system_mounts s =
     [''--dev-bind'', sx_dev s, ''/dev'', ''--tmpfs'', ''/dev/shm'',
      ''--dir'', ''/etc'', ''--tmpfs'', ''/run'', ''--tmpfs'', ''/tmp'', ''--bind'', sx_varPath s, ''/var'',
      ''--proc'', ''/proc'', ''--ro-bind'', ''/sys'', ''/sys'', ''--ro-bind-try'', ''/sys/fs/selinux'', ''/sys/fs/selinux'',
      ''--ro-bind-try'', path_Join [sx_rootDir s, ''etc/mke2fs.conf''], ''/etc/mke2fs.conf'',
      ''--ro-bind-try'', path_Join [sx_rootDir s, ''etc/containers''], ''/etc/containers'',
      ''--ro-bind-try'', path_Join [sx_rootDir s, ''ostree''], ''/ostree'',
      ''--ro-bind-try'', path_Join [sx_rootDir s, ''etc/selinux''], ''/etc/selinux'']"

definition lib_mounts :: "run_host \<Rightarrow> sandbox \<Rightarrow> string list" where
  "lib_mounts H s =
     [''--ro-bind'', sx_libdir s, ''/run/osbuild/lib'']
     @ (case rh_ReadDir H (path_Join [sx_libdir s, ''osbuild'']) of
          Some (e # es) \<Rightarrow> []
        | _ \<Rightarrow> if findOsbuildModule (rh_python H) \<noteq> []
               then [''--ro-bind'', findOsbuildModule (rh_python H), ''/run/osbuild/lib/osbuild''] else [])
     @ [''--ro-bind'', path_Join [sx_procDir s, ''cmdline''], ''/proc/cmdline'']"

definition option_mounts :: "run_options \<Rightarrow> string list" where
  "option_mounts opts =
     concat (map (bind_args ''--bind'') (ro_Binds opts)) @ concat (map (bind_args ''--ro-bind'') (ro_ReadonlyBinds opts))"

definition api_mounts :: "sandbox \<Rightarrow> string list" where
  "api_mounts s =
     [''--dir'', ''/run/osbuild/api'']
     @ concat (map (\<lambda>a. [''--bind'', sv_SocketAddress a, ''/run/osbuild/api/'' @ sv_Endpoint a]) (sx_apis s))"

definition run_command :: "run_host \<Rightarrow> sandbox \<Rightarrow> string list \<Rightarrow> run_options \<Rightarrow> string list" where
  "run_command H s argv opts =
     [''bwrap'', ''--chdir'', ''/'', ''--die-with-parent'', ''--new-session'', ''--unshare-ipc'', ''--unshare-pid'', ''--unshare-net'']
     @ BuildCapArgs (sx_Caps s) @ root_mounts H s @ system_mounts s @ lib_mounts H s @ option_mounts opts @ api_mounts s
     @ (let target = ''/run/osbuild/runner/'' @ Base (sx_runner s) in
        [''--ro-bind'', sx_runner s, target, ''--'', target] @ argv)"

definition run_environ :: "run_host \<Rightarrow> run_options \<Rightarrow> string list" where
  "run_environ H opts =
     [''container=bwrap-osbuild'', ''LC_CTYPE=C.UTF-8'', ''PATH=/usr/sbin:/usr/bin'', ''PYTHONPATH=/run/osbuild/lib'',
      ''PYTHONUNBUFFERED=1'', ''TERM='' @ (if rh_TERM H \<noteq> [] then rh_TERM H else ''dumb'')]
     @ map (\<lambda>(k, v). k @ ''='' @ v) (ro_ExtraEnv opts)"

text \<open>The deadline of the process in nanoseconds; \<open>time.Duration\<close> has 64 bits and wraps around.\<close>

definition run_deadline :: "run_options \<Rightarrow> 64 word option" where
  "run_deadline opts =
     (case ro_Timeout opts of
        Some t \<Rightarrow> if t > 0 then Some (word_of_int t * 1000000000) else None
      | None \<Rightarrow> None)"

text \<open>
  The result of the finished process: \<open>err\<close> is the error of \<open>Run\<close>, \<open>code\<close> the exit code when the
  process was started, -1 when a signal ended it.
\<close>

definition run_result :: "string option \<Rightarrow> int option \<Rightarrow> string \<Rightarrow> string option \<times> int \<times> string" where
  "run_result err code output =
     (let rc = (case code of None \<Rightarrow> 0 | Some c \<Rightarrow> c) in
      (if err \<noteq> None \<and> rc = 0 then err else None, rc, output))"

end
