(* ===== verification/Paths.thy ===== *)
theory Paths
  imports GoStrings
begin

text \<open>
  \<open>filepath.Rel\<close> on Unix paths, which the input and mount managers apply to the paths their
  services return, and what it says about a path below a root and about one that only starts with
  the same characters.
\<close>

section \<open>Rel\<close>

text \<open>The components of a cleaned path; the base \<^verbatim>\<open>.\<close> has none.\<close>

definition path_parts :: "string \<Rightarrow> string list" where
  "path_parts p = (if p = ''/'' then [[]] else Split (CHR ''/'') p)"

fun strip_common :: "string list \<Rightarrow> string list \<Rightarrow> string list \<times> string list" where
  "strip_common (b # bs) (t # ts) = (if b = t then strip_common bs ts else (b # bs, t # ts))"
| "strip_common bs ts = (bs, ts)"

definition Rel :: "string \<Rightarrow> string \<Rightarrow> string option" where
  "Rel basepath targpath =
     (let b = Clean basepath; t = Clean targpath in
      if t = b then Some ''.''
      else if HasPrefix b ''/'' \<noteq> HasPrefix t ''/'' then None
      else
        (let (bs, ts) = strip_common (if b = ''.'' then [] else path_parts b) (path_parts t) in
         if bs \<noteq> [] \<and> ts \<noteq> [] \<and> hd bs = ''..'' then None
         else Some (Join (map (\<lambda>_. ''..'') bs @ ts) ''/'')))"

section \<open>Plain paths\<close>

text \<open>A component that names something, and the absolute path of such components.\<close>

definition plain :: "string \<Rightarrow> bool" where
  "plain c \<longleftrightarrow> c \<noteq> [] \<and> c \<noteq> ''.'' \<and> c \<noteq> ''..'' \<and> CHR ''/'' \<notin> set c"

definition abs_path :: "string list \<Rightarrow> string" where
  "abs_path cs = CHR ''/'' # Join cs ''/''"

lemma Split_part: "c \<notin> set s \<Longrightarrow> Split c s = [s]"
  by (induction s) auto

lemma Split_append: "c \<notin> set s \<Longrightarrow> Split c (s @ c # rest) = s # Split c rest"
  by (induction s) auto

lemma Split_Join:
  "cs \<noteq> [] \<Longrightarrow> \<forall>c \<in> set cs. CHR ''/'' \<notin> set c \<Longrightarrow> Split (CHR ''/'') (Join cs ''/'') = cs"
proof (induction cs)
  case (Cons c cs)
  then show ?case by (cases cs) (simp_all add: Split_part Split_append)
qed simp

lemma clean_parts_plain: "\<forall>c \<in> set cs. plain c \<Longrightarrow> clean_parts r cs st = rev st @ cs"
  by (induction cs arbitrary: st) (auto simp: plain_def)

lemma Split_abs_path: "\<forall>c \<in> set cs. plain c \<Longrightarrow> cs \<noteq> [] \<Longrightarrow> Split (CHR ''/'') (abs_path cs) = [] # cs"
  by (simp add: abs_path_def Split_Join plain_def)

lemma Clean_abs_path:
  assumes "\<forall>c \<in> set cs. plain c" "cs \<noteq> []"
  shows "Clean (abs_path cs) = abs_path cs"
proof -
  have "HasPrefix (abs_path cs) ''/''" by (simp add: abs_path_def HasPrefix_def)
  moreover have "clean_parts True ([] # cs) [] = cs" using clean_parts_plain [OF assms(1)] by simp
  ultimately show ?thesis by (simp add: Clean_def Split_abs_path [OF assms]) (simp add: abs_path_def)
qed

lemma parts_abs_path:
  assumes "\<forall>c \<in> set cs. plain c" "cs \<noteq> []"
  shows "path_parts (abs_path cs) = [] # cs"
proof -
  have "abs_path cs \<noteq> ''/''"
  proof
    assume "abs_path cs = ''/''"
    then have "[] # cs = [[], []]" using Split_abs_path [OF assms] by simp
    then show False using assms(1) by (simp add: plain_def)
  qed
  then show ?thesis by (simp add: path_parts_def Split_abs_path [OF assms])
qed

lemma strip_common_same: "strip_common (cs @ bs) (cs @ ts) = strip_common bs ts"
  by (induction cs) simp_all

lemma Rel_abs:
  assumes "\<forall>c \<in> set (cs @ bs). plain c" "\<forall>c \<in> set (cs @ ts). plain c" "cs @ bs \<noteq> []" "cs @ ts \<noteq> []"
    "bs \<noteq> ts" "bs = [] \<or> ts = [] \<or> hd bs \<noteq> hd ts"
  shows "Rel (abs_path (cs @ bs)) (abs_path (cs @ ts)) = Some (Join (map (\<lambda>_. ''..'') bs @ ts) ''/'')"
proof -
  have eq: "abs_path (cs @ ts) \<noteq> abs_path (cs @ bs)"
  proof
    assume "abs_path (cs @ ts) = abs_path (cs @ bs)"
    then have "path_parts (abs_path (cs @ ts)) = path_parts (abs_path (cs @ bs))" by simp
    then show False using assms by (simp add: parts_abs_path)
  qed
  have abs: "HasPrefix (abs_path x) ''/''" "abs_path x \<noteq> ''.''" for x by (simp_all add: abs_path_def HasPrefix_def)
  have "strip_common ([] # cs @ bs) ([] # cs @ ts) = (bs, ts)"
  proof -
    have "strip_common bs ts = (bs, ts)" using assms(6) by (cases bs; cases ts) simp_all
    then show ?thesis using strip_common_same [of cs bs ts] by simp
  qed
  moreover have "bs \<noteq> [] \<longrightarrow> hd bs \<noteq> ''..''" using assms(1) by (cases bs) (auto simp: plain_def)
  ultimately show ?thesis
    using eq abs assms(1-4) by (auto simp: Rel_def Clean_abs_path parts_abs_path)
qed

section \<open>Below a root, or only beside it\<close>

text \<open>A path below a root comes out as the rest of the path.\<close>

lemma Rel_below:
  assumes "\<forall>c \<in> set (cs @ ts). plain c" "cs \<noteq> []" "ts \<noteq> []"
  shows "Rel (abs_path cs) (abs_path (cs @ ts)) = Some (Join ts ''/'')"
  using Rel_abs [of cs "[]" ts] assms by simp

text \<open>A path that only starts with the characters of the root comes out as a path that leaves the root.\<close>

lemma Rel_beside:
  assumes "\<forall>c \<in> set (cs @ [d, e]). plain c" "d \<noteq> e"
  shows "Rel (abs_path (cs @ [d])) (abs_path (cs @ [e])) = Some (''../'' @ e)"
  using Rel_abs [of cs "[d]" "[e]"] assms by simp

lemma Join_snoc: "cs \<noteq> [] \<Longrightarrow> Join (cs @ [c]) s = Join cs s @ s @ c"
proof (induction cs)
  case (Cons x cs)
  then show ?case by (cases cs) simp_all
qed simp

lemma HasPrefix_beside: "HasPrefix (abs_path (cs @ [d @ x])) (abs_path (cs @ [d]))"
  by (cases "cs = []") (simp_all add: abs_path_def HasPrefix_def Join_snoc)

lemma Join_append: "xs \<noteq> [] \<Longrightarrow> ys \<noteq> [] \<Longrightarrow> Join (xs @ ys) s = Join xs s @ s @ Join ys s"
proof (induction xs)
  case (Cons x xs)
  then show ?case by (cases xs; cases ys) simp_all
qed simp

lemma path_Join_below:
  assumes "\<forall>c \<in> set (cs @ ts). plain c" "cs \<noteq> []" "ts \<noteq> []"
  shows "path_Join [abs_path cs, Join ts ''/''] = abs_path (cs @ ts)"
proof -
  have "Join [abs_path cs, Join ts ''/''] ''/'' = abs_path (cs @ ts)"
    using assms(2,3) by (simp add: abs_path_def Join_append)
  moreover have "abs_path cs \<noteq> []" by (simp add: abs_path_def)
  ultimately show ?thesis using Clean_abs_path [OF assms(1)] assms(2) by (simp add: path_Join_def)
qed

end
