(* ===== verification/SandboxFacts.thy ===== *)
theory SandboxFacts
  imports Sandbox Paths
begin

text \<open>
  The capabilities of a stage do not depend on the order of a map, a bind specification is taken
  apart rightly exactly when its source has no colon, and a sandbox that was opened and closed
  leaves nothing but the directories of its sockets and the two directories its own are made in.
\<close>

section \<open>Capabilities\<close>

lemma cap_args_mset: "mset caps = mset caps' \<Longrightarrow> BuildCapArgs (Some caps) = BuildCapArgs (Some caps')"
  by (simp add: BuildCapArgs_def) (metis sorted_list_of_multiset_mset)

text \<open>The capabilities an argument list adds after dropping all.\<close>

fun added_caps :: "string list \<Rightarrow> string list" where
  "added_caps (opt # c # rest) = (if opt = ''--cap-add'' then c # added_caps rest else added_caps rest)"
| "added_caps _ = []"

lemma added_caps_args [simp]: "added_caps (concat (map (\<lambda>c. [''--cap-add'', c]) cs)) = cs"
  by (induction cs) simp_all

text \<open>The arguments for a set of capabilities drop all and then add exactly those of the set, each
  once and in sorted order, so the command does not depend on the order Go ranges over the map.\<close>

theorem BuildCapArgs_spec:
  assumes "distinct caps" "distinct caps'" "set caps = set caps'"
  shows "BuildCapArgs (Some caps) = BuildCapArgs (Some caps')
    \<and> take 2 (BuildCapArgs (Some caps)) = [''--cap-drop'', ''ALL'']
    \<and> sorted (added_caps (BuildCapArgs (Some caps))) \<and> mset (added_caps (BuildCapArgs (Some caps))) = mset caps"
  using cap_args_mset [of caps caps'] set_eq_iff_mset_eq_distinct [OF assms(1,2)] assms(3)
  by (simp add: BuildCapArgs_def)

theorem BuildCapArgs_spec_witness:
  "BuildCapArgs (Some [''CAP_B'', ''CAP_A'']) = BuildCapArgs (Some [''CAP_A'', ''CAP_B''])"
  using BuildCapArgs_spec [of "[''CAP_B'', ''CAP_A'']" "[''CAP_A'', ''CAP_B'']"] by auto

section \<open>Binds\<close>

text \<open>A bind \<^verbatim>\<open>source:target\<close> becomes a bind of \<^verbatim>\<open>source\<close> on \<^verbatim>\<open>target\<close> exactly when the source path has no
  colon: with a colon in it, as when the store is kept in a directory with a colon in its name, the
  sandbox binds another path at another place.\<close>

theorem bind_args_iff:
  "bind_args opt (source @ '':'' @ target) = [opt, source, target] \<longleftrightarrow> CHR '':'' \<notin> set source"
proof
  assume "CHR '':'' \<notin> set source"
  then have "Cut (CHR '':'') (source @ CHR '':'' # target) = Some (source, target)" by (simp add: Cut_Some)
  then show "bind_args opt (source @ '':'' @ target) = [opt, source, target]" by (simp add: bind_args_def)
next
  assume "bind_args opt (source @ '':'' @ target) = [opt, source, target]"
  then have "Cut (CHR '':'') (source @ CHR '':'' # target) = Some (source, target)"
    by (auto simp: bind_args_def split: option.splits prod.splits)
  then show "CHR '':'' \<notin> set source" by (simp add: Cut_Some)
qed

section \<open>Making and removing directories\<close>

lemma under_child: "under d (d @ ''/'' @ x)" by (simp add: under_def HasPrefix_def)

lemma under_same [simp]: "under d d" by (simp add: under_def)

lemma dirs_to_child:
  assumes "d \<noteq> []" "CHR ''/'' \<notin> set n"
  shows "dirs_to (d @ ''/'' @ n) = (d @ ''/'' @ n) # dirs_to d"
proof -
  let ?p = "d @ CHR ''/'' # n" and ?ok = "\<lambda>p i. 0 < i \<and> p ! i = CHR ''/''"
  have "[0..<length ?p] = [0..<length d] @ [length d] @ [Suc (length d)..<length ?p]"
    using upt_add_eq_append [of 0 "length d" "Suc (length n)"] by (simp add: upt_conv_Cons del: upt_Suc)
  moreover have "filter (?ok ?p) [0..<length d] = filter (?ok d) [0..<length d]"
    by (rule filter_cong) (simp_all add: nth_append)
  moreover have "filter (?ok ?p) [Suc (length d)..<length ?p] = []"
    using assms(2) by (auto simp: filter_empty_conv nth_append nth_Cons' in_set_conv_nth)
  ultimately have idx: "filter (?ok ?p) [0..<length ?p] = filter (?ok d) [0..<length d] @ [length d]"
    using assms(1) by (simp del: upt_Suc)
  have "map (\<lambda>i. take i ?p) (rev (filter (?ok d) [0..<length d])) = map (\<lambda>i. take i d) (rev (filter (?ok d) [0..<length d]))"
    by (rule map_cong) auto
  with idx show ?thesis by (simp add: dirs_to_def del: upt_Suc)
qed

lemma mkdir_up_adds: "\<exists>new b. mkdir_up E ps dirs = (dirs @ new, b) \<and> set new \<subseteq> set ps"
proof (induction ps)
  case (Cons p up)
  then obtain new b where "mkdir_up E up dirs = (dirs @ new, b)" "set new \<subseteq> set up" by blast
  then show ?case by (cases b) auto
qed (auto intro: exI [of "\<lambda>b. b" True])

lemma mkdir_up_stops:
  "t \<in> set dirs \<Longrightarrow> \<exists>new b. mkdir_up E (xs @ t # rest) dirs = (dirs @ new, b) \<and> set new \<subseteq> set xs"
proof (induction xs)
  case (Cons x xs)
  then obtain new b where "mkdir_up E (xs @ t # rest) dirs = (dirs @ new, b)" "set new \<subseteq> set xs" by blast
  then show ?case by (cases b) auto
qed (auto intro: exI [of "\<lambda>b. b" True])

lemma MkdirAll_adds: "\<exists>new. MkdirAll E p w = w\<lparr>sw_dirs := sw_dirs w @ new\<rparr> \<and> set new \<subseteq> set (dirs_to p)"
  using mkdir_up_adds [of E "dirs_to p" "sw_dirs w"] by (auto simp: MkdirAll_def)

lemma MkdirAll_below:
  assumes "t \<in> set (sw_dirs w)" "dirs_to p = xs @ t # rest" "\<forall>x \<in> set xs. under t x"
  shows "\<exists>new. MkdirAll E p w = w\<lparr>sw_dirs := sw_dirs w @ new\<rparr> \<and> (\<forall>x \<in> set new. under t x)"
  using mkdir_up_stops [OF assms(1), of E xs rest] assms(2,3) by (fastforce simp: MkdirAll_def)

text \<open>A path of named components, the way \<open>filepath.Join\<close> leaves it.\<close>

definition clean_path :: "string \<Rightarrow> bool" where
  "clean_path d \<longleftrightarrow> (\<exists>cs. cs \<noteq> [] \<and> (\<forall>c \<in> set cs. plain c) \<and> d = abs_path cs)"

lemma clean_path_Join:
  assumes "clean_path d" "plain n"
  shows "path_Join [d, n] = d @ ''/'' @ n" "clean_path (d @ ''/'' @ n)" "d \<noteq> []" "CHR ''/'' \<notin> set n"
proof -
  obtain cs where cs: "cs \<noteq> []" "\<forall>c \<in> set cs. plain c" "d = abs_path cs" using assms(1) by (auto simp: clean_path_def)
  then have snoc: "abs_path (cs @ [n]) = d @ ''/'' @ n" by (simp add: abs_path_def Join_snoc)
  with path_Join_below [of cs "[n]"] cs assms(2) show "path_Join [d, n] = d @ ''/'' @ n" by simp
  show "clean_path (d @ ''/'' @ n)"
    unfolding clean_path_def snoc [symmetric] using cs assms(2) by (intro exI [of _ "cs @ [n]"]) auto
  show "d \<noteq> []" "CHR ''/'' \<notin> set n" using cs(3) assms(2) by (simp_all add: abs_path_def plain_def)
qed

lemma plain_nodes: "\<forall>n \<in> set (''var'' # ''tmp'' # ''proc'' # dev_nodes). plain n"
  by (simp add: plain_def dev_nodes_def)

lemma bind_devs_under:
  assumes "clean_path dev" "\<forall>n \<in> set ns. plain n" "bind_devs E dev ns w = (w', r)"
  shows "\<exists>ms. w' = w\<lparr>sw_mounts := sw_mounts w @ ms\<rparr> \<and> (\<forall>m \<in> set ms. under dev m)"
  using assms(2,3)
proof (induction ns arbitrary: w)
  case (Cons n ns)
  obtain w1 q where b: "bindDev E dev n w = (w1, q)" by fastforce
  have "\<exists>ms. w1 = w\<lparr>sw_mounts := sw_mounts w @ ms\<rparr> \<and> (\<forall>m \<in> set ms. under dev m)"
    using b clean_path_Join(1) [OF assms(1), of n] Cons.prems(1) under_child [of dev n]
    by (auto simp: bindDev_def Let_def split: if_splits intro: exI [of _ "[]"])
  then obtain ms where ms: "w1 = w\<lparr>sw_mounts := sw_mounts w @ ms\<rparr>" "\<forall>m \<in> set ms. under dev m" by blast
  show ?case
  proof (cases q)
    case (Some e)
    with Cons.prems b ms show ?thesis by auto
  next
    case None
    with Cons.prems b have "bind_devs E dev ns w1 = (w', r)" by simp
    with Cons.IH [of w1] Cons.prems(1) obtain ms' where
      "w' = w1\<lparr>sw_mounts := sw_mounts w1 @ ms'\<rparr>" "\<forall>m \<in> set ms'. under dev m" by auto
    with ms show ?thesis by (intro exI [of _ "ms @ ms'"]) auto
  qed
qed (auto intro: exI [of _ "[]"])

text \<open>The directories below the temporary one: \<^verbatim>\<open>var\<close>, \<^verbatim>\<open>var/tmp\<close> and \<^verbatim>\<open>proc\<close>.\<close>

lemma make_private:
  assumes "clean_path tmp" "tmp \<in> set (sw_dirs w)"
  shows "\<exists>new. MkdirAll E (path_Join [tmp, ''proc''])
      (MkdirAll E (path_Join [path_Join [tmp, ''var''], ''tmp'']) (MkdirAll E (path_Join [tmp, ''var'']) w))
    = w\<lparr>sw_dirs := sw_dirs w @ new\<rparr> \<and> (\<forall>x \<in> set new. under tmp x)"
proof -
  have pl: "plain ''var''" "plain ''proc''" "plain ''tmp''" using plain_nodes by simp_all
  note var = clean_path_Join [OF assms(1) pl(1)] and prc = clean_path_Join [OF assms(1) pl(2)]
  note vtmp = clean_path_Join [OF var(2) pl(3)]
  have d: "dirs_to (tmp @ ''/'' @ n) = [tmp @ ''/'' @ n] @ tmp # tl (dirs_to tmp)" if "CHR ''/'' \<notin> set n" for n
    using dirs_to_child [OF var(3) that] by (simp add: dirs_to_def)
  have d2: "dirs_to ((tmp @ ''/'' @ ''var'') @ ''/'' @ ''tmp'')
      = [(tmp @ ''/'' @ ''var'') @ ''/'' @ ''tmp'', tmp @ ''/'' @ ''var''] @ tmp # tl (dirs_to tmp)"
    using dirs_to_child [OF vtmp(3), of "''tmp''"] d [OF var(4)] by simp
  obtain n1 where 1: "MkdirAll E (path_Join [tmp, ''var'']) w = w\<lparr>sw_dirs := sw_dirs w @ n1\<rparr>" "\<forall>x \<in> set n1. under tmp x"
    using MkdirAll_below [OF assms(2) d [OF var(4)], of E] under_child var(1) by auto
  let ?w1 = "w\<lparr>sw_dirs := sw_dirs w @ n1\<rparr>"
  have "\<forall>x \<in> set [(tmp @ ''/'' @ ''var'') @ ''/'' @ ''tmp'', tmp @ ''/'' @ ''var'']. under tmp x"
    using under_child [of tmp] by (simp del: append_Cons)
  then obtain n2 where 2: "MkdirAll E (path_Join [path_Join [tmp, ''var''], ''tmp'']) ?w1 = ?w1\<lparr>sw_dirs := sw_dirs ?w1 @ n2\<rparr>"
    "\<forall>x \<in> set n2. under tmp x"
    using MkdirAll_below [of tmp ?w1, OF _ d2, of E] assms(2) unfolding var(1) vtmp(1) by auto
  let ?w2 = "?w1\<lparr>sw_dirs := sw_dirs ?w1 @ n2\<rparr>"
  obtain n3 where 3: "MkdirAll E (path_Join [tmp, ''proc'']) ?w2 = ?w2\<lparr>sw_dirs := sw_dirs ?w2 @ n3\<rparr>" "\<forall>x \<in> set n3. under tmp x"
    using MkdirAll_below [of tmp ?w2, OF _ d [OF prc(4)], of E] assms(2) under_child prc(1) by auto
  show ?thesis
    unfolding 1(1) 2(1) 3(1) using 1(2) 2(2) 3(2) by (intro exI [of _ "n1 @ n2 @ n3"]) auto
qed

section \<open>Starting and stopping the servers\<close>

definition socket_dirs :: "server list \<Rightarrow> string list" where
  "socket_dirs ss = filter (\<lambda>d. d \<noteq> []) (map sv_socketDir ss)"

lemma Server_Stop_keeps:
  "Server_Stop s d = (s', d') \<Longrightarrow> rd_dirs d' = rd_dirs d \<and> sv_socketDir s' = sv_socketDir s \<and> sv_Endpoint s' = sv_Endpoint s"
  by (auto simp: Server_Stop_def split: if_splits)

lemma stop_servers_keeps:
  "stop_servers ss d = (ss', d') \<Longrightarrow> rd_dirs d' = rd_dirs d \<and> map sv_socketDir ss' = map sv_socketDir ss
     \<and> map sv_Endpoint ss' = map sv_Endpoint ss"
proof (induction ss arbitrary: d ss' d')
  case (Cons s ss)
  then show ?case by (auto split: prod.splits dest!: Server_Stop_keeps)
qed simp

lemma Server_Start_dirs:
  assumes "Server_Start E s d = ((s', d'), r)" "sv_SocketAddress s = []" "sv_socketDir s = []" "sn_MkdirTemp E \<noteq> Inr []"
  shows "rd_dirs d' = rd_dirs d @ socket_dirs [s'] \<and> sv_Endpoint s' = sv_Endpoint s \<and> (r = None \<longrightarrow> sv_socketDir s' \<noteq> [])"
  using assms by (auto simp: Server_Start_def Server_listen_def socket_dirs_def split: sum.splits option.splits)

lemma start_servers_dirs:
  assumes "start_servers E ss d = ((ss', d'), r)" "\<forall>s \<in> set ss. sv_SocketAddress s = [] \<and> sv_socketDir s = []"
    "\<And>n. sn_MkdirTemp (E n) \<noteq> Inr []"
  shows "rd_dirs d' = rd_dirs d @ socket_dirs ss' \<and> map sv_Endpoint ss' = map sv_Endpoint ss
    \<and> (r = None \<longrightarrow> (\<forall>s \<in> set ss'. sv_socketDir s \<noteq> []))"
  using assms(1,2)
proof (induction ss arbitrary: d ss' d' r)
  case (Cons s ss)
  obtain s1 d1 q where 1: "Server_Start (E (sv_Endpoint s)) s d = ((s1, d1), q)" by (metis prod.exhaust)
  have s1: "rd_dirs d1 = rd_dirs d @ socket_dirs [s1]" "sv_Endpoint s1 = sv_Endpoint s" "q = None \<longrightarrow> sv_socketDir s1 \<noteq> []"
    using Server_Start_dirs [OF 1 _ _ assms(3)] Cons.prems(2) by simp_all
  have app: "socket_dirs (s1 # xs) = socket_dirs [s1] @ socket_dirs xs" for xs by (simp add: socket_dirs_def)
  show ?case
  proof (cases q)
    case (Some e)
    have "socket_dirs ss = []" using Cons.prems(2) by (auto simp: socket_dirs_def filter_empty_conv)
    moreover have "ss' = s1 # ss" "d' = d1" "r \<noteq> None" using Cons.prems(1) 1 Some by auto
    ultimately show ?thesis using s1 app [of ss] by auto
  next
    case None
    obtain ss2 d2 r2 where 2: "start_servers E ss d1 = ((ss2, d2), r2)" by (metis prod.exhaust)
    with Cons.prems 1 None have "d' = d2" "r = r2" "ss' = s1 # ss2" by auto
    with Cons.IH [OF 2] Cons.prems(2) s1 None app [of ss2] show ?thesis by simp
  qed
qed (simp add: socket_dirs_def)

section \<open>What a sandbox leaves\<close>

lemma Close_removes:
  assumes "Sandbox_Close E t u = (t', u')" "sb_ok E UmountDev" "\<And>d. sb_ok E (RemoveTree d)" "sx_dev t \<noteq> []"
    and "sw_dirs u = ds @ ks @ [sx_dev t] @ ls @ own" "\<forall>x \<in> set own. sx_tmpPath t \<noteq> [] \<and> under (sx_tmpPath t) x"
    and "sw_mounts u = ms @ bound" "\<forall>m \<in> set bound. under (sx_dev t) m"
    and "\<forall>x \<in> set ds \<union> set ks \<union> set ls \<union> set ms. \<not> under (sx_dev t) x \<and> (sx_tmpPath t \<noteq> [] \<longrightarrow> \<not> under (sx_tmpPath t) x)"
  shows "sw_dirs u' = ds @ ks @ ls \<and> sw_mounts u' = ms \<and> rd_dirs (sw_run u') = rd_dirs (sw_run u)
    \<and> map sv_socketDir (sx_apis t') = map sv_socketDir (sx_apis t) \<and> map sv_Endpoint (sx_apis t') = map sv_Endpoint (sx_apis t)"
proof -
  obtain apis run where st: "stop_servers (sx_apis t) (sw_run u) = (apis, run)" by fastforce
  note kp = stop_servers_keeps [OF st]
  have ids: "filter P xs = xs" if "\<forall>x \<in> set xs. P x" for P and xs :: "string list" using that by (simp add: filter_id_conv)
  have nil: "filter P xs = []" if "\<forall>x \<in> set xs. \<not> P x" for P and xs :: "string list" using that by (simp add: filter_empty_conv)
  have m: "filter (\<lambda>m. \<not> under (sx_dev t) m) (sw_mounts u) = ms"
    using assms(7-9) by (simp add: ids nil)
  have d: "filter (\<lambda>x. \<not> under (sx_tmpPath t) x) (filter (\<lambda>x. \<not> under (sx_dev t) x) (sw_dirs u)) = ds @ ks @ ls" if "sx_tmpPath t \<noteq> []"
    unfolding filter_filter assms(5) using assms(6,9) that by (simp add: ids nil)
  have d0: "filter (\<lambda>x. \<not> under (sx_dev t) x) (sw_dirs u) = ds @ ks @ ls" if "sx_tmpPath t = []"
  proof -
    have "own = []" using assms(6) that by (cases own) auto
    then show ?thesis using assms(5,9) by (simp add: ids)
  qed
  have mm: "\<forall>m \<in> set ms. \<not> under (sx_dev t) m" "sx_tmpPath t \<noteq> [] \<Longrightarrow> \<forall>m \<in> set ms. \<not> under (sx_tmpPath t) m" using assms(9) by auto
  let ?u = "umount_below (sx_dev t) (u\<lparr>sw_run := run\<rparr>)" and ?ds = "filter (\<lambda>x. \<not> under (sx_dev t) x) (sw_dirs u)"
  have r1: "remove_dir E (sx_dev t) ?u = u\<lparr>sw_run := run, sw_mounts := ms, sw_dirs := ?ds\<rparr>"
    using m mm(1) assms(3) by (simp add: remove_dir_def umount_below_def)
  note step = assms(1) [unfolded Sandbox_Close_def st Let_def prod.case]
  show ?thesis
  proof (cases "sx_tmpPath t = []")
    case True
    with step assms(2,4) r1 have "u' = u\<lparr>sw_run := run, sw_mounts := ms, sw_dirs := ?ds\<rparr>" "sx_apis t' = apis" by auto
    with d0 [OF True] kp show ?thesis by simp
  next
    case False
    then have "remove_dir E (sx_tmpPath t) (u\<lparr>sw_run := run, sw_mounts := ms, sw_dirs := ?ds\<rparr>)
        = u\<lparr>sw_run := run, sw_mounts := ms, sw_dirs := ds @ ks @ ls\<rparr>"
      using mm(2) d assms(3) by (simp add: remove_dir_def)
    with step assms(2,4) r1 False have "u' = u\<lparr>sw_run := run, sw_mounts := ms, sw_dirs := ds @ ks @ ls\<rparr>" "sx_apis t' = apis" by auto
    with kp show ?thesis by simp
  qed
qed

text \<open>
  The paths of new directories are clean, and nothing in the world is at or below them, nor is a
  directory they are made in; the servers have not been started.
\<close>

definition new_dir :: "string list \<Rightarrow> string \<Rightarrow> bool" where
  "new_dir used d \<longleftrightarrow> clean_path d \<and> (\<forall>x \<in> set used. \<not> under d x)"

definition fresh_names :: "sbenv \<Rightarrow> sandbox \<Rightarrow> sbworld \<Rightarrow> bool" where
  "fresh_names E s w \<longleftrightarrow>
     (let used = sw_dirs w @ sw_mounts w @ dirs_to run_dir @ dirs_to (sx_varDir s) in
      (\<forall>x. sb_MkdirDev E = Some x \<longrightarrow> new_dir used (run_dir @ ''/osbuild-dev-'' @ x))
      \<and> (\<forall>x. sb_MkdirTmp E = Some x \<longrightarrow> new_dir used (sx_varDir s @ ''/osbuild-tmp-'' @ x)))
     \<and> sx_dev s = [] \<and> sx_tmpPath s = [] \<and> (\<forall>srv \<in> set (sx_apis s). sv_SocketAddress srv = [] \<and> sv_socketDir srv = [])
     \<and> (\<forall>n. sn_MkdirTemp (sb_server E n) \<noteq> Inr [])"

text \<open>
  What is left of the sandbox \<open>s\<close> in a world: directories on the way to where its own are made, the
  mounts there were, and the directories of its servers' sockets.
\<close>

definition leaves :: "sandbox \<Rightarrow> sbworld \<Rightarrow> sandbox \<Rightarrow> sbworld \<Rightarrow> bool" where
  "leaves s w s' w' \<longleftrightarrow>
     (\<exists>kept. sw_dirs w' = sw_dirs w @ kept \<and> set kept \<subseteq> set (dirs_to run_dir) \<union> set (dirs_to (sx_varDir s)))
     \<and> sw_mounts w' = sw_mounts w
     \<and> rd_dirs (sw_run w') = rd_dirs (sw_run w) @ socket_dirs (sx_apis s')
     \<and> map sv_Endpoint (sx_apis s') = map sv_Endpoint (sx_apis s)"

lemma Close_leaves:
  assumes "Sandbox_Close E t u = (t', u')" "sb_ok E UmountDev" "\<And>d. sb_ok E (RemoveTree d)"
    and used: "used = sw_dirs w @ sw_mounts w @ dirs_to run_dir @ dirs_to (sx_varDir s)"
    and "new_dir used (sx_dev t)" "sx_tmpPath t = [] \<or> new_dir used (sx_tmpPath t)"
    and "sw_dirs u = sw_dirs w @ ks @ [sx_dev t] @ ls @ own" "\<forall>x \<in> set own. sx_tmpPath t \<noteq> [] \<and> under (sx_tmpPath t) x"
    and "set ks \<subseteq> set (dirs_to run_dir)" "set ls \<subseteq> set (dirs_to (sx_varDir s))"
    and "sw_mounts u = sw_mounts w @ bound" "\<forall>m \<in> set bound. under (sx_dev t) m"
    and "rd_dirs (sw_run u) = rd_dirs (sw_run w) @ socket_dirs (sx_apis t)"
      "map sv_Endpoint (sx_apis t) = map sv_Endpoint (sx_apis s)"
  shows "leaves s w t' u' \<and> sw_dirs u' = sw_dirs w @ ks @ ls \<and> map sv_socketDir (sx_apis t') = map sv_socketDir (sx_apis t)"
proof -
  have "sx_dev t \<noteq> []" using assms(5) by (auto simp: new_dir_def clean_path_def abs_path_def)
  moreover have "\<forall>x \<in> set (sw_dirs w) \<union> set ks \<union> set ls \<union> set (sw_mounts w).
      \<not> under (sx_dev t) x \<and> (sx_tmpPath t \<noteq> [] \<longrightarrow> \<not> under (sx_tmpPath t) x)"
  proof -
    have "set (sw_dirs w) \<union> set ks \<union> set ls \<union> set (sw_mounts w) \<subseteq> set used" using assms(9,10) used by auto
    then show ?thesis using assms(5,6) by (auto simp: new_dir_def)
  qed
  ultimately have "sw_dirs u' = sw_dirs w @ ks @ ls \<and> sw_mounts u' = sw_mounts w \<and> rd_dirs (sw_run u') = rd_dirs (sw_run u)
    \<and> map sv_socketDir (sx_apis t') = map sv_socketDir (sx_apis t) \<and> map sv_Endpoint (sx_apis t') = map sv_Endpoint (sx_apis t)"
    using Close_removes [OF assms(1,2,3) _ assms(7,8,11,12)] by blast
  with assms(9,10,13,14) show ?thesis by (auto simp: leaves_def socket_dirs_def)
qed

text \<open>Once both directories are there: the servers start, or some do and everything is closed.\<close>

lemma Servers_leave:
  assumes "start_servers (sb_server E) (sx_apis s) (sw_run w) = ((apis, run), q)" "sb_ok E UmountDev" "\<And>d. sb_ok E (RemoveTree d)"
    and used: "used = sw_dirs w @ sw_mounts w @ dirs_to run_dir @ dirs_to (sx_varDir s)"
    and "\<forall>srv \<in> set (sx_apis s). sv_SocketAddress srv = [] \<and> sv_socketDir srv = []"
      "\<And>n. sn_MkdirTemp (sb_server E n) \<noteq> Inr []"
    and "sx_dev t = dev" "new_dir used dev" "sx_tmpPath t = tmp" "new_dir used tmp" "sx_apis t = apis" "sw_run u = run"
    and "sw_dirs u = sw_dirs w @ ks @ [dev] @ ls @ own" "\<forall>x \<in> set own. under tmp x"
    and "set ks \<subseteq> set (dirs_to run_dir)" "set ls \<subseteq> set (dirs_to (sx_varDir s))"
    and "sw_mounts u = sw_mounts w @ bound" "\<forall>m \<in> set bound. under dev m"
    and "Sandbox_Close E t u = (t', u')"
  shows "leaves s w t' u' \<and> sw_dirs u' = sw_dirs w @ ks @ ls \<and> (q = None \<longrightarrow> (\<forall>srv \<in> set (sx_apis t'). sv_socketDir srv \<noteq> []))"
proof -
  note st = start_servers_dirs [OF assms(1,5,6)]
  have "tmp \<noteq> []" using assms(10) by (auto simp: new_dir_def clean_path_def abs_path_def)
  then have "leaves s w t' u' \<and> sw_dirs u' = sw_dirs w @ ks @ ls \<and> map sv_socketDir (sx_apis t') = map sv_socketDir (sx_apis t)"
    using Close_leaves [OF assms(19,2,3) used, of ks ls own bound] assms(7-18) st by auto
  moreover have "(\<forall>srv \<in> set xs. sv_socketDir srv \<noteq> []) = ([] \<notin> set (map sv_socketDir xs))" for xs by force
  ultimately show ?thesis using st assms(11) by metis
qed

text \<open>C35: When the unmount and the removals work, opening a sandbox and closing it, or failing to open it at
  any point, leaves no mount and no directory of its own: not its device directory, nor the nodes
  bound there, nor its temporary directory. What it leaves are \<^verbatim>\<open>/run/osbuild\<close> and the directory of the
  temporary ones with their parents, where they were missing, and the directory of the socket of every
  server it started, because closing a sandbox stops its servers and does not clean them up: each
  server of a sandbox that opened leaves one.\<close>

theorem Sandbox_leaves_sockets:
  assumes "Sandbox_Open E s w = ((s1, w1), r)" "sb_ok E UmountDev" "\<And>d. sb_ok E (RemoveTree d)" "fresh_names E s w"
    and "(s2, w2) = (if r = None then Sandbox_Close E s1 w1 else (s1, w1))"
  shows "leaves s w s2 w2
    \<and> (r = None \<longrightarrow> {run_dir, sx_varDir s} \<subseteq> set (sw_dirs w2) \<and> (\<forall>srv \<in> set (sx_apis s2). sv_socketDir srv \<noteq> []))"
proof -
  define used where "used = sw_dirs w @ sw_mounts w @ dirs_to run_dir @ dirs_to (sx_varDir s)"
  have fr: "sx_dev s = []" "sx_tmpPath s = []" "\<forall>srv \<in> set (sx_apis s). sv_SocketAddress srv = [] \<and> sv_socketDir srv = []"
    "\<And>n. sn_MkdirTemp (sb_server E n) \<noteq> Inr []" using assms(4) by (auto simp: fresh_names_def)
  have new: "sb_MkdirDev E = Some x \<Longrightarrow> new_dir used (run_dir @ ''/osbuild-dev-'' @ x)"
    "sb_MkdirTmp E = Some x \<Longrightarrow> new_dir used (sx_varDir s @ ''/osbuild-tmp-'' @ x)" for x
    using assms(4) by (auto simp: fresh_names_def Let_def used_def)
  have none: "socket_dirs (sx_apis s) = []" using fr(3) by (auto simp: socket_dirs_def filter_empty_conv)
  obtain ks where k: "MkdirAll E run_dir w = w\<lparr>sw_dirs := sw_dirs w @ ks\<rparr>" "set ks \<subseteq> set (dirs_to run_dir)"
    using MkdirAll_adds by blast
  let ?w0 = "w\<lparr>sw_dirs := sw_dirs w @ ks\<rparr>"
  note open_s = assms(1) [unfolded Sandbox_Open_def Let_def k(1)]
  show ?thesis
  proof (cases "MkdirTemp run_dir ''osbuild-dev-'' (sb_MkdirDev E) ?w0")
    case None
    with open_s have "s1 = s" "w1 = ?w0" "r \<noteq> None" by auto
    with assms(5) none k(2) show ?thesis by (auto simp: leaves_def)
  next
    case dev: (Some dev)
    then have run: "run_dir \<in> set (sw_dirs ?w0)" "new_dir used dev"
      using new(1) by (auto simp: MkdirTemp_def split: if_splits)
    let ?s1 = "s\<lparr>sx_dev := dev\<rparr>" and ?w1 = "?w0\<lparr>sw_dirs := sw_dirs ?w0 @ [dev]\<rparr>"
    have cp: "clean_path dev" using run(2) by (simp add: new_dir_def)
    show ?thesis
    proof (cases "sb_ok E MountDev")
      case False
      with open_s dev have r: "s1 = ?s1" "w1 = remove_dir E dev ?w1" "r \<noteq> None" by auto
      have "\<forall>x \<in> set (sw_dirs w @ ks @ sw_mounts w). \<not> under dev x" using run(2) k(2) by (auto simp: new_dir_def used_def)
      then have "w1 = ?w0" unfolding r(2) remove_dir_def using assms(3) by (simp add: filter_id_conv)
      with r(1,3) assms(5) none k(2) show ?thesis by (auto simp: leaves_def)
    next
      case mounted: True
      let ?wm = "?w1\<lparr>sw_mounts := sw_mounts ?w1 @ [dev]\<rparr>"
      obtain wb q where b: "bind_devs E dev dev_nodes ?wm = (wb, q)" by fastforce
      obtain ms where ms: "wb = ?wm\<lparr>sw_mounts := sw_mounts ?wm @ ms\<rparr>" "\<forall>m \<in> set ms. under dev m"
        using bind_devs_under [OF cp _ b] plain_nodes by auto
      note close = Close_leaves [OF _ assms(2,3) used_def]
      note open_b = open_s [unfolded dev option.case b]
      have early: ?thesis if "Sandbox_Close E ?s1 u = (s1, w1)" "r \<noteq> None"
        "u = wb\<lparr>sw_dirs := sw_dirs wb @ ls\<rparr>" "set ls \<subseteq> set (dirs_to (sx_varDir s))" for u ls
        using close [OF that(1), of ks ls "[]" "dev # ms"] that(2-4) assms(5) run(2) fr(2) k(2) ms none by auto
      show ?thesis
      proof (cases q)
        case (Some e)
        with open_b mounted have "Sandbox_Close E ?s1 wb = (s1, w1)" "r \<noteq> None" by auto
        then show ?thesis using early [of wb "[]"] by simp
      next
        case q: None
        obtain ls where l: "MkdirAll E (sx_varDir s) wb = wb\<lparr>sw_dirs := sw_dirs wb @ ls\<rparr>" "set ls \<subseteq> set (dirs_to (sx_varDir s))"
          using MkdirAll_adds by blast
        let ?w3 = "wb\<lparr>sw_dirs := sw_dirs wb @ ls\<rparr>"
        show ?thesis
        proof (cases "MkdirTemp (sx_varDir s) ''osbuild-tmp-'' (sb_MkdirTmp E) ?w3")
          case None
          with open_b mounted q l(1) have "Sandbox_Close E ?s1 ?w3 = (s1, w1)" "r \<noteq> None" by auto
          then show ?thesis using early [of ?w3 ls] l(2) by simp
        next
          case (Some tmp)
          then have tmp: "new_dir used tmp" "sx_varDir s \<in> set (sw_dirs ?w3)"
            using new(2) by (auto simp: MkdirTemp_def split: if_splits)
          let ?w4 = "?w3\<lparr>sw_dirs := sw_dirs ?w3 @ [tmp]\<rparr>"
            and ?s2 = "?s1\<lparr>sx_tmpPath := tmp, sx_varPath := path_Join [tmp, ''var''], sx_procDir := path_Join [tmp, ''proc'']\<rparr>"
          obtain own where own: "MkdirAll E (path_Join [tmp, ''proc''])
              (MkdirAll E (path_Join [path_Join [tmp, ''var''], ''tmp'']) (MkdirAll E (path_Join [tmp, ''var'']) ?w4))
              = ?w4\<lparr>sw_dirs := sw_dirs ?w4 @ own\<rparr>" "\<forall>x \<in> set own. under tmp x"
            using make_private [of tmp ?w4 E] tmp(1) by (auto simp: new_dir_def)
          let ?w6 = "?w4\<lparr>sw_dirs := sw_dirs ?w4 @ own\<rparr>"
          obtain apis run p where ss: "start_servers (sb_server E) (sx_apis s) (sw_run w) = ((apis, run), p)" by (metis prod.exhaust)
          let ?t = "?s2\<lparr>sx_apis := apis\<rparr>" and ?u = "?w6\<lparr>sw_run := run\<rparr>"
          obtain t' u' where c: "Sandbox_Close E ?t ?u = (t', u')" by fastforce
          have shut: "leaves s w t' u' \<and> sw_dirs u' = sw_dirs w @ ks @ ls \<and> (p = None \<longrightarrow> (\<forall>srv \<in> set (sx_apis t'). sv_socketDir srv \<noteq> []))"
            by (rule Servers_leave [OF ss assms(2,3) used_def fr(3,4) _ run(2) _ tmp(1) _ _ _ _ k(2) l(2) _ _ c,
                  where own = "tmp # own" and bound = "dev # ms"])
              (use own(2) ms in auto)
          have dirs: "sx_varDir s \<in> set (sw_dirs w @ ks @ ls)"
          proof -
            have "under dev dev" by simp
            then have "sx_varDir s \<noteq> dev" using run(2) by (auto simp: new_dir_def used_def dirs_to_def)
            with tmp(2) ms(1) show ?thesis by auto
          qed
          have "((s1, w1), r) = (case p of None \<Rightarrow> ((?t, ?u), None) | Some e \<Rightarrow> (Sandbox_Close E ?t ?u, Some e))"
            using open_b mounted q l(1) Some own(1) ss ms(1) by (auto split: option.splits)
          then have "(s2, w2) = (t', u') \<and> (r = None) = (p = None)"
            using assms(5) c by (auto split: option.splits if_splits)
          with shut dirs run(1) show ?thesis by auto
        qed
      qed
    qed
  qed
qed

definition demo_sbenv :: sbenv where
  "demo_sbenv = \<lparr>sb_ok = (\<lambda>_. True), sb_MkdirDev = Some ''1'', sb_MkdirTmp = Some ''2'',
     sb_server = (\<lambda>n. \<lparr>sn_MkdirTemp = Inr (''/run/osbuild/api-'' @ n), sn_Listen = None, sn_Backlog = None\<rparr>)\<rparr>"

definition demo_sandbox :: sandbox where
  "demo_sandbox = RegisterAPI (NewServer ''osbuild'') (New_sandbox ''/'' ''/runner'' ''/lib'' ''/var'')"

definition demo_sbworld :: sbworld where
  "demo_sbworld = \<lparr>sw_dirs = [''/run'', ''/var''], sw_mounts = [], sw_run = \<lparr>rd_dirs = [], rd_sockets = []\<rparr>\<rparr>"

lemma demo_dirs_to: "dirs_to run_dir = [''/run/osbuild'', ''/run'']" "dirs_to ''/var'' = [''/var'']"
  by (simp_all add: dirs_to_def run_dir_def upt_rec)

lemma demo_sandbox_opens: "\<exists>s1 w1. Sandbox_Open demo_sbenv demo_sandbox demo_sbworld = ((s1, w1), None)"
  by (simp add: Sandbox_Open_def demo_sbenv_def demo_sandbox_def demo_sbworld_def RegisterAPI_def New_sandbox_def NewServer_def
      dev_nodes_def bindDev_def Server_Start_def Server_listen_def Let_def MkdirAll_def MkdirTemp_def demo_dirs_to run_dir_def [symmetric])

lemma demo_fresh_names: "fresh_names demo_sbenv demo_sandbox demo_sbworld"
proof -
  have "clean_path ''/run/osbuild/osbuild-dev-1''"
    by (auto simp: clean_path_def abs_path_def plain_def intro!: exI [of _ "[''run'', ''osbuild'', ''osbuild-dev-1'']"])
  moreover have "clean_path ''/var/osbuild-tmp-2''"
    by (auto simp: clean_path_def abs_path_def plain_def intro!: exI [of _ "[''var'', ''osbuild-tmp-2'']"])
  ultimately show ?thesis
    by (simp add: fresh_names_def demo_sbenv_def demo_sandbox_def demo_sbworld_def RegisterAPI_def New_sandbox_def NewServer_def
        Let_def new_dir_def demo_dirs_to)
      (simp add: run_dir_def under_def HasPrefix_def)
qed

theorem Sandbox_leaves_sockets_witness:
  "\<exists>s1 w1 s2 w2. Sandbox_Open demo_sbenv demo_sandbox demo_sbworld = ((s1, w1), None)
     \<and> Sandbox_Close demo_sbenv s1 w1 = (s2, w2) \<and> leaves demo_sandbox demo_sbworld s2 w2
     \<and> ''/run/osbuild'' \<in> set (sw_dirs w2) \<and> length (rd_dirs (sw_run w2)) = 1"
proof -
  obtain s1 w1 where o: "Sandbox_Open demo_sbenv demo_sandbox demo_sbworld = ((s1, w1), None)" using demo_sandbox_opens by blast
  obtain s2 w2 where c: "Sandbox_Close demo_sbenv s1 w1 = (s2, w2)" by fastforce
  have ok: "sb_ok demo_sbenv d" for d by (simp add: demo_sbenv_def)
  have l: "leaves demo_sandbox demo_sbworld s2 w2" "''/run/osbuild'' \<in> set (sw_dirs w2)" "\<forall>srv \<in> set (sx_apis s2). sv_socketDir srv \<noteq> []"
    using Sandbox_leaves_sockets [OF o ok ok demo_fresh_names, of s2 w2] c by (simp_all add: run_dir_def)
  then have "map sv_Endpoint (sx_apis s2) = [''osbuild'']" "rd_dirs (sw_run w2) = socket_dirs (sx_apis s2)"
    by (simp_all add: leaves_def demo_sandbox_def demo_sbworld_def RegisterAPI_def New_sandbox_def NewServer_def)
  with l(3) have "length (rd_dirs (sw_run w2)) = 1" by (cases "sx_apis s2") (auto simp: socket_dirs_def)
  with o c l(1,2) show ?thesis by blast
qed

end
