(* ===== verification/StageRun.thy ===== *)
theory StageRun
  imports Build Sandbox Paths
begin

text \<open>
  \<^verbatim>\<open>build/device.go\<close>, \<^verbatim>\<open>build/input.go\<close>, \<^verbatim>\<open>build/mount.go\<close> and \<^verbatim>\<open>build/stage.go\<close>: how one stage is run. Inputs,
  devices and mounts are set up by service processes: \<open>svc uid exec method args\<close> starts one and
  calls it, and gives its reply or the error of either. \<open>RunStage\<close> records what it does to the
  outside, in order and with what came of it, down to the deferred calls that take everything down
  again.
\<close>

type_synonym svc = "string \<Rightarrow> string \<Rightarrow> string \<Rightarrow> gobject \<Rightarrow> string + gval"

datatype stage_error = ServiceFailed string string | UnexpectedReply string | WrongPrefix string string
  | NotRelative string | TmpDirFailed string | SandboxFailed string | MarshalFailed string | WriteFailed string
  | RunFailed string

section \<open>Devices\<close>

record device_manager =
  dm_DevPath :: string
  dm_TreePath :: string
  dm_devices :: "(string, gobject) gmap"

definition NewDeviceManager :: "string \<Rightarrow> string \<Rightarrow> device_manager" where
  "NewDeviceManager devPath treePath = \<lparr>dm_DevPath = devPath, dm_TreePath = treePath, dm_devices = []\<rparr>"

definition RelPath :: "device_manager \<Rightarrow> device option \<Rightarrow> string" where
  "RelPath m dev =
     (case dev of
        None \<Rightarrow> []
      | Some d \<Rightarrow> (case map_of (dm_devices m) (dev_Name d) of None \<Rightarrow> [] | Some res \<Rightarrow> get_string0 res ''path''))"

definition AbsPath :: "device_manager \<Rightarrow> device option \<Rightarrow> string" where
  "AbsPath m dev = (if RelPath m dev = [] then [] else path_Join [dm_DevPath m, RelPath m dev])"

definition device_args :: "device_manager \<Rightarrow> device \<Rightarrow> gobject" where
  "device_args m dev =
     [(''dev'', GString (dm_DevPath m)), (''tree'', GString (dm_TreePath m)),
      (''parent'', GString (RelPath m (dev_Parent dev))), (''options'', GMap (dev_Options dev))]"

definition Device_Open :: "svc \<Rightarrow> device \<Rightarrow> device_manager \<Rightarrow> device_manager \<times> (stage_error + gobject)" where
  "Device_Open svc dev m =
     (case svc (''device/'' @ dev_Name dev) (dev_ExecPath dev) ''open'' (device_args m dev) of
        Inl e \<Rightarrow> (m, Inl (ServiceFailed (dev_Name dev) e))
      | Inr (GMap res) \<Rightarrow> (m\<lparr>dm_devices := gset (dev_Name dev) res (dm_devices m)\<rparr>, Inr res)
      | Inr _ \<Rightarrow> (m, Inl (UnexpectedReply (dev_Name dev))))"

section \<open>Inputs\<close>

definition input_args :: "string \<Rightarrow> string \<Rightarrow> minput \<Rightarrow> gobject" where
  "input_args store_addr inputs_root ip =
     [(''origin'', GString (in_Origin ip)), (''refs'', GMap (in_Refs ip)),
      (''target'', GString (path_Join [inputs_root, in_Name ip])), (''options'', GMap (in_Options ip)),
      (''api'', GMap [(''store'', GString store_addr)])]"

text \<open>A path in the reply must start with the characters of the root, and is made relative to it.\<close>

definition Input_Map :: "svc \<Rightarrow> string \<Rightarrow> string \<Rightarrow> minput \<Rightarrow> stage_error + gobject" where
  "Input_Map svc store_addr inputs_root ip =
     (case svc (''input/'' @ in_Name ip) (in_ExecPath ip) ''map'' (input_args store_addr inputs_root ip) of
        Inl e \<Rightarrow> Inl (ServiceFailed (in_Name ip) e)
      | Inr (GMap reply) \<Rightarrow>
          (case get_string reply ''path'' of
             None \<Rightarrow> Inr reply
           | Some path \<Rightarrow>
               if \<not> HasPrefix path inputs_root then Inl (WrongPrefix (in_Name ip) path)
               else (case Rel inputs_root path of
                       None \<Rightarrow> Inl (NotRelative (in_Name ip))
                     | Some rel \<Rightarrow> Inr (gset ''path'' (GString rel) reply)))
      | Inr _ \<Rightarrow> Inl (UnexpectedReply (in_Name ip)))"

section \<open>Mounts\<close>

text \<open>\<open>host_dev p\<close> is whether \<^verbatim>\<open>/dev/p\<close> exists on the host.\<close>

definition mount_source :: "(string \<Rightarrow> bool) \<Rightarrow> device_manager \<Rightarrow> mount \<Rightarrow> string" where
  "mount_source host_dev m mnt =
     (let relpath = RelPath m (mnt_Device mnt); hostDevPath = path_Join [''/dev'', relpath];
          source = (if relpath \<noteq> [] \<and> host_dev hostDevPath then hostDevPath else AbsPath m (mnt_Device mnt)) in
      case mnt_Partition mnt of
        None \<Rightarrow> source
      | Some p \<Rightarrow> if source \<noteq> [] then source @ ''p'' @ Itoa p else source)"

definition mount_args :: "(string \<Rightarrow> bool) \<Rightarrow> string \<Rightarrow> device_manager \<Rightarrow> mount \<Rightarrow> gobject" where
  "mount_args host_dev mounts_root m mnt =
     [(''source'', GString (mount_source host_dev m mnt)), (''target'', GString (mnt_Target mnt)),
      (''root'', GString mounts_root), (''tree'', GString (dm_TreePath m)), (''options'', GMap (mnt_Options mnt))]"

definition Mount_Mount :: "svc \<Rightarrow> (string \<Rightarrow> bool) \<Rightarrow> string \<Rightarrow> device_manager \<Rightarrow> mount \<Rightarrow> stage_error + gobject" where
  "Mount_Mount svc host_dev mounts_root m mnt =
     (case svc (''mount/'' @ mnt_Name mnt) (mnt_ExecPath mnt) ''mount'' (mount_args host_dev mounts_root m mnt) of
        Inl e \<Rightarrow> Inl (ServiceFailed (mnt_Name mnt) e)
      | Inr (GMap reply) \<Rightarrow> Inr reply
      | Inr (GString path) \<Rightarrow>
          if path = [] then Inr []
          else if \<not> HasPrefix path mounts_root then Inl (WrongPrefix (mnt_Name mnt) path)
          else (case Rel mounts_root path of
                  None \<Rightarrow> Inl (NotRelative (mnt_Name mnt))
                | Some rel \<Rightarrow> Inr [(''path'', GString rel)])
      | Inr _ \<Rightarrow> Inr [])"

section \<open>The arguments of a stage\<close>

definition stage_args :: "golib \<Rightarrow> stage \<Rightarrow> gobject \<Rightarrow> gobject \<Rightarrow> gobject \<Rightarrow> gobject" where
  "stage_args L stage devices inputs mounts =
     [(''tree'', GString ''/run/osbuild/tree''),
      (''paths'', GMap [(''devices'', GString ''/dev''), (''inputs'', GString ''/run/osbuild/inputs''),
                        (''mounts'', GString ''/run/osbuild/mounts'')]),
      (''devices'', GMap devices), (''inputs'', GMap inputs), (''mounts'', GMap mounts),
      (''options'', GMap (st_Options stage)),
      (''meta'', GMap ([(''id'', GString (Stage_ID L stage))]
         @ (case st_SourceEpoch stage of None \<Rightarrow> [] | Some e \<Rightarrow> [(''source-epoch'', GInt e)])))]"

definition reroot_item :: "string \<Rightarrow> gval \<Rightarrow> gval" where
  "reroot_item rootStr item =
     (case item of
        GMap m \<Rightarrow>
          (case get_string m ''path'' of
             None \<Rightarrow> item
           | Some path \<Rightarrow> if path = [] then item else GMap (gset ''path'' (GString (path_Join [rootStr, path])) m))
      | _ \<Rightarrow> item)"

definition reroot_group :: "string \<times> gval \<Rightarrow> gobject \<Rightarrow> gobject" where
  "reroot_group = (\<lambda>(name, v) args.
     case v of
       GString rootStr \<Rightarrow>
         (case get_map args name of
            None \<Rightarrow> args
          | Some grp \<Rightarrow> gset name (GMap (map (\<lambda>(k, item). (k, reroot_item rootStr item)) grp)) args)
     | _ \<Rightarrow> args)"

definition reroot :: "gobject \<Rightarrow> gobject" where
  "reroot args = (case get_map args ''paths'' of None \<Rightarrow> args | Some paths \<Rightarrow> fold reroot_group paths args)"

section \<open>RunStage\<close>

text \<open>
  The calls of services and the run of the stage carry their outcome: the reply or the error that
  comes back to \<open>RunStage\<close>.
\<close>

datatype sevent = MadeTmp | OpenedSandbox
  | MappedInput string gobject "stage_error + gobject"
  | OpenedDevice string gobject "stage_error + gobject"
  | MountedFS string gobject "stage_error + gobject"
  | WroteArgs string | RanStage "string list" "string list" run_options "string option"
  | StoppedServices | ClosedSandbox | FreedLoops | UndidBinds | RemovedTmp

record run_env =
  rn_svc :: svc
  rn_host_dev :: "string \<Rightarrow> bool"
  rn_timeout :: "int option"
  rn_tmpDir :: "string + string"
  rn_sandbox :: "string option"
  rn_store_addr :: string
  rn_devPath :: string
  rn_marshal :: "gobject \<Rightarrow> string + string"
  rn_write :: "string option"
  rn_run :: "string option \<times> int \<times> string"
  rn_Error :: "gobject option"

text \<open>The three loops: what was done, and the replies or the first error.\<close>

fun map_inputs :: "run_env \<Rightarrow> string \<Rightarrow> (string \<times> minput) list \<Rightarrow> gobject \<Rightarrow> sevent list \<times> (stage_error + gobject)" where
  "map_inputs E dir [] inputs = ([], Inr inputs)"
| "map_inputs E dir ((key, ip) # ips) inputs =
     (let res = Input_Map (rn_svc E) (rn_store_addr E) dir ip;
          ev = MappedInput (in_Name ip) (input_args (rn_store_addr E) dir ip) res in
      case res of
        Inl e \<Rightarrow> ([ev], Inl e)
      | Inr reply \<Rightarrow> (case map_inputs E dir ips (gset key (GMap reply) inputs) of (evs, r) \<Rightarrow> (ev # evs, r)))"

fun open_devices ::
    "run_env \<Rightarrow> (string \<times> device) list \<Rightarrow> device_manager \<Rightarrow> gobject \<Rightarrow> sevent list \<times> device_manager \<times> (stage_error + gobject)" where
  "open_devices E [] m devices = ([], m, Inr devices)"
| "open_devices E ((name, dev) # devs) m devices =
     (let (m1, res) = Device_Open (rn_svc E) dev m;
          ev = OpenedDevice (dev_Name dev) (device_args m dev) res in
      case res of
        Inl e \<Rightarrow> ([ev], m1, Inl e)
      | Inr reply \<Rightarrow> (case open_devices E devs m1 (gset name (GMap reply) devices) of (evs, r) \<Rightarrow> (ev # evs, r)))"

fun do_mounts ::
    "run_env \<Rightarrow> string \<Rightarrow> device_manager \<Rightarrow> (string \<times> mount) list \<Rightarrow> gobject \<Rightarrow> sevent list \<times> (stage_error + gobject)" where
  "do_mounts E dir m [] mounts = ([], Inr mounts)"
| "do_mounts E dir m ((key, mnt) # ms) mounts =
     (let res = Mount_Mount (rn_svc E) (rn_host_dev E) dir m mnt;
          ev = MountedFS (mnt_Name mnt) (mount_args (rn_host_dev E) dir m mnt) res in
      case res of
        Inl e \<Rightarrow> ([ev], Inl e)
      | Inr reply \<Rightarrow> (case do_mounts E dir m ms (gset key (GMap reply) mounts) of (evs, r) \<Rightarrow> (ev # evs, r)))"

definition stage_run_options :: "stage \<Rightarrow> int option \<Rightarrow> string \<Rightarrow> string \<Rightarrow> string \<Rightarrow> run_options" where
  "stage_run_options stage timeout tmpDir treePath metaName =
     \<lparr>ro_Binds = [treePath @ '':/run/osbuild/tree'', metaName @ '':/run/osbuild/meta'',
                  path_Join [tmpDir, ''mounts''] @ '':/run/osbuild/mounts''],
      ro_ReadonlyBinds = [st_ExecPath stage @ '':/run/osbuild/bin/'' @ Stage_Name stage,
                  path_Join [tmpDir, ''inputs''] @ '':/run/osbuild/inputs'',
                  path_Join [path_Join [tmpDir, ''api''], ''arguments''] @ '':/run/osbuild/api/arguments''],
      ro_ExtraEnv = (case st_SourceEpoch stage of None \<Rightarrow> [] | Some e \<Rightarrow> [(''SOURCE_DATE_EPOCH'', Itoa e)]),
      ro_Timeout = timeout\<rparr>"

definition stage_caps :: "stage \<Rightarrow> string list" where
  "stage_caps stage = DefaultCaps @ filter (\<lambda>c. c \<notin> set DefaultCaps) (remdups (st_Caps stage))"

text \<open>The body, once the sandbox is open.\<close>

definition run_in :: "run_env \<Rightarrow> golib \<Rightarrow> stage \<Rightarrow> string \<Rightarrow> string \<Rightarrow> string \<Rightarrow> sevent list \<times> (stage_error + build_result)" where
  "run_in E L stage tmpDir treePath metaName =
     (case map_inputs E (path_Join [tmpDir, ''inputs'']) (om_items (st_Inputs stage)) [] of
        (ev1, Inl e) \<Rightarrow> (ev1, Inl e)
      | (ev1, Inr inputs) \<Rightarrow>
        (case open_devices E (om_items (st_Devices stage)) (NewDeviceManager (rn_devPath E) treePath) [] of
           (ev2, m, Inl e) \<Rightarrow> (ev1 @ ev2, Inl e)
         | (ev2, m, Inr devices) \<Rightarrow>
           (case do_mounts E (path_Join [tmpDir, ''mounts'']) m (om_items (st_Mounts stage)) [] of
              (ev3, Inl e) \<Rightarrow> (ev1 @ ev2 @ ev3, Inl e)
            | (ev3, Inr mounts) \<Rightarrow>
              (case rn_marshal E (reroot (stage_args L stage devices inputs mounts)) of
                 Inl e \<Rightarrow> (ev1 @ ev2 @ ev3, Inl (MarshalFailed e))
               | Inr argsJSON \<Rightarrow>
                 (case rn_write E of
                    Some e \<Rightarrow> (ev1 @ ev2 @ ev3, Inl (WriteFailed e))
                  | None \<Rightarrow>
                    (let evs = (\<lambda>err. ev1 @ ev2 @ ev3 @ [WroteArgs argsJSON,
                           RanStage (stage_caps stage) [''/run/osbuild/bin/'' @ Stage_Name stage]
                             (stage_run_options stage (rn_timeout E) tmpDir treePath metaName) err]) in
                     case rn_run E of
                       (Some e, rc, output) \<Rightarrow> (evs (Some e), Inl (RunFailed e))
                     | (None, rc, output) \<Rightarrow>
                         (evs None, Inr \<lparr>br_Stage = stage, br_ReturnCode = rc, br_Output = output, br_Error = rn_Error E\<rparr>)))))))"

text \<open>A deferred call is made when the rest of the function is done, whatever that returned.\<close>

definition deferred :: "sevent \<Rightarrow> sevent list \<times> 'r \<Rightarrow> sevent list \<times> 'r" where
  "deferred ev body = (fst body @ [ev], snd body)"

text \<open>
  The deferred calls in the order of their \<^verbatim>\<open>defer\<close> statements: the temporary directory, the bind
  mounts of the store service and the loop devices, and, once the sandbox is open, the sandbox and
  the services.
\<close>

definition RunStage :: "run_env \<Rightarrow> golib \<Rightarrow> stage \<Rightarrow> string \<Rightarrow> string \<Rightarrow> sevent list \<times> (stage_error + build_result)" where
  "RunStage E L stage treePath metaName =
     (case rn_tmpDir E of
        Inl e \<Rightarrow> ([], Inl (TmpDirFailed e))
      | Inr tmpDir \<Rightarrow>
          deferred RemovedTmp (deferred UndidBinds (deferred FreedLoops
            (case rn_sandbox E of
               Some e \<Rightarrow> ([MadeTmp], Inl (SandboxFailed e))
             | None \<Rightarrow>
                 deferred ClosedSandbox (deferred StoppedServices
                   (case run_in E L stage tmpDir treePath metaName of
                      (evs, r) \<Rightarrow> ([MadeTmp, OpenedSandbox] @ evs, r)))))))"

end
