(* ===== verification/StageFacts.thy ===== *)
theory StageFacts
  imports StageRun Depsolve
begin

text \<open>
  Running a stage: everything set up is taken down again in reverse, on every path; a device is
  opened with the path its parent's service returned; the paths of inputs, below their directory
  and beside it.
\<close>

section \<open>The steps of a stage\<close>

text \<open>What an event sets up, with the name of the input, device or mount.\<close>

datatype stage_step = TheTmp | TheSandbox | AnInput string | ADevice string | AMount string
  | TheArguments | TheRun | ATeardown

fun step_of :: "sevent \<Rightarrow> stage_step" where
  "step_of MadeTmp = TheTmp"
| "step_of OpenedSandbox = TheSandbox"
| "step_of (MappedInput n a res) = AnInput n"
| "step_of (OpenedDevice n a res) = ADevice n"
| "step_of (MountedFS n a res) = AMount n"
| "step_of (WroteArgs j) = TheArguments"
| "step_of (RanStage c a opts err) = TheRun"
| "step_of _ = ATeardown"

text \<open>The error of an event that failed.\<close>

fun failure_of :: "sevent \<Rightarrow> stage_error option" where
  "failure_of (MappedInput n a (Inl e)) = Some e"
| "failure_of (OpenedDevice n a (Inl e)) = Some e"
| "failure_of (MountedFS n a (Inl e)) = Some e"
| "failure_of (RanStage c a opts (Some e)) = Some (RunFailed e)"
| "failure_of _ = None"

definition input_steps :: "(string \<times> minput) list \<Rightarrow> stage_step list" where
  "input_steps = map (\<lambda>(k, ip). AnInput (in_Name ip))"

definition device_steps :: "(string \<times> device) list \<Rightarrow> stage_step list" where
  "device_steps = map (\<lambda>(k, d). ADevice (dev_Name d))"

definition mount_steps :: "(string \<times> mount) list \<Rightarrow> stage_step list" where
  "mount_steps = map (\<lambda>(k, m). AMount (mnt_Name m))"

definition stage_steps :: "stage \<Rightarrow> stage_step list" where
  "stage_steps s =
     [TheTmp, TheSandbox] @ input_steps (om_items (st_Inputs s)) @ device_steps (om_items (st_Devices s))
       @ mount_steps (om_items (st_Mounts s)) @ [TheArguments, TheRun]"

text \<open>
  The events are the first of the steps. With a result they are all of them and each succeeded; with
  an error they stop there: the last event is the one that failed, or all succeeded and a step is
  missing.
\<close>

definition follows :: "sevent list \<Rightarrow> stage_step list \<Rightarrow> stage_error + 'r \<Rightarrow> bool" where
  "follows evs steps r \<longleftrightarrow> map step_of evs = take (length evs) steps
     \<and> (case r of
          Inr res \<Rightarrow> length evs = length steps \<and> (\<forall>e \<in> set evs. failure_of e = None)
        | Inl err \<Rightarrow> length evs \<le> length steps
            \<and> ((length evs < length steps \<and> (\<forall>e \<in> set evs. failure_of e = None))
               \<or> (\<exists>before e. evs = before @ [e] \<and> failure_of e = Some err \<and> (\<forall>x \<in> set before. failure_of x = None))))"

lemma follows_append:
  assumes "follows evs1 steps1 (Inr x :: stage_error + 'a)" "follows evs2 steps2 r"
  shows "follows (evs1 @ evs2) (steps1 @ steps2) r"
  using assms by (cases r) (auto simp: follows_def ball_Un)

lemma follows_stop:
  assumes "follows evs steps (Inl err :: stage_error + 'a)"
  shows "follows evs (steps @ more_steps) (Inl err :: stage_error + 'b)"
  using assms by (auto simp: follows_def)

lemma follows_Nil [simp]: "follows [] [] (Inr x)" by (simp add: follows_def)

lemma follows_missing: "steps \<noteq> [] \<Longrightarrow> follows [] steps (Inl err)" by (simp add: follows_def)

lemma follows_failed: "failure_of e = Some err \<Longrightarrow> step_of e = st \<Longrightarrow> follows [e] (st # steps) (Inl err)"
  by (auto simp: follows_def)

lemma follows_Cons:
  "failure_of e = None \<Longrightarrow> follows evs steps r \<Longrightarrow> follows (e # evs) (step_of e # steps) r"
  by (rule follows_append [of "[e]" "[step_of e]" undefined, simplified]) (simp_all add: follows_def)

text \<open>The three loops.\<close>

lemma map_inputs_steps:
  "map_inputs E dir ips inputs = (evs, r) \<Longrightarrow> follows evs (input_steps ips) r"
proof (induction E dir ips inputs arbitrary: evs r rule: map_inputs.induct)
  case (2 E dir key ip ips inputs)
  show ?case
  proof (cases "Input_Map (rn_svc E) (rn_store_addr E) dir ip")
    case (Inl e)
    then have "evs = [MappedInput (in_Name ip) (input_args (rn_store_addr E) dir ip) (Inl e)]" "r = Inl e"
      using "2.prems" by (auto simp: Let_def)
    then show ?thesis by (simp add: input_steps_def follows_failed)
  next
    case (Inr reply)
    then obtain evs' where 1: "map_inputs E dir ips (gset key (GMap reply) inputs) = (evs', r)"
      "evs = MappedInput (in_Name ip) (input_args (rn_store_addr E) dir ip) (Inr reply) # evs'"
      using "2.prems" by (auto simp: Let_def split: prod.splits)
    from "2.IH" [OF HOL.refl HOL.refl Inr 1(1)] follows_Cons [of "MappedInput (in_Name ip) (input_args (rn_store_addr E) dir ip) (Inr reply)"]
    show ?thesis unfolding 1(2) by (simp add: input_steps_def)
  qed
qed (simp add: input_steps_def)

lemma open_devices_steps:
  "open_devices E devs m devices = (evs, m', r) \<Longrightarrow> follows evs (device_steps devs) r"
proof (induction E devs m devices arbitrary: evs m' r rule: open_devices.induct)
  case (2 E name dev devs m devices)
  obtain m1 res where o: "Device_Open (rn_svc E) dev m = (m1, res)" by fastforce
  show ?case
  proof (cases res)
    case (Inl e)
    then have "evs = [OpenedDevice (dev_Name dev) (device_args m dev) (Inl e)]" "r = Inl e"
      using o "2.prems" by (auto simp: Let_def)
    then show ?thesis by (simp add: device_steps_def follows_failed)
  next
    case (Inr reply)
    then obtain evs' where 1: "open_devices E devs m1 (gset name (GMap reply) devices) = (evs', m', r)"
      "evs = OpenedDevice (dev_Name dev) (device_args m dev) (Inr reply) # evs'"
      using o "2.prems" by (auto simp: Let_def split: prod.splits)
    from "2.IH" [OF o [symmetric] HOL.refl HOL.refl Inr 1(1)] follows_Cons [of "OpenedDevice (dev_Name dev) (device_args m dev) (Inr reply)"]
    show ?thesis unfolding 1(2) by (simp add: device_steps_def)
  qed
qed (simp add: device_steps_def)

lemma do_mounts_steps:
  "do_mounts E dir m ms mounts = (evs, r) \<Longrightarrow> follows evs (mount_steps ms) r"
proof (induction E dir m ms mounts arbitrary: evs r rule: do_mounts.induct)
  case (2 E dir m key mnt ms mounts)
  let ?ev = "MountedFS (mnt_Name mnt) (mount_args (rn_host_dev E) dir m mnt)"
  show ?case
  proof (cases "Mount_Mount (rn_svc E) (rn_host_dev E) dir m mnt")
    case (Inl e)
    then have "evs = [?ev (Inl e)]" "r = Inl e" using "2.prems" by (auto simp: Let_def)
    then show ?thesis by (simp add: mount_steps_def follows_failed)
  next
    case (Inr reply)
    then obtain evs' where 1: "do_mounts E dir m ms (gset key (GMap reply) mounts) = (evs', r)" "evs = ?ev (Inr reply) # evs'"
      using "2.prems" by (auto simp: Let_def split: prod.splits)
    from "2.IH" [OF HOL.refl HOL.refl Inr 1(1)] follows_Cons [of "?ev (Inr reply)"]
    show ?thesis unfolding 1(2) by (simp add: mount_steps_def)
  qed
qed (simp add: mount_steps_def)

lemma run_in_steps:
  assumes "run_in E L s tmpDir treePath metaName = (evs, r)"
  shows "follows evs (input_steps (om_items (st_Inputs s)) @ device_steps (om_items (st_Devices s))
    @ mount_steps (om_items (st_Mounts s)) @ [TheArguments, TheRun]) r"
proof -
  let ?dir = "path_Join [tmpDir, ''inputs'']" and ?mdir = "path_Join [tmpDir, ''mounts'']"
    and ?m0 = "NewDeviceManager (rn_devPath E) treePath"
  obtain ev1 r1 where 1: "map_inputs E ?dir (om_items (st_Inputs s)) [] = (ev1, r1)" by fastforce
  obtain ev2 m r2 where 2: "open_devices E (om_items (st_Devices s)) ?m0 [] = (ev2, m, r2)" by (metis prod.exhaust)
  obtain ev3 r3 where 3: "do_mounts E ?mdir m (om_items (st_Mounts s)) [] = (ev3, r3)" by fastforce
  note f = map_inputs_steps [OF 1] open_devices_steps [OF 2] do_mounts_steps [OF 3]
  note step = assms [unfolded run_in_def 1 2 3 prod.case]
  show ?thesis
  proof (cases r1)
    case (Inl e)
    with step f(1) show ?thesis by (auto intro: follows_stop)
  next
    case r1: (Inr inputs)
    show ?thesis
    proof (cases r2)
      case (Inl e)
      with step r1 have "evs = ev1 @ ev2" "r = Inl e" by simp_all
      then show ?thesis using f(1) follows_stop [OF f(2) [unfolded Inl]] r1 by (auto intro: follows_append)
    next
      case r2: (Inr devices)
      show ?thesis
      proof (cases r3)
        case (Inl e)
        with step r1 r2 have "evs = ev1 @ ev2 @ ev3" "r = Inl e" by simp_all
        then show ?thesis using f(1,2) follows_stop [OF f(3) [unfolded Inl]] r1 r2 by (auto intro!: follows_append)
      next
        case r3: (Inr mounts)
        have "\<exists>rest. evs = ev1 @ ev2 @ ev3 @ rest \<and> follows rest [TheArguments, TheRun] r"
        proof (cases "rn_marshal E (reroot (stage_args L s devices inputs mounts))")
          case (Inl e)
          then show ?thesis using step r1 r2 r3 by (auto intro: follows_missing)
        next
          case mj: (Inr json)
          obtain e rc out where rr: "rn_run E = (e, rc, out)" by (metis prod.exhaust)
          show ?thesis
          proof (cases "rn_write E")
            case (Some err)
            then show ?thesis using step r1 r2 r3 mj by (auto intro: follows_missing)
          next
            case None
            then show ?thesis
              using step r1 r2 r3 mj rr by (cases e) (auto simp: Let_def follows_def append_eq_Cons_conv intro: exI [of _ "[_]"])
          qed
        qed
        then obtain rest where rest: "evs = ev1 @ ev2 @ ev3 @ rest" "follows rest [TheArguments, TheRun] r" by blast
        show ?thesis
          unfolding rest(1) using f(1,2,3) r1 r2 r3 rest(2) by (auto intro!: follows_append)
      qed
    qed
  qed
qed

text \<open>What the deferred calls undo, the latest first.\<close>

definition teardown :: "sevent list \<Rightarrow> sevent list" where
  "teardown made =
     (if OpenedSandbox \<in> set made then [StoppedServices, ClosedSandbox] else [])
     @ (if MadeTmp \<in> set made then [FreedLoops, UndidBinds, RemovedTmp] else [])"

text \<open>C27: Running a stage takes its steps in one order and stops at the first that fails: the temporary
  directory, the sandbox, every input, every device and every mount of the stage in the order of the
  manifest, the arguments, and the stage itself, which is run only when all before it succeeded. The
  error of the step that failed is what \<open>RunStage\<close> returns, and a result is returned only when every
  step was taken and none failed. However far it got, what was set up is then taken down, and nothing
  else: the services and the sandbox if the sandbox was opened, the loop devices, the bind mounts and
  the temporary directory if that was made, in this order.\<close>

theorem RunStage_phases:
  assumes "RunStage E L s treePath metaName = (evs, r)"
  shows "\<exists>made. evs = made @ teardown made \<and> follows made (stage_steps s) r"
proof (cases "rn_tmpDir E")
  case (Inl e)
  then show ?thesis using assms
    by (intro exI [of _ "[]"]) (auto simp: RunStage_def teardown_def stage_steps_def intro!: follows_missing)
next
  case (Inr tmpDir)
  show ?thesis
  proof (cases "rn_sandbox E")
    case (Some e)
    then show ?thesis using assms Inr
      by (intro exI [of _ "[MadeTmp]"]) (auto simp: RunStage_def deferred_def teardown_def stage_steps_def follows_def)
  next
    case None
    obtain evs1 r1 where run: "run_in E L s tmpDir treePath metaName = (evs1, r1)" by fastforce
    then have "evs = (MadeTmp # OpenedSandbox # evs1) @ teardown (MadeTmp # OpenedSandbox # evs1)" "r = r1"
      using assms Inr None by (auto simp: RunStage_def deferred_def teardown_def)
    moreover have "follows (MadeTmp # OpenedSandbox # evs1) (stage_steps s) r1"
      using follows_Cons [OF _ follows_Cons [OF _ run_in_steps [OF run]], of MadeTmp OpenedSandbox] by (simp add: stage_steps_def)
    ultimately show ?thesis by blast
  qed
qed


section \<open>Parents first\<close>

lemma Device_Open_ok:
  assumes "Device_Open svc dev m = (m1, Inr reply)"
  shows "dm_devices m1 = gset (dev_Name dev) reply (dm_devices m)"
  using assms by (auto simp: Device_Open_def split: sum.splits gval.splits)

definition parent_path :: "gobject \<Rightarrow> device \<Rightarrow> string option" where
  "parent_path replies d =
     (case dev_Parent d of
        None \<Rightarrow> Some []
      | Some p \<Rightarrow> map_option (\<lambda>res. get_string0 res ''path'') (get_map replies (dev_Name p)))"

lemma open_devices_parents:
  assumes "open_devices E devs m devices = (evs, m', Inr replies)"
    and "distinct (map fst devs)" "set (map fst devs) \<inter> dom (map_of devices) = {}"
    and "devices_closed seen devs" "\<And>n. seen n \<noteq> None \<Longrightarrow> map_of devices n \<noteq> None"
    and "\<And>n. map_of devices n = map_option GMap (map_of (dm_devices m) n)"
  shows "map_of devices \<subseteq>\<^sub>m map_of replies
    \<and> (\<forall>e \<in> set evs. \<exists>n d args reply. e = OpenedDevice n args (Inr reply) \<and> (n, d) \<in> set devs
         \<and> get_string args ''parent'' = parent_path replies d \<and> parent_path replies d \<noteq> None)"
  using assms
proof (induction E devs m devices arbitrary: evs m' replies seen rule: open_devices.induct)
  case (2 E name dev devs m devices)
  from "2.prems"(1) obtain m1 reply evs' where 1: "Device_Open (rn_svc E) dev m = (m1, Inr reply)"
    "open_devices E devs m1 (gset name (GMap reply) devices) = (evs', m', Inr replies)"
    "evs = OpenedDevice (dev_Name dev) (device_args m dev) (Inr reply) # evs'"
    by (auto simp: Let_def split: sum.splits prod.splits)
  have nm: "dev_Name dev = name" "case dev_Parent dev of None \<Rightarrow> True | Some p \<Rightarrow> seen (dev_Name p) = Some p"
    "devices_closed (seen(name \<mapsto> dev)) devs" using "2.prems"(4) by auto
  have m1: "dm_devices m1 = gset name reply (dm_devices m)" using Device_Open_ok [OF 1(1)] nm(1) by simp
  note IH = "2.IH" [OF 1(1) [symmetric] HOL.refl HOL.refl HOL.refl 1(2) _ _ nm(3)]
  have "map_of (gset name (GMap reply) devices) \<subseteq>\<^sub>m map_of replies
    \<and> (\<forall>e \<in> set evs'. \<exists>n d args reply. e = OpenedDevice n args (Inr reply) \<and> (n, d) \<in> set devs
         \<and> get_string args ''parent'' = parent_path replies d \<and> parent_path replies d \<noteq> None)"
  proof (rule IH)
    have "name \<notin> set (map fst devs)" using "2.prems"(2) by simp
    then show "set (map fst devs) \<inter> dom (map_of (gset name (GMap reply) devices)) = {}"
      using "2.prems"(3) by (simp add: Int_commute)
  qed (use "2.prems"(2,5,6) m1 in \<open>auto split: if_splits\<close>)
  moreover have "map_of devices \<subseteq>\<^sub>m map_of (gset name (GMap reply) devices)"
    using "2.prems"(3) by (auto simp: map_le_def)
  ultimately have le: "map_of devices \<subseteq>\<^sub>m map_of replies" and rest: "\<forall>e \<in> set evs'. \<exists>n d args reply. e = OpenedDevice n args (Inr reply)
      \<and> (n, d) \<in> set devs \<and> get_string args ''parent'' = parent_path replies d \<and> parent_path replies d \<noteq> None"
    by (blast intro: map_le_trans)+
  have parent: "get_string (device_args m dev) ''parent'' = parent_path replies dev"
  proof (cases "dev_Parent dev")
    case None
    then show ?thesis by (simp add: device_args_def get_string_def RelPath_def parent_path_def)
  next
    case (Some p)
    then have "seen (dev_Name p) \<noteq> None" using nm(2) by simp
    then obtain res where res: "map_of (dm_devices m) (dev_Name p) = Some res" "map_of devices (dev_Name p) = Some (GMap res)"
      using "2.prems"(5,6) by (metis not_Some_eq option.map(2) option.simps(8))
    then have "map_of replies (dev_Name p) = Some (GMap res)"
      using le by (metis domI map_le_def)
    with Some res show ?thesis by (simp add: device_args_def get_string_def RelPath_def parent_path_def get_map_def)
  qed
  have "get_string (device_args m dev) ''parent'' \<noteq> None" by (simp add: device_args_def get_string_def)
  have "\<exists>n d args reply. e = OpenedDevice n args (Inr reply) \<and> (n, d) \<in> set ((name, dev) # devs)
      \<and> get_string args ''parent'' = parent_path replies d \<and> parent_path replies d \<noteq> None" if "e \<in> set evs" for e
  proof (cases "e \<in> set evs'")
    case True
    with rest show ?thesis by (meson list.set_intros(2))
  next
    case False
    with that 1(3) nm(1) have "e = OpenedDevice name (device_args m dev) (Inr reply)" by simp
    with parent show ?thesis using \<open>get_string (device_args m dev) ''parent'' \<noteq> None\<close> by auto
  qed
  with le show ?case by blast
qed simp

text \<open>C28: Opening the devices of a stage of a parsed manifest, each service is given the path that the
  service of the device's parent returned (or the empty string for a device without parent): when a
  device is opened, its parent has been opened before.\<close>

theorem devices_get_parent_path:
  assumes "json_ok (GMap desc)" "Parse L ctx R desc = Inr mf" "p \<in> set (mf_Pipelines mf)" "s \<in> set (pl_Stages p)"
    "open_devices E (om_items (st_Devices s)) (NewDeviceManager devPath treePath) [] = (evs, m', Inr replies)"
    "e \<in> set evs"
  shows "\<exists>n d args reply. e = OpenedDevice n args (Inr reply) \<and> om_Get (st_Devices s) n = Some d
    \<and> get_string args ''parent'' = parent_path replies d \<and> parent_path replies d \<noteq> None"
proof -
  have ok: "stage_ok s" using Parse_ok [OF assms(1,2)] assms(3,4) by (simp add: manifest_ok_def)
  then have "om_inv (st_Devices s)" "devices_closed Map.empty (om_items (st_Devices s))" by (simp_all add: stage_ok_def)
  moreover from this have "distinct (map fst (om_items (st_Devices s)))" by (simp add: om_inv_def)
  ultimately obtain n d args reply where e: "e = OpenedDevice n args (Inr reply)" "(n, d) \<in> set (om_items (st_Devices s))"
    "get_string args ''parent'' = parent_path replies d" "parent_path replies d \<noteq> None"
    using open_devices_parents [OF assms(5), of Map.empty] assms(6) by (auto simp: NewDeviceManager_def)
  moreover have "om_Get (st_Devices s) n = Some d"
    using map_of_om_items [OF \<open>om_inv (st_Devices s)\<close>] e(2) \<open>distinct (map fst (om_items (st_Devices s)))\<close>
    by (metis map_of_is_SomeI om_Get_def)
  ultimately show ?thesis by blast
qed

section \<open>The paths of inputs\<close>

text \<open>The path of an input in the arguments of the stage: what \<open>reroot\<close> makes of the reply.\<close>

definition input_path :: "stage_error + gobject \<Rightarrow> string option" where
  "input_path r =
     (case r of
        Inl e \<Rightarrow> None
      | Inr reply \<Rightarrow> (case reroot_item ''/run/osbuild/inputs'' (GMap reply) of GMap m \<Rightarrow> get_string m ''path'' | _ \<Rightarrow> None))"

definition sandbox_inputs :: "string list" where
  "sandbox_inputs = [''run'', ''osbuild'', ''inputs'']"

lemma plain_inputs: "\<forall>c \<in> set sandbox_inputs. plain c" "abs_path sandbox_inputs = ''/run/osbuild/inputs''"
  by (auto simp: sandbox_inputs_def plain_def abs_path_def)

lemma input_path_rel:
  assumes "svc (''input/'' @ in_Name ip) (in_ExecPath ip) ''map'' (input_args store_addr dir ip) = Inr (GMap [(''path'', GString path)])"
    "HasPrefix path dir" "Rel dir path = Some rel" "rel \<noteq> []"
  shows "input_path (Input_Map svc store_addr dir ip) = Some (path_Join [''/run/osbuild/inputs'', rel])"
  using assms by (simp add: Input_Map_def input_path_def reroot_item_def get_string_def)

lemma Join_plain_not_Nil: "ts \<noteq> [] \<Longrightarrow> \<forall>c \<in> set ts. plain c \<Longrightarrow> Join ts ''/'' \<noteq> []"
  by (cases ts rule: list.exhaust; cases "tl ts") (auto simp: plain_def)

lemma HasPrefix_below: "cs \<noteq> [] \<Longrightarrow> ts \<noteq> [] \<Longrightarrow> HasPrefix (abs_path (cs @ ts)) (abs_path cs)"
  by (simp add: abs_path_def Join_append HasPrefix_def)

text \<open>An input that a service puts below the inputs directory is found by the stage at the same place
  below \<^verbatim>\<open>/run/osbuild/inputs\<close>, where the sandbox shows that directory.\<close>

theorem input_path_inside:
  assumes "\<forall>c \<in> set (cs @ ts). plain c" "cs \<noteq> []" "ts \<noteq> []"
    "svc (''input/'' @ in_Name ip) (in_ExecPath ip) ''map'' (input_args store_addr (abs_path cs) ip)
       = Inr (GMap [(''path'', GString (abs_path (cs @ ts)))])"
  shows "input_path (Input_Map svc store_addr (abs_path cs) ip) = Some (abs_path (sandbox_inputs @ ts))"
proof -
  have "path_Join [''/run/osbuild/inputs'', Join ts ''/''] = abs_path (sandbox_inputs @ ts)"
    using path_Join_below [of sandbox_inputs ts] assms(1,3) plain_inputs by (auto simp: sandbox_inputs_def)
  with input_path_rel [where svc = svc, OF assms(4) HasPrefix_below [OF assms(2,3)] Rel_below [OF assms(1,2,3)]] Join_plain_not_Nil [OF assms(3)]
    assms(1) show ?thesis by simp
qed

text \<open>The check that an input's path is below the inputs directory compares characters: a path beside
  it whose last component only starts with the directory's name is accepted too, and the stage is
  given a path outside of \<^verbatim>\<open>/run/osbuild/inputs\<close>.\<close>

theorem input_path_escapes:
  assumes "\<forall>c \<in> set (cs @ [d, d @ x]). plain c" "x \<noteq> []"
    "svc (''input/'' @ in_Name ip) (in_ExecPath ip) ''map'' (input_args store_addr (abs_path (cs @ [d])) ip)
       = Inr (GMap [(''path'', GString (abs_path (cs @ [d @ x])))])"
  shows "input_path (Input_Map svc store_addr (abs_path (cs @ [d])) ip) = Some (abs_path [''run'', ''osbuild'', d @ x])"
proof -
  have rel: "Rel (abs_path (cs @ [d])) (abs_path (cs @ [d @ x])) = Some (''../'' @ d @ x)"
    using Rel_beside [of cs d "d @ x"] assms(1,2) by simp
  have parts: "Split (CHR ''/'') (''/run/osbuild/inputs/../'' @ d @ x) = [[], ''run'', ''osbuild'', ''inputs'', ''..'', d @ x]"
    using assms(1) by (simp add: plain_def Split_part)
  have "HasPrefix (''/run/osbuild/inputs/../'' @ d @ x) ''/''" by (simp add: HasPrefix_def)
  then have "Clean (''/run/osbuild/inputs/../'' @ d @ x) = abs_path [''run'', ''osbuild'', d @ x]"
    unfolding Clean_def parts using assms(1) by (simp add: abs_path_def plain_def)
  then have "path_Join [''/run/osbuild/inputs'', ''../'' @ d @ x] = abs_path [''run'', ''osbuild'', d @ x]"
    by (simp add: path_Join_def)
  with input_path_rel [where svc = svc, OF assms(3) HasPrefix_beside rel] show ?thesis by simp
qed

section \<open>Examples\<close>

definition demo_run :: run_env where
  "demo_run = \<lparr>rn_svc = (\<lambda>_ _ _ _. Inr (GMap [(''path'', GString ''loop0'')])), rn_host_dev = (\<lambda>_. False),
     rn_timeout = None, rn_tmpDir = Inr ''/t'', rn_sandbox = None, rn_store_addr = ''/s'', rn_devPath = ''/d'',
     rn_marshal = (\<lambda>_. Inr ''{}''), rn_write = None, rn_run = (None, 0, []), rn_Error = None\<rparr>"

theorem RunStage_phases_witness:
  "\<exists>evs r made. RunStage demo_run demo_lib (last (pl_Stages demo_build)) ''/tree'' ''/meta'' = (evs, r)
     \<and> evs = made @ teardown made \<and> follows made (stage_steps (last (pl_Stages demo_build))) r \<and> RemovedTmp \<in> set evs"
proof -
  obtain evs r where r: "RunStage demo_run demo_lib (last (pl_Stages demo_build)) ''/tree'' ''/meta'' = (evs, r)" by fastforce
  then have "RemovedTmp \<in> set evs" by (auto simp: RunStage_def deferred_def demo_run_def split: prod.splits)
  with RunStage_phases [OF r] r show ?thesis by blast
qed

lemma demo_open_devices: "\<exists>evs m' replies. open_devices demo_run devs m devices = (evs, m', Inr replies)"
proof (induction devs arbitrary: m devices)
  case (Cons e devs)
  obtain name dev where e: "e = (name, dev)" by fastforce
  have "\<exists>m1. Device_Open (rn_svc demo_run) dev m = (m1, Inr [(''path'', GString ''loop0'')])"
    by (simp add: demo_run_def Device_Open_def)
  then obtain m1 where m1: "Device_Open (rn_svc demo_run) dev m = (m1, Inr [(''path'', GString ''loop0'')])" by blast
  from Cons obtain evs m' replies where
    "open_devices demo_run devs m1 (gset name (GMap [(''path'', GString ''loop0'')]) devices) = (evs, m', Inr replies)" by blast
  with m1 show ?case by (simp add: e Let_def)
qed simp

lemma demo_stage:
  "\<exists>m. Parse demo_lib (\<lambda>_. None) demo_api (demo_desc (GMap demo_devices)) = Inr m \<and> length (mf_Pipelines m) = 2
     \<and> length (pl_Stages (mf_Pipelines m ! 1)) = 1
     \<and> om_keys (st_Devices (pl_Stages (mf_Pipelines m ! 1) ! 0)) = [''disk'', ''lv'']"
  using demo_sorted unfolding demo_devices_def by (simp add: parse_eval om_Set_def NewOrderedMap_def om_Get_def)

theorem devices_get_parent_path_witness:
  "\<exists>m (s :: stage) evs m' replies e. Parse demo_lib (\<lambda>_. None) demo_api (demo_desc (GMap demo_devices)) = Inr m
     \<and> open_devices demo_run (om_items (st_Devices s)) (NewDeviceManager ''/d'' ''/t'') [] = (evs, m', Inr replies)
     \<and> e \<in> set evs \<and> (\<exists>n d args reply. e = OpenedDevice n args (Inr reply) \<and> get_string args ''parent'' = parent_path replies d)"
proof -
  obtain m where m0: "Parse demo_lib (\<lambda>_. None) demo_api (demo_desc (GMap demo_devices)) = Inr m" "length (mf_Pipelines m) = 2"
    "length (pl_Stages (mf_Pipelines m ! 1)) = 1"
    "om_keys (st_Devices (pl_Stages (mf_Pipelines m ! 1) ! 0)) = [''disk'', ''lv'']" using demo_stage by blast
  define p where "p = mf_Pipelines m ! 1"
  define s where "s = pl_Stages p ! 0"
  have m: "p \<in> set (mf_Pipelines m)" "s \<in> set (pl_Stages p)" "om_keys (st_Devices s) = [''disk'', ''lv'']"
    using m0 by (simp_all add: p_def s_def)
  obtain evs m' replies where o1: "open_devices demo_run (om_items (st_Devices s)) (NewDeviceManager ''/d'' ''/t'') [] = (evs, m', Inr replies)"
    using demo_open_devices by blast
  have "length evs = 2" using open_devices_steps [OF o1] m(3) by (simp add: follows_def device_steps_def om_items_def)
  then obtain e where "e \<in> set evs" by (metis length_0_conv list.set_sel(1) zero_neq_numeral)
  with devices_get_parent_path [OF demo_json_ok m0(1) m(1,2) o1, of e] obtain n d args reply where
    "e = OpenedDevice n args (Inr reply)" "get_string args ''parent'' = parent_path replies d" by blast
  then have "\<exists>n d args reply. e = OpenedDevice n args (Inr reply) \<and> get_string args ''parent'' = parent_path replies d" by blast
  with m0(1) o1 \<open>e \<in> set evs\<close> show ?thesis
    by (intro exI [of _ m] exI [of _ s] exI [of _ evs] exI [of _ m'] exI [of _ replies] exI [of _ e] conjI)
qed

definition demo_input :: minput where
  "demo_input = \<lparr>in_Name = ''img'', in_Type = ''org.osbuild.tree'', in_ExecPath = ''/x'', in_Origin = [], in_Refs = [], in_Options = []\<rparr>"

lemma demo_plain: "\<forall>c \<in> set [''t'', ''inputs'', ''img'', ''inputs-2'']. plain c"
  by (simp add: plain_def)

theorem input_path_inside_witness:
  "input_path (Input_Map (\<lambda>_ _ _ _. Inr (GMap [(''path'', GString ''/t/inputs/img'')])) ''/s'' ''/t/inputs'' demo_input)
     = Some ''/run/osbuild/inputs/img''"
  using input_path_inside [of "[''t'', ''inputs'']" "[''img'']" "\<lambda>_ _ _ _. Inr (GMap [(''path'', GString ''/t/inputs/img'')])" demo_input "''/s''"]
    demo_plain by (simp add: abs_path_def sandbox_inputs_def)

theorem input_path_escapes_witness:
  "input_path (Input_Map (\<lambda>_ _ _ _. Inr (GMap [(''path'', GString ''/t/inputs-2'')])) ''/s'' ''/t/inputs'' demo_input)
     = Some ''/run/osbuild/inputs-2''"
  using input_path_escapes [of "[''t'']" "''inputs''" "''-2''" "\<lambda>_ _ _ _. Inr (GMap [(''path'', GString ''/t/inputs-2'')])" demo_input "''/s''"]
    demo_plain by (simp add: abs_path_def)

end
