(* ===== verification/Monitor.thy ===== *)
theory Monitor
  imports Manifest
begin

text \<open>
  \<^verbatim>\<open>monitor/\<close>: what the user of a build is told. A context is the position of the build, with the
  cache of its ID; the IDs already sent in full are shared by all contexts of a monitor and are
  passed along. Calls of the monitors come with what the clock and the encoder give. \<open>dig\<close> is the
  SHA-256 in hexadecimal of \<open>json.Marshal\<close> of a value.
\<close>

section \<open>Modules and results\<close>

datatype mon_module = MPipeline pipeline | MSource source

definition ModuleName :: "mon_module \<Rightarrow> string" where
  "ModuleName m = (case m of MPipeline p \<Rightarrow> Pipeline_ModuleName p | MSource s \<Rightarrow> Source_ModuleName s)"

definition module_ID :: "golib \<Rightarrow> mon_module \<Rightarrow> string" where
  "module_ID L m = (case m of MPipeline p \<Rightarrow> Pipeline_ID L p | MSource s \<Rightarrow> Source_ID L s)"

text \<open>The calls of a monitor. A result comes with its output, its dictionary and the metadata.\<close>

datatype mon_call =
    CBegin mon_module
  | CFinish gobject
  | CStage stage
  | CResult string gobject "gobject option"
  | CLog string string

section \<open>Contexts\<close>

record mcontext =
  cx_Origin :: string
  cx_PipelineName :: string
  cx_PipelineID :: string
  cx_StageName :: string
  cx_StageID :: string
  cx_idCache :: string

definition NewContext :: "string \<Rightarrow> mcontext" where
  "NewContext origin = \<lparr>cx_Origin = origin, cx_PipelineName = [], cx_PipelineID = [], cx_StageName = [],
     cx_StageID = [], cx_idCache = []\<rparr>"

definition position_dict :: "mcontext \<Rightarrow> gval" where
  "position_dict c =
     GMap [(''origin'', GString (cx_Origin c)),
       (''pipeline'', GMap [(''name'', GString (cx_PipelineName c)), (''id'', GString (cx_PipelineID c)),
          (''stage'', GMap [(''name'', GString (cx_StageName c)), (''id'', GString (cx_StageID c))])])]"

definition Context_ID :: "(gval \<Rightarrow> string) \<Rightarrow> mcontext \<Rightarrow> mcontext \<times> string" where
  "Context_ID dig c =
     (if cx_idCache c \<noteq> [] then (c, cx_idCache c)
      else let h = dig (position_dict c) in (c\<lparr>cx_idCache := h\<rparr>, h))"

definition invalidate :: "mcontext \<Rightarrow> mcontext" where
  "invalidate c = c\<lparr>cx_idCache := []\<rparr>"

definition SetPipeline :: "string \<Rightarrow> string \<Rightarrow> mcontext \<Rightarrow> mcontext" where
  "SetPipeline name id' c = invalidate (c\<lparr>cx_PipelineName := name, cx_PipelineID := id', cx_StageName := [], cx_StageID := []\<rparr>)"

definition SetStage :: "string \<Rightarrow> string \<Rightarrow> mcontext \<Rightarrow> mcontext" where
  "SetStage name id' c = invalidate (c\<lparr>cx_StageName := name, cx_StageID := id'\<rparr>)"

definition full_dict :: "string \<Rightarrow> mcontext \<Rightarrow> gobject" where
  "full_dict id' c =
     [(''id'', GString id'), (''origin'', GString (cx_Origin c)),
      (''pipeline'', GMap ([(''name'', GString (cx_PipelineName c)), (''id'', GString (cx_PipelineID c))]
         @ (if cx_StageName c \<noteq> [] \<or> cx_StageID c \<noteq> []
            then [(''stage'', GMap [(''name'', GString (cx_StageName c)), (''id'', GString (cx_StageID c))])] else [])))]"

text \<open>The dictionary, the context with its cache filled, and the IDs sent.\<close>

definition Context_AsDict :: "(gval \<Rightarrow> string) \<Rightarrow> mcontext \<Rightarrow> string set \<Rightarrow> gobject \<times> mcontext \<times> string set" where
  "Context_AsDict dig c hist =
     (let (c1, id') = Context_ID dig c in
      if id' \<in> hist then ([(''id'', GString id')], c1, hist)
      else (full_dict id' c1, c1, insert id' hist))"

text \<open>\<open>WithOrigin\<close> gives the context itself, or a new one without the cache; \<open>None\<close> stands for itself.\<close>

definition WithOrigin :: "string \<Rightarrow> mcontext \<Rightarrow> mcontext option" where
  "WithOrigin origin c =
     (if origin = [] \<or> origin = cx_Origin c then None
      else Some \<lparr>cx_Origin = origin, cx_PipelineName = cx_PipelineName c, cx_PipelineID = cx_PipelineID c,
                 cx_StageName = cx_StageName c, cx_StageID = cx_StageID c, cx_idCache = []\<rparr>)"

section \<open>Progress\<close>

datatype progress = Progress (pg_Name: string) (pg_Total: int) (pg_Done: int) (pg_Sub: "progress option")

definition Incr :: "progress \<Rightarrow> progress" where
  "Incr p = Progress (pg_Name p) (pg_Total p) (pg_Done p + 1) None"

fun Progress_AsDict :: "progress \<Rightarrow> gobject" where
  "Progress_AsDict (Progress name tot fin sub) =
     [(''name'', GString name), (''total'', GInt tot), (''done'', GInt fin)]
     @ (case sub of None \<Rightarrow> [] | Some q \<Rightarrow> [(''progress'', GMap (Progress_AsDict q))])"

section \<open>Entries\<close>

text \<open>\<open>ctx\<close> is the dictionary of the context, which \<open>Context_AsDict\<close> made of it; \<open>now\<close> the time as a number.\<close>

definition LogEntry :: "string \<Rightarrow> gobject option \<Rightarrow> progress option \<Rightarrow> gofloat \<Rightarrow> gobject" where
  "LogEntry message ctx progress now =
     (if message \<noteq> [] then [(''message'', GString message)] else [])
     @ (case ctx of None \<Rightarrow> [] | Some d \<Rightarrow> [(''context'', GMap d)])
     @ (case progress of None \<Rightarrow> [] | Some p \<Rightarrow> [(''progress'', GMap (Progress_AsDict p))])
     @ [(''timestamp'', GFloat now)]"

definition positive :: "gofloat \<Rightarrow> bool" where
  "positive f = (case f of FFin q \<Rightarrow> q > 0 | FInf neg \<Rightarrow> \<not> neg | FNaN \<Rightarrow> False)"

definition LogEntryWithResult ::
    "string \<Rightarrow> gobject option \<Rightarrow> progress option \<Rightarrow> gofloat \<Rightarrow> gobject option \<Rightarrow> gofloat \<Rightarrow> gobject option \<Rightarrow> gobject option \<Rightarrow> gobject" where
  "LogEntryWithResult message ctx progress now options duration result metadata =
     LogEntry message ctx progress now
     @ (case options of None \<Rightarrow> [] | Some v \<Rightarrow> [(''options'', GMap v)])
     @ (if positive duration then [(''duration'', GFloat duration)] else [])
     @ (case result of None \<Rightarrow> [] | Some v \<Rightarrow> [(''result'', GMap v)])
     @ (case metadata of None \<Rightarrow> [] | Some v \<Rightarrow> [(''metadata'', GMap v)])"

section \<open>Writing\<close>

text \<open>
  \<open>Write\<close> to a file: each element of the list is a call of \<open>write\<close>, the bytes it took and whether it
  failed; \<open>None\<close> is a loop that still writes when they are used up.
\<close>

fun tw_Write :: "(nat \<times> bool) list \<Rightarrow> string \<Rightarrow> string option" where
  "tw_Write ws [] = Some []"
| "tw_Write [] data = None"
| "tw_Write ((n, failed) # ws) data =
     (if failed then Some (take n data) else map_option (\<lambda>rest. take n data @ rest) (tw_Write ws (drop n data)))"

definition tw_Term :: "bool \<Rightarrow> (nat \<times> bool) list \<Rightarrow> string \<Rightarrow> string option" where
  "tw_Term isatty ws text = (if isatty then tw_Write ws text else Some [])"

definition jsonseq_record :: "string \<Rightarrow> string" where
  "jsonseq_record data = [CHR 0x1E] @ data @ [CHR 10]"

section \<open>The JSON sequence monitor\<close>

definition maxOutputLen :: nat where "maxOutputLen = 31000"

text \<open>
  The parts of a call that are not the monitor's: the encoder, the clock, and the seconds since the
  stage began. The state has the entries written, in order.
\<close>

record mon_env =
  me_Marshal :: "gobject \<Rightarrow> string option"
  me_now :: gofloat
  me_since :: gofloat

record jsmon =
  js_ctx :: mcontext
  js_hist :: "string set"
  js_progress :: progress
  js_hasStart :: bool
  js_options :: "gobject option"
  js_entries :: "gobject list"
  js_out :: string

definition NewJSONSeqMonitor :: "int \<Rightarrow> jsmon" where
  "NewJSONSeqMonitor totalSteps =
     \<lparr>js_ctx = NewContext ''org.osbuild'', js_hist = {}, js_progress = Progress ''pipelines/sources'' totalSteps 0 None,
      js_hasStart = False, js_options = None, js_entries = [], js_out = []\<rparr>"

definition jsonseq :: "mon_env \<Rightarrow> gobject \<Rightarrow> jsmon \<Rightarrow> jsmon" where
  "jsonseq E entry j =
     (case me_Marshal E entry of
        None \<Rightarrow> j
      | Some data \<Rightarrow> j\<lparr>js_entries := js_entries j @ [entry], js_out := js_out j @ jsonseq_record data\<rparr>)"

text \<open>The dictionary of the monitor's context under another origin.\<close>

definition dict_with_origin :: "(gval \<Rightarrow> string) \<Rightarrow> string \<Rightarrow> jsmon \<Rightarrow> gobject \<times> jsmon" where
  "dict_with_origin dig origin j =
     (case WithOrigin origin (js_ctx j) of
        None \<Rightarrow> (case Context_AsDict dig (js_ctx j) (js_hist j) of (d, c, h) \<Rightarrow> (d, j\<lparr>js_ctx := c, js_hist := h\<rparr>))
      | Some c0 \<Rightarrow> (case Context_AsDict dig c0 (js_hist j) of (d, c, h) \<Rightarrow> (d, j\<lparr>js_hist := h\<rparr>)))"

definition js_Log :: "(gval \<Rightarrow> string) \<Rightarrow> mon_env \<Rightarrow> string \<Rightarrow> string \<Rightarrow> jsmon \<Rightarrow> jsmon" where
  "js_Log dig E message origin j =
     (case dict_with_origin dig origin j of
        (d, j1) \<Rightarrow> jsonseq E (LogEntry message (Some d) (Some (js_progress j1)) (me_now E)) j1)"

definition js_Begin :: "(gval \<Rightarrow> string) \<Rightarrow> mon_env \<Rightarrow> golib \<Rightarrow> mon_module \<Rightarrow> jsmon \<Rightarrow> jsmon" where
  "js_Begin dig E L md j =
     (let j1 = j\<lparr>js_ctx := SetPipeline (ModuleName md) (module_ID L md) (js_ctx j)\<rparr>;
          p = js_progress j1;
          j2 = (case md of
                  MPipeline pl \<Rightarrow>
                    if length (pl_Stages pl) > 0
                    then j1\<lparr>js_progress := Progress (pg_Name p) (pg_Total p) (pg_Done p)
                               (Some (Progress (''pipeline: '' @ pl_Name pl) (int (length (pl_Stages pl))) 0 None))\<rparr>
                    else j1
                | MSource _ \<Rightarrow> j1)
      in js_Log dig E (''Starting module '' @ ModuleName md) ''osbuild.monitor'' j2)"

definition js_Finish :: "(gval \<Rightarrow> string) \<Rightarrow> mon_env \<Rightarrow> gobject \<Rightarrow> jsmon \<Rightarrow> jsmon" where
  "js_Finish dig E results j =
     js_Log dig E (''Finished pipeline '' @ get_string0 results ''name'') ''osbuild.monitor''
       (j\<lparr>js_progress := Incr (js_progress j)\<rparr>)"

definition js_Stage :: "(gval \<Rightarrow> string) \<Rightarrow> mon_env \<Rightarrow> golib \<Rightarrow> stage \<Rightarrow> jsmon \<Rightarrow> jsmon" where
  "js_Stage dig E L stage j =
     js_Log dig E (''Starting module '' @ Stage_Name stage) ''osbuild.monitor''
       (j\<lparr>js_ctx := SetStage (Stage_Name stage) (Stage_ID L stage) (js_ctx j),
          js_options := Some (st_Options stage), js_hasStart := True\<rparr>)"

definition shorten :: "string \<Rightarrow> string" where
  "shorten output =
     (if length output > maxOutputLen
      then ''[...'' @ Itoa (int (length output - maxOutputLen)) @ '' bytes hidden...]'' @ [CHR 10]
           @ drop (length output - maxOutputLen) output
      else output)"

text \<open>A result is what the interface \<open>Result\<close> gives: its output and its dictionary.\<close>

definition js_Result :: "(gval \<Rightarrow> string) \<Rightarrow> mon_env \<Rightarrow> string \<Rightarrow> gobject \<Rightarrow> gobject option \<Rightarrow> jsmon \<Rightarrow> jsmon" where
  "js_Result dig E output dict metadata j =
     (let p = js_progress j;
          j1 = j\<lparr>js_progress := Progress (pg_Name p) (pg_Total p) (pg_Done p)
                   (map_option (\<lambda>q. Progress (pg_Name q) (pg_Total q) (pg_Done q + 1) (pg_Sub q)) (pg_Sub p))\<rparr>;
          rd = gset ''output'' (GString (shorten output)) dict;
          duration = (if js_hasStart j1 then me_since E else FFin 0);
          (d, j2) = dict_with_origin dig ''osbuild.monitor'' (j1\<lparr>js_hasStart := False\<rparr>)
      in jsonseq E (LogEntryWithResult [] (Some d) (Some (js_progress j2)) (me_now E) (js_options j2) duration (Some rd) metadata) j2)"

fun js_call :: "(gval \<Rightarrow> string) \<Rightarrow> golib \<Rightarrow> mon_env \<times> mon_call \<Rightarrow> jsmon \<Rightarrow> jsmon" where
  "js_call dig L (E, CBegin m) j = js_Begin dig E L m j"
| "js_call dig L (E, CFinish results) j = js_Finish dig E results j"
| "js_call dig L (E, CStage stage) j = js_Stage dig E L stage j"
| "js_call dig L (E, CResult output dict metadata) j = js_Result dig E output dict metadata j"
| "js_call dig L (E, CLog message origin) j = js_Log dig E message origin j"

section \<open>The text monitor\<close>

text \<open>
  \<open>le_time\<close> prints a time as RFC 3339, \<open>le_indent\<close> is \<open>json.MarshalIndent\<close>, \<open>le_seconds\<close> the seconds since
  the stage began with two decimals. The clock sign is three bytes of UTF-8.
\<close>

record log_env =
  le_time :: "int \<Rightarrow> string"
  le_indent :: "gobject \<Rightarrow> string"
  le_seconds :: string

record logmon =
  lm_hasStart :: bool
  lm_out :: string

definition NewLogMonitor :: logmon where
  "NewLogMonitor = \<lparr>lm_hasStart = False, lm_out = []\<rparr>"

definition nl :: string where "nl = [CHR 10]"

definition lm_write :: "string \<Rightarrow> logmon \<Rightarrow> logmon" where
  "lm_write text l = l\<lparr>lm_out := lm_out l @ text\<rparr>"

definition beginPipeline :: "log_env \<Rightarrow> golib \<Rightarrow> pipeline \<Rightarrow> logmon \<Rightarrow> logmon" where
  "beginPipeline E L p l =
     (let l1 = lm_write (''Build'' @ nl) (lm_write (''Pipeline '' @ pl_Name p @ '': '' @ Pipeline_ID L p @ nl) l);
          l2 = lm_write (''  root: '' @ (case pl_Build p of Some b \<Rightarrow> b | None \<Rightarrow> ''<host>'') @ nl) l1;
          l3 = (if run_Name (pl_Runner p) \<noteq> []
                then lm_write (''  runner: '' @ run_Name (pl_Runner p) @ '' ('' @ Runner_Exec (pl_Runner p) @ '')'' @ nl) l2
                else l2)
      in case pl_SourceEpoch p of
           Some e \<Rightarrow> lm_write (''  source-epoch: '' @ le_time E e @ '' ['' @ Itoa e @ '']'' @ nl) l3
         | None \<Rightarrow> l3)"

fun lm_call :: "golib \<Rightarrow> log_env \<times> mon_call \<Rightarrow> logmon \<Rightarrow> logmon" where
  "lm_call L (E, CBegin (MPipeline p)) l = beginPipeline E L p l"
| "lm_call L (E, CBegin (MSource s)) l = lm_write (Source_ModuleName s @ '': '' @ Source_ID L s @ nl) l"
| "lm_call L (E, CFinish results) l = l"
| "lm_call L (E, CStage stage) l =
     (lm_write (Stage_Name stage @ '': '' @ Stage_ID L stage
        @ (if st_Options stage \<noteq> [] then '' '' @ le_indent E (st_Options stage) else []) @ nl) l)\<lparr>lm_hasStart := True\<rparr>"
| "lm_call L (E, CResult output dict metadata) l =
     (if lm_hasStart l
      then (lm_write (nl @ [CHR 0xE2, CHR 0x8F, CHR 0xB1] @ ''  Duration: '' @ le_seconds E @ ''s'' @ nl) l)\<lparr>lm_hasStart := False\<rparr>
      else l)"
| "lm_call L (E, CLog message origin) l = lm_write message l"

section \<open>Choosing one\<close>

datatype monitor = NullMonitor | LogMonitor logmon | JSONSeqMonitor jsmon

definition Make_monitor :: "string \<Rightarrow> int \<Rightarrow> string + monitor" where
  "Make_monitor name totalSteps =
     (if name = ''NullMonitor'' then Inr NullMonitor
      else if name = ''LogMonitor'' then Inr (LogMonitor NewLogMonitor)
      else if name = ''JSONSeqMonitor'' then Inr (JSONSeqMonitor (NewJSONSeqMonitor totalSteps))
      else Inl (''unknown monitor: '' @ name))"

fun monitor_call :: "(gval \<Rightarrow> string) \<Rightarrow> golib \<Rightarrow> mon_env \<times> log_env \<Rightarrow> mon_call \<Rightarrow> monitor \<Rightarrow> monitor" where
  "monitor_call dig L E c NullMonitor = NullMonitor"
| "monitor_call dig L (E, E') c (LogMonitor l) = LogMonitor (lm_call L (E', c) l)"
| "monitor_call dig L (E, E') c (JSONSeqMonitor j) = JSONSeqMonitor (js_call dig L (E, c) j)"

end
