(* ===== verification/MonitorFacts.thy ===== *)
theory MonitorFacts
  imports Monitor
begin

text \<open>
  The JSON sequence monitor against a reference without caches: the position of the build after a
  sequence of calls is computed from the calls alone, and the records are compared with it.
\<close>

section \<open>The reference\<close>

fun pos_step :: "golib \<Rightarrow> mon_call \<Rightarrow> mcontext \<Rightarrow> mcontext" where
  "pos_step L (CBegin m) c = c\<lparr>cx_PipelineName := ModuleName m, cx_PipelineID := module_ID L m,
     cx_StageName := [], cx_StageID := []\<rparr>"
| "pos_step L (CStage s) c = c\<lparr>cx_StageName := Stage_Name s, cx_StageID := Stage_ID L s\<rparr>"
| "pos_step L _ c = c"

fun call_origin :: "mon_call \<Rightarrow> string" where
  "call_origin (CLog message origin) = (if origin = [] then ''org.osbuild'' else origin)"
| "call_origin _ = ''osbuild.monitor''"

definition position :: "golib \<Rightarrow> mon_call list \<Rightarrow> nat \<Rightarrow> mcontext" where
  "position L calls i = (fold (pos_step L) (take (Suc i) calls) (NewContext ''org.osbuild''))
     \<lparr>cx_Origin := call_origin (calls ! i)\<rparr>"

definition entry_context :: "gobject \<Rightarrow> gobject option" where
  "entry_context e = get_map e ''context''"

section \<open>One call\<close>

definition cache_ok :: "(gval \<Rightarrow> string) \<Rightarrow> mcontext \<Rightarrow> bool" where
  "cache_ok dig c \<longleftrightarrow> cx_idCache c = [] \<or> cx_idCache c = dig (position_dict c)"

definition clear :: "mcontext \<Rightarrow> mcontext" where
  "clear c = c\<lparr>cx_idCache := []\<rparr>"

definition context_dict :: "(gval \<Rightarrow> string) \<Rightarrow> string set \<Rightarrow> mcontext \<Rightarrow> gobject" where
  "context_dict dig hist c =
     (let h = dig (position_dict c) in if h \<in> hist then [(''id'', GString h)] else full_dict h c)"

lemma position_dict_clear [simp]: "position_dict (c\<lparr>cx_idCache := h\<rparr>) = position_dict c"
  by (simp add: position_dict_def)

lemma full_dict_clear [simp]: "full_dict i (c\<lparr>cx_idCache := h\<rparr>) = full_dict i c"
  by (simp add: full_dict_def)

lemma Context_ID_ok:
  "cache_ok dig c \<Longrightarrow> Context_ID dig c = (c1, h) \<Longrightarrow> h = dig (position_dict c) \<and> clear c1 = clear c \<and> cache_ok dig c1
     \<and> full_dict i c1 = full_dict i c"
  by (auto simp: Context_ID_def cache_ok_def clear_def Let_def split: if_splits)

lemma Context_AsDict_ok:
  assumes "cache_ok dig c" "Context_AsDict dig c hist = (d, c1, hist1)"
  shows "d = context_dict dig hist c" "hist1 = insert (dig (position_dict c)) hist" "clear c1 = clear c" "cache_ok dig c1"
proof -
  obtain c2 h where id: "Context_ID dig c = (c2, h)" by fastforce
  note ok = Context_ID_ok [OF assms(1) id]
  show "d = context_dict dig hist c" "hist1 = insert (dig (position_dict c)) hist" "clear c1 = clear c" "cache_ok dig c1"
    using assms(2) ok by (auto simp: Context_AsDict_def id context_dict_def Let_def split: if_splits)
qed

lemma context_dict_clear: "context_dict dig hist (clear c) = context_dict dig hist c" "position_dict (clear c) = position_dict c"
  by (simp_all add: context_dict_def clear_def Let_def)

text \<open>The monitor's own context keeps its origin, and its cache holds nothing or the right ID.\<close>

definition js_inv :: "(gval \<Rightarrow> string) \<Rightarrow> mcontext \<Rightarrow> jsmon \<Rightarrow> bool" where
  "js_inv dig c j \<longleftrightarrow> clear (js_ctx j) = c \<and> cx_Origin c = ''org.osbuild'' \<and> cache_ok dig (js_ctx j)"

lemma dict_with_origin_ok:
  assumes "js_inv dig c j" "dict_with_origin dig org j = (d, j1)"
  defines "c' \<equiv> c\<lparr>cx_Origin := if org = [] then ''org.osbuild'' else org\<rparr>"
  shows "d = context_dict dig (js_hist j) c'" "js_hist j1 = insert (dig (position_dict c')) (js_hist j)"
    "js_inv dig c j1" "js_entries j1 = js_entries j"
proof -
  let ?a = "js_ctx j"
  have a: "clear ?a = c" "cx_Origin ?a = ''org.osbuild''" "cache_ok dig ?a"
    using assms(1) by (auto simp: js_inv_def clear_def)
  have goal: "d = context_dict dig (js_hist j) c' \<and> js_hist j1 = insert (dig (position_dict c')) (js_hist j)
    \<and> js_inv dig c j1 \<and> js_entries j1 = js_entries j"
  proof (cases "WithOrigin org ?a")
    case None
    then have "c' = c" using a(2) unfolding c'_def a(1) [symmetric] by (auto simp: WithOrigin_def clear_def split: if_splits)
    then have same: "context_dict dig h c' = context_dict dig h ?a" "position_dict c' = position_dict ?a" for h
      unfolding a(1) [symmetric] by (simp_all add: context_dict_clear)
    obtain d0 c0 h0 where r: "Context_AsDict dig ?a (js_hist j) = (d0, c0, h0)" using prod_cases3 by blast
    note ok = Context_AsDict_ok [OF a(3) r]
    have "d = d0" "j1 = j\<lparr>js_ctx := c0, js_hist := h0\<rparr>" using assms(2) None by (simp_all add: dict_with_origin_def r)
    with ok a(1) assms(1) same show ?thesis by (simp add: js_inv_def)
  next
    case (Some b)
    then have b: "b = c'" unfolding a(1) [symmetric] c'_def by (auto simp: WithOrigin_def clear_def split: if_splits)
    obtain d0 c0 h0 where r: "Context_AsDict dig b (js_hist j) = (d0, c0, h0)" using prod_cases3 by blast
    have "cache_ok dig b" using Some by (auto simp: cache_ok_def WithOrigin_def split: if_splits)
    note ok = Context_AsDict_ok [OF this r]
    have "d = d0" "j1 = j\<lparr>js_hist := h0\<rparr>" using assms(2) Some by (simp_all add: dict_with_origin_def r)
    with ok b assms(1) show ?thesis by (simp add: js_inv_def)
  qed
  then show "d = context_dict dig (js_hist j) c'" "js_hist j1 = insert (dig (position_dict c')) (js_hist j)"
    "js_inv dig c j1" "js_entries j1 = js_entries j" by blast+
qed

lemma entry_context_Log [simp]: "entry_context (LogEntry m (Some d) p t) = Some d"
  by (cases p) (auto simp: entry_context_def LogEntry_def get_map_def)

lemma entry_context_Result [simp]: "entry_context (LogEntryWithResult m (Some d) p t opts dur res md) = Some d"
  unfolding LogEntryWithResult_def entry_context_def get_map_def
  by (cases p) (auto simp: LogEntry_def)

text \<open>What every call does: one record, with the dictionary of the position it leaves.\<close>

definition records :: "(gval \<Rightarrow> string) \<Rightarrow> mcontext \<Rightarrow> string \<Rightarrow> jsmon \<Rightarrow> jsmon \<Rightarrow> bool" where
  "records dig c org j j' \<longleftrightarrow>
     (\<exists>e. js_entries j' = js_entries j @ [e] \<and> entry_context e = Some (context_dict dig (js_hist j) (c\<lparr>cx_Origin := org\<rparr>)))
     \<and> js_hist j' = insert (dig (position_dict (c\<lparr>cx_Origin := org\<rparr>))) (js_hist j) \<and> js_inv dig c j'"

lemma jsonseq_works:
  "me_Marshal E e \<noteq> None \<Longrightarrow> js_entries (jsonseq E e j) = js_entries j @ [e] \<and> js_hist (jsonseq E e j) = js_hist j
     \<and> js_ctx (jsonseq E e j) = js_ctx j"
  by (auto simp: jsonseq_def split: option.split)

lemma js_Log_records:
  assumes "js_inv dig c j" "\<And>e. me_Marshal E e \<noteq> None"
  shows "records dig c (if org = [] then ''org.osbuild'' else org) j (js_Log dig E m org j)"
proof -
  obtain d j1 where r: "dict_with_origin dig org j = (d, j1)" by fastforce
  note ok = dict_with_origin_ok [OF assms(1) r]
  show ?thesis
    using ok jsonseq_works [OF assms(2)] unfolding records_def js_Log_def r
    by (simp add: js_inv_def)
qed

lemma records_cong: "js_hist j0 = js_hist j \<Longrightarrow> js_entries j0 = js_entries j \<Longrightarrow> records dig c org j0 j' = records dig c org j j'"
  by (simp add: records_def)

lemma js_call_records:
  assumes "js_inv dig c j" "\<And>e. me_Marshal E e \<noteq> None"
  shows "records dig (pos_step L k c) (call_origin k) j (js_call dig L (E, k) j)"
proof -
  have a: "clear (js_ctx j) = c" "cx_Origin c = ''org.osbuild''" "cache_ok dig (js_ctx j)"
    using assms(1) by (auto simp: js_inv_def)
  show ?thesis
  proof (cases k)
    case (CBegin m)
    define j2 where "j2 = (let j1 = j\<lparr>js_ctx := SetPipeline (ModuleName m) (module_ID L m) (js_ctx j)\<rparr>; p = js_progress j1 in
      case m of MPipeline pl \<Rightarrow> if length (pl_Stages pl) > 0
          then j1\<lparr>js_progress := Progress (pg_Name p) (pg_Total p) (pg_Done p)
                    (Some (Progress (''pipeline: '' @ pl_Name pl) (int (length (pl_Stages pl))) 0 None))\<rparr> else j1
      | MSource _ \<Rightarrow> j1)"
    have "js_inv dig (pos_step L k c) j2"
      using a by (cases m) (auto simp: j2_def js_inv_def CBegin SetPipeline_def invalidate_def clear_def cache_ok_def Let_def)
    moreover have "js_hist j2 = js_hist j" "js_entries j2 = js_entries j" by (cases m; simp add: j2_def Let_def)+
    moreover have "js_call dig L (E, k) j = js_Log dig E (''Starting module '' @ ModuleName m) ''osbuild.monitor'' j2"
      by (simp add: CBegin js_Begin_def j2_def Let_def)
    ultimately show ?thesis using js_Log_records [OF _ assms(2), of dig _ j2 "''osbuild.monitor''"] records_cong [of j2 j]
      by (simp add: CBegin)
  next
    case (CFinish results)
    have "js_inv dig c (j\<lparr>js_progress := Incr (js_progress j)\<rparr>)" using assms(1) by (simp add: js_inv_def)
    from js_Log_records [OF this assms(2), of "''osbuild.monitor''"] show ?thesis
      by (simp add: CFinish js_Finish_def records_def)
  next
    case (CStage s)
    have "js_inv dig (pos_step L k c) (j\<lparr>js_ctx := SetStage (Stage_Name s) (Stage_ID L s) (js_ctx j),
        js_options := Some (st_Options s), js_hasStart := True\<rparr>)"
      using a by (auto simp: js_inv_def CStage SetStage_def invalidate_def clear_def cache_ok_def)
    from js_Log_records [OF this assms(2), of "''osbuild.monitor''"] show ?thesis
      by (simp add: CStage js_Stage_def records_def)
  next
    case (CResult outp dict metadata)
    define j1 where "j1 = j\<lparr>js_progress := Progress (pg_Name (js_progress j)) (pg_Total (js_progress j)) (pg_Done (js_progress j))
        (map_option (\<lambda>q. Progress (pg_Name q) (pg_Total q) (pg_Done q + 1) (pg_Sub q)) (pg_Sub (js_progress j))),
      js_hasStart := False\<rparr>"
    have inv: "js_inv dig c j1" using assms(1) by (simp add: js_inv_def j1_def)
    obtain d j2 where r: "dict_with_origin dig ''osbuild.monitor'' j1 = (d, j2)" by fastforce
    note ok = dict_with_origin_ok [OF inv r]
    have "js_call dig L (E, k) j = jsonseq E (LogEntryWithResult [] (Some d) (Some (js_progress j2)) (me_now E) (js_options j2)
        (if js_hasStart j then me_since E else FFin 0) (Some (gset ''output'' (GString (shorten outp)) dict)) metadata) j2"
      using r by (simp add: CResult js_Result_def j1_def Let_def)
    then show ?thesis using ok jsonseq_works [OF assms(2)]
      by (simp add: records_def CResult js_inv_def j1_def)
  next
    case (CLog m org)
    then show ?thesis using js_Log_records [OF assms, of org m] by simp
  qed
qed

section \<open>A run\<close>

text \<open>The dictionaries of a run by the calls alone.\<close>

definition sent_before :: "(gval \<Rightarrow> string) \<Rightarrow> golib \<Rightarrow> mon_call list \<Rightarrow> nat \<Rightarrow> string set" where
  "sent_before dig L calls i = (\<lambda>k. dig (position_dict (position L calls k))) ` {..<i}"

lemma position_append: "i < length calls \<Longrightarrow> position L (calls @ [k]) i = position L calls i"
  by (simp add: position_def nth_append)

lemma position_last: "position L (calls @ [k]) (length calls)
    = (pos_step L k (fold (pos_step L) calls (NewContext ''org.osbuild'')))\<lparr>cx_Origin := call_origin k\<rparr>"
  by (simp add: position_def)

lemma sent_before_append: "i \<le> length calls \<Longrightarrow> sent_before dig L (calls @ [k]) i = sent_before dig L calls i"
  unfolding sent_before_def by (rule image_cong) (simp_all add: position_append)

lemma js_run:
  assumes "\<forall>(E, k) \<in> set calls. \<forall>e. me_Marshal E e \<noteq> None"
  shows "(let j = fold (js_call dig L) calls (NewJSONSeqMonitor n); ks = map snd calls in
    js_inv dig (fold (pos_step L) ks (NewContext ''org.osbuild'')) j \<and> js_hist j = sent_before dig L ks (length ks)
    \<and> length (js_entries j) = length ks
    \<and> (\<forall>i < length ks. entry_context (js_entries j ! i) = Some (context_dict dig (sent_before dig L ks i) (position L ks i))))"
  using assms(1) unfolding Let_def
proof (induction calls rule: rev_induct)
  case Nil
  then show ?case
    by (simp add: NewJSONSeqMonitor_def js_inv_def clear_def NewContext_def cache_ok_def sent_before_def)
next
  case (snoc call calls)
  obtain E k where call: "call = (E, k)" by fastforce
  let ?j = "fold (js_call dig L) calls (NewJSONSeqMonitor n)" and ?ks = "map snd calls"
  let ?c = "fold (pos_step L) ?ks (NewContext ''org.osbuild'')"
  from snoc have IH: "js_inv dig ?c ?j" "js_hist ?j = sent_before dig L ?ks (length ?ks)" "length (js_entries ?j) = length ?ks"
    "\<And>i. i < length ?ks \<Longrightarrow> entry_context (js_entries ?j ! i) = Some (context_dict dig (sent_before dig L ?ks i) (position L ?ks i))"
    by auto
  have "records dig (pos_step L k ?c) (call_origin k) ?j (js_call dig L (E, k) ?j)"
    using IH(1) snoc.prems by (intro js_call_records) (auto simp: call)
  then obtain e where e: "js_entries (js_call dig L (E, k) ?j) = js_entries ?j @ [e]"
      "entry_context e = Some (context_dict dig (js_hist ?j) (position L (?ks @ [k]) (length ?ks)))"
    and h: "js_hist (js_call dig L (E, k) ?j) = insert (dig (position_dict (position L (?ks @ [k]) (length ?ks)))) (js_hist ?j)"
    and inv: "js_inv dig (pos_step L k ?c) (js_call dig L (E, k) ?j)"
    unfolding records_def position_last by blast
  have "sent_before dig L (?ks @ [k]) (Suc (length ?ks))
      = insert (dig (position_dict (position L (?ks @ [k]) (length ?ks)))) (sent_before dig L ?ks (length ?ks))"
    using sent_before_append [of "length ?ks" ?ks dig L k] by (simp add: sent_before_def lessThan_Suc)
  with h IH(2) have "js_hist (js_call dig L (E, k) ?j) = sent_before dig L (?ks @ [k]) (Suc (length ?ks))" by simp
  moreover have "entry_context ((js_entries ?j @ [e]) ! i)
      = Some (context_dict dig (sent_before dig L (?ks @ [k]) i) (position L (?ks @ [k]) i))" if "i < Suc (length ?ks)" for i
  proof (cases "i = length ?ks")
    case True
    then show ?thesis using e(2) IH(2,3) sent_before_append [of i ?ks dig L k] by (simp add: nth_append)
  next
    case False
    then have "i < length ?ks" using that by simp
    then show ?thesis using IH(3,4) by (simp add: nth_append position_append sent_before_append)
  qed
  ultimately show ?case using inv e(1) IH(3) by (simp add: call)
qed

text \<open>C40: Every record of the JSON sequence monitor can be resolved: there is one record for each call; its
  context is identified by the digest of the position the calls up to it lead to, never a stale one,
  and is spelled out in full in the first record with that identifier and only there.\<close>

theorem JSONSeq_contexts:
  assumes "\<forall>(E, k) \<in> set calls. \<forall>e. me_Marshal E e \<noteq> None"
  shows "map entry_context (js_entries (fold (js_call dig L) calls (NewJSONSeqMonitor n)))
    = map (\<lambda>i. let c = position L (map snd calls) i; h = dig (position_dict c) in
          Some (if \<exists>k<i. dig (position_dict (position L (map snd calls) k)) = h then [(''id'', GString h)] else full_dict h c))
        [0..<length calls]"
proof (rule nth_equalityI)
  fix i
  let ?es = "js_entries (fold (js_call dig L) calls (NewJSONSeqMonitor n))"
  assume "i < length (map entry_context ?es)"
  then have i: "i < length calls" "i < length ?es" using js_run [OF assms, of dig L n, unfolded Let_def] by simp_all
  have "(\<exists>k<i. dig (position_dict (position L (map snd calls) k)) = h) \<longleftrightarrow> h \<in> sent_before dig L (map snd calls) i" for h
    by (auto simp: sent_before_def)
  with i js_run [OF assms, of dig L n, unfolded Let_def] show "map entry_context ?es ! i = map (\<lambda>i. let c = position L (map snd calls) i;
        h = dig (position_dict c) in
      Some (if \<exists>k<i. dig (position_dict (position L (map snd calls) k)) = h then [(''id'', GString h)] else full_dict h c))
    [0..<length calls] ! i"
    by (simp add: context_dict_def Let_def)
qed (use js_run [OF assms, of dig L n, unfolded Let_def] in simp)

definition demo_mon_env :: mon_env where
  "demo_mon_env = \<lparr>me_Marshal = \<lambda>e. Some ''{}'', me_now = FFin 0, me_since = FFin 0\<rparr>"

text \<open>Two messages from one place: the second refers to the first.\<close>

theorem JSONSeq_contexts_witness:
  "map entry_context (js_entries (fold (js_call (\<lambda>_. ''h'') demo_lib)
      [(demo_mon_env, CLog ''a'' ''x''), (demo_mon_env, CLog ''b'' ''x'')] (NewJSONSeqMonitor 1)))
    = [Some (full_dict ''h'' ((NewContext ''x''))), Some [(''id'', GString ''h'')]]"
  by (subst JSONSeq_contexts) (auto simp: demo_mon_env_def position_def NewContext_def)

section \<open>Long outputs\<close>

text \<open>The output of a stage in a record is short and ends like the output.\<close>

lemma shorten_bound:
  "length (shorten output) \<le> 31000 + 22 + length (Itoa (int (length output - 31000)))
    \<and> drop (length (shorten output) - min 31000 (length output)) (shorten output) = drop (length output - 31000) output"
proof (cases "length output > 31000")
  case True
  define h where "h = ''[...'' @ Itoa (int (length output - 31000)) @ '' bytes hidden...]'' @ [CHR 10]"
  have "shorten output = h @ drop (length output - 31000) output" using True by (simp add: shorten_def maxOutputLen_def h_def)
  moreover have "length h = 22 + length (Itoa (int (length output - 31000)))" by (simp add: h_def)
  ultimately show ?thesis using True by simp
qed (simp add: shorten_def maxOutputLen_def)

text \<open>A record that cannot be encoded is lost, but its context counts as sent: a later record refers to it in vain.\<close>

lemma lost_context:
  assumes "me_Marshal E = (\<lambda>e. None)" "\<And>e. me_Marshal E' e \<noteq> None"
  shows "map entry_context (js_entries (fold (js_call (\<lambda>_. ''h'') L) [(E, CLog ''a'' ''x''), (E', CLog ''b'' ''x'')]
     (NewJSONSeqMonitor 1))) = [Some [(''id'', GString ''h'')]]"
  using assms
  by (auto simp: js_Log_def dict_with_origin_def NewJSONSeqMonitor_def NewContext_def WithOrigin_def Context_AsDict_def
      Context_ID_def jsonseq_def Let_def split: option.split)

end
