(* ===== verification/Output.thy ===== *)
theory Output
  imports BuildFacts Monitor Paths
begin

text \<open>
  \<^verbatim>\<open>build/output.go\<close> and \<^verbatim>\<open>build/source.go\<close>: the result of a build as the JSON document that is printed,
  and the download of the sources before it. The result map of \<open>Build\<close> is \<open>build_results\<close>; where the
  code ranges over it, the order of the entries is an argument.
\<close>

section \<open>What the monitor is told of a build\<close>

definition BuildResult_AsDict :: "golib \<Rightarrow> build_result \<Rightarrow> gobject" where
  "BuildResult_AsDict L r =
     [(''name'', GString (Stage_Name (br_Stage r))), (''id'', GString (Stage_ID L (br_Stage r))),
      (''success'', GBool (br_ReturnCode r = 0)), (''output'', GString (br_Output r)),
      (''error'', case br_Error r of None \<Rightarrow> GNil | Some e \<Rightarrow> GMap e)]"

definition DownloadResult_AsDict :: "golib \<Rightarrow> source \<Rightarrow> bool \<Rightarrow> string \<Rightarrow> gobject" where
  "DownloadResult_AsDict L s success outp =
     [(''name'', GString (Source_ModuleName s)), (''id'', GString (Source_ID L s)), (''success'', GBool success),
      (''output'', GString outp)]"

fun monitor_of_event :: "golib \<Rightarrow> mevent \<Rightarrow> mon_call" where
  "monitor_of_event L (EBegin p) = CBegin (MPipeline p)"
| "monitor_of_event L (EStage s) = CStage s"
| "monitor_of_event L (EResult r md) = CResult (br_Output r) (BuildResult_AsDict L r) md"
| "monitor_of_event L (EFinish name success) = CFinish [(''success'', GBool success), (''name'', GString name)]"

section \<open>Failure\<close>

definition bare_error :: gobject where
  "bare_error = [(''type'', GString ''error''), (''success'', GBool False)]"

definition failed_stage :: "golib \<Rightarrow> build_result \<Rightarrow> gobject" where
  "failed_stage L f =
     [(''id'', GString (Stage_ID L (br_Stage f))), (''type'', GString (Stage_Name (br_Stage f))),
      (''output'', GString (br_Output f)), (''error'', case br_Error f of None \<Rightarrow> GNil | Some e \<Rightarrow> GMap e)]"

text \<open>\<open>visit\<close> is the order in which the pipelines of the result map are visited: the last one is reported.\<close>

definition formatFailure :: "golib \<Rightarrow> (string \<times> pipeline_result) list \<Rightarrow> gobject" where
  "formatFailure L visit =
     (if visit = [] then bare_error
      else case pr_stages (snd (last visit)) of
             None \<Rightarrow> bare_error
           | Some stages \<Rightarrow>
               if stages = [] then bare_error
               else [(''type'', GString ''error''), (''success'', GBool False),
                     (''error'', GMap [(''type'', GString ''org.osbuild.error.stage''),
                        (''details'', GMap [(''stage'', GMap (failed_stage L (last stages)))])])])"

section \<open>Success\<close>

definition log_entry :: "golib \<Rightarrow> build_result \<Rightarrow> gval" where
  "log_entry L sr =
     GMap ([(''id'', GString (Stage_ID L (br_Stage sr))), (''type'', GString (Stage_Name (br_Stage sr))),
            (''output'', GString (br_Output sr))]
       @ (if Success sr then []
          else (''success'', GBool False) # (case br_Error sr of None \<Rightarrow> [] | Some e \<Rightarrow> [(''error'', GMap e)])))"

definition stage_metadata :: "senv \<Rightarrow> golib \<Rightarrow> sstore \<Rightarrow> object \<Rightarrow> stage list \<Rightarrow> gobject" where
  "stage_metadata E L st ob stages =
     fold (\<lambda>s data. case meta_Get (e_meta E) (meta_at st (ob_meta ob)) (Stage_ID L s) of
                      Inr (Some md) \<Rightarrow> gset (Stage_Name s) (GMap md) data
                    | _ \<Rightarrow> data) stages []"

definition pipeline_metadata :: "senv \<Rightarrow> golib \<Rightarrow> pipeline \<Rightarrow> sstore option \<Rightarrow> gobject \<Rightarrow> sstore option \<times> gobject" where
  "pipeline_metadata E L p st metadata =
     (case st of
        None \<Rightarrow> (None, metadata)
      | Some s \<Rightarrow>
          (case Get E s (Pipeline_ID L p) of
             (s1, Inr (Some a)) \<Rightarrow>
               (let data = stage_metadata E L s1 (s_heap s1 a) (pl_Stages p)
                in (Some s1, if data \<noteq> [] then gset (pl_Name p) (GMap data) metadata else metadata))
           | (s1, _) \<Rightarrow> (Some s1, metadata)))"

definition pipeline_log :: "golib \<Rightarrow> (string, pipeline_result) gmap \<Rightarrow> pipeline \<Rightarrow> gobject \<Rightarrow> gobject" where
  "pipeline_log L results p plog =
     (case map_of results (Pipeline_ID L p) of
        None \<Rightarrow> plog
      | Some r \<Rightarrow>
          (let entries = (case pr_stages r of None \<Rightarrow> [] | Some stages \<Rightarrow> map (log_entry L) stages)
           in if entries \<noteq> [] then gset (pl_Name p) (GSlice entries) plog else plog))"

fun format_pipelines ::
    "(nat \<Rightarrow> senv) \<Rightarrow> golib \<Rightarrow> (string, pipeline_result) gmap \<Rightarrow> nat \<Rightarrow> pipeline list \<Rightarrow> sstore option \<Rightarrow> gobject \<Rightarrow> gobject
     \<Rightarrow> sstore option \<times> gobject \<times> gobject" where
  "format_pipelines Es L results i [] st metadata plog = (st, metadata, plog)"
| "format_pipelines Es L results i (p # ps) st metadata plog =
     (let (st1, metadata1) = pipeline_metadata (Es i) L p st metadata
      in format_pipelines Es L results (Suc i) ps st1 metadata1 (pipeline_log L results p plog))"

definition formatSuccess ::
    "(nat \<Rightarrow> senv) \<Rightarrow> golib \<Rightarrow> manifest \<Rightarrow> (string, pipeline_result) gmap \<Rightarrow> sstore option \<Rightarrow> sstore option \<times> gobject" where
  "formatSuccess Es L m results st =
     (let (st1, metadata, plog) = format_pipelines Es L results 0 (mf_Pipelines m) st [] []
      in (st1, [(''type'', GString ''result''), (''success'', GBool True)]
            @ (if metadata \<noteq> [] then [(''metadata'', GMap metadata)] else [])
            @ (if plog \<noteq> [] then [(''log'', GMap plog)] else [])))"

definition FormatResult ::
    "(nat \<Rightarrow> senv) \<Rightarrow> golib \<Rightarrow> manifest \<Rightarrow> build_results \<Rightarrow> (string \<times> pipeline_result) list \<Rightarrow> sstore option
     \<Rightarrow> sstore option \<times> gobject" where
  "FormatResult Es L m results visit st =
     (if \<not> rs_success results then (st, formatFailure L visit)
      else formatSuccess Es L m (rs_pipelines results) st)"

section \<open>Sources\<close>

definition source_args :: "string \<Rightarrow> source \<Rightarrow> gobject" where
  "source_args store_root src =
     [(''items'', GMap (src_Items src)), (''options'', GMap (src_Options src)),
      (''cache'', GString (path_Join [store_root, ''sources''])), (''output'', GNil), (''checksums'', GSlice [])]"

text \<open>
  The manager of the sources: \<open>sm_start\<close> starts the service of a name and an executable, with the error
  when that fails; \<open>sm_call\<close> calls a method of it, with the error of the call.
\<close>

record source_mgr =
  sm_start :: "string \<Rightarrow> string \<Rightarrow> string option"
  sm_call :: "string \<Rightarrow> string \<Rightarrow> gobject \<Rightarrow> string option"

definition DownloadSource :: "source_mgr \<Rightarrow> string \<Rightarrow> source \<Rightarrow> string option" where
  "DownloadSource mg store_root src =
     (let name = ''source/'' @ src_Type src in
      case sm_start mg name (src_ExecPath src) of
        Some e \<Rightarrow> Some (''starting source service '' @ src_Type src @ '': '' @ e)
      | None \<Rightarrow>
          (case sm_call mg name ''download'' (source_args store_root src) of
             Some e \<Rightarrow> Some (''downloading source '' @ src_Type src @ '': '' @ e)
           | None \<Rightarrow> None))"

text \<open>The calls of the monitor, and the error; \<open>ctx i\<close> is the poll before the \<open>i\<close>-th source.\<close>

fun DownloadAll ::
    "(nat \<Rightarrow> string option) \<Rightarrow> source_mgr \<Rightarrow> golib \<Rightarrow> string \<Rightarrow> nat \<Rightarrow> source list \<Rightarrow> mon_call list \<times> string option" where
  "DownloadAll ctx mg L store_root i [] = ([], None)"
| "DownloadAll ctx mg L store_root i (src # srcs) =
     (case ctx i of
        Some e \<Rightarrow> ([], Some e)
      | None \<Rightarrow>
        (case DownloadSource mg store_root src of
           Some e \<Rightarrow> ([CBegin (MSource src), CResult e (DownloadResult_AsDict L src False e) None],
                     Some (''source '' @ src_Type src @ '': '' @ e))
         | None \<Rightarrow>
           (case DownloadAll ctx mg L store_root (Suc i) srcs of
              (calls, r) \<Rightarrow>
                ([CBegin (MSource src), CResult [] (DownloadResult_AsDict L src True []) None,
                  CFinish [(''name'', GString (Source_ModuleName src))]] @ calls, r))))"

end
