(* ===== verification/OutputFacts.thy ===== *)
theory OutputFacts
  imports Output ParseFacts Depsolve
begin

text \<open>
  The document printed for a build is JSON that can be encoded; what a failure reports; and how far
  the download of the sources gets.
\<close>

section \<open>Values that can be encoded\<close>

text \<open>At every depth the keys of an object are distinct and every number is finite.\<close>

inductive printable :: "gval \<Rightarrow> bool" where
  flat: "(\<forall>o'. v \<noteq> GMap o') \<Longrightarrow> (\<forall>xs. v \<noteq> GSlice xs) \<Longrightarrow> v \<noteq> GFloat FNaN \<Longrightarrow> (\<forall>b. v \<noteq> GFloat (FInf b)) \<Longrightarrow> printable v"
| object: "gmap_ok o' \<Longrightarrow> (\<forall>(k, v) \<in> set o'. printable v) \<Longrightarrow> printable (GMap o')"
| array: "(\<forall>v \<in> set xs. printable v) \<Longrightarrow> printable (GSlice xs)"

inductive_simps printable_map: "printable (GMap o')"
inductive_simps printable_slice: "printable (GSlice xs)"

lemma printable_leaves [simp]:
  "printable (GString s)" "printable (GBool b)" "printable GNil" "printable (GInt n)"
  by (auto intro: printable.flat)

lemma printable_Nil [simp]: "printable (GMap [])"
  by (simp add: printable_map)

lemma set_gset: "x \<in> set (gset k v m) \<Longrightarrow> x = (k, v) \<or> x \<in> set m"
  unfolding gset_def by (induction m) (auto split: if_splits)

lemma printable_gset: "printable (GMap m) \<Longrightarrow> printable v \<Longrightarrow> printable (GMap (gset k v m))"
  using set_gset by (fastforce simp: printable_map)

section \<open>Metadata in the store\<close>

definition meta_ok :: "sstore \<Rightarrow> bool" where
  "meta_ok st \<longleftrightarrow> (\<forall>p files k v. meta_at st p = Some files \<longrightarrow> map_of files k = Some (MJson v) \<longrightarrow> printable (GMap v))"

lemma meta_okD: "meta_ok st \<Longrightarrow> meta_Get ok (meta_at st p) k = Inr (Some v) \<Longrightarrow> printable (GMap v)"
  by (auto simp: meta_ok_def meta_Get_def split: option.splits if_splits mfile.splits)

lemma meta_ok_Get: "meta_ok st \<Longrightarrow> meta_ok (fst (Get E st i))"
proof -
  assume ok: "meta_ok st"
  have "meta_at (fst (Get E st i)) p = meta_at st p \<or> meta_at (fst (Get E st i)) p = Some []
    \<or> meta_at (fst (Get E st i)) p = None" for p
    by (cases p)
      (auto simp: Get_def Let_def alloc_def NewMetadata_def meta_at_def data_at_def split: option.splits)
  with ok show ?thesis unfolding meta_ok_def by (metis map_of.simps(1) option.distinct(1) option.inject)
qed

section \<open>The document\<close>

definition errors_ok :: "pipeline_result \<Rightarrow> bool" where
  "errors_ok r \<longleftrightarrow> (\<forall>ss s e. pr_stages r = Some ss \<longrightarrow> s \<in> set ss \<longrightarrow> br_Error s = Some e \<longrightarrow> printable (GMap e))"

lemma printable_failed_stage: "\<forall>e. br_Error f = Some e \<longrightarrow> printable (GMap e) \<Longrightarrow> printable (GMap (failed_stage L f))"
  by (auto simp: failed_stage_def printable_map gmap_ok_def split: option.split)

lemma printable_log_entry: "\<forall>e. br_Error f = Some e \<longrightarrow> printable (GMap e) \<Longrightarrow> printable (log_entry L f)"
  by (auto simp: log_entry_def printable_map gmap_ok_def split: option.split)

lemma printable_formatFailure:
  assumes "\<forall>(i, r) \<in> set visit. errors_ok r"
  shows "printable (GMap (formatFailure L visit))"
proof (cases visit rule: rev_cases)
  case (snoc xs x)
  obtain i r where x: "x = (i, r)" by (cases x)
  then have ok: "errors_ok r" using assms snoc by simp
  show ?thesis
  proof (cases "pr_stages r")
    case (Some ss)
    then have "printable (GMap e)" if "ss \<noteq> []" "br_Error (last ss) = Some e" for e
      using ok last_in_set [OF that(1)] that(2) unfolding errors_ok_def by blast
    then have "ss \<noteq> [] \<Longrightarrow> printable (GMap (failed_stage L (last ss)))"
      by (intro printable_failed_stage) blast
    then show ?thesis
      by (simp add: formatFailure_def snoc x Some bare_error_def printable_map gmap_ok_def)
  qed (simp add: formatFailure_def snoc x bare_error_def printable_map gmap_ok_def)
qed (simp add: formatFailure_def bare_error_def printable_map gmap_ok_def)

lemma printable_stage_metadata:
  assumes "meta_ok st"
  shows "printable (GMap (stage_metadata E L st ob ss))"
proof -
  have "printable (GMap data) \<Longrightarrow> printable (GMap (fold (\<lambda>s data. case meta_Get (e_meta E) (meta_at st (ob_meta ob)) (Stage_ID L s) of
        Inr (Some md) \<Rightarrow> gset (Stage_Name s) (GMap md) data | _ \<Rightarrow> data) ss data))" for data
    by (induction ss arbitrary: data) (auto simp: meta_okD [OF assms] printable_gset split: sum.split option.split)
  then show ?thesis by (simp add: stage_metadata_def)
qed

lemma format_pipelines_ok:
  assumes "format_pipelines Es L results i ps st md plog = (st', md', plog')"
    and "case st of None \<Rightarrow> True | Some s \<Rightarrow> meta_ok s" "printable (GMap md)" "printable (GMap plog)"
    and "\<forall>(i, r) \<in> set results. errors_ok r"
  shows "printable (GMap md') \<and> printable (GMap plog')"
  using assms(1-4)
proof (induction ps arbitrary: i st md plog)
  case (Cons p ps)
  obtain st1 md1 where m: "pipeline_metadata (Es i) L p st md = (st1, md1)" by fastforce
  have md: "(case st1 of None \<Rightarrow> True | Some s \<Rightarrow> meta_ok s) \<and> printable (GMap md1)"
  proof (cases st)
    case (Some s)
    obtain s1 q where g: "Get (Es i) s (Pipeline_ID L p) = (s1, q)" by fastforce
    then have s1: "meta_ok s1" using meta_ok_Get [of s "Es i" "Pipeline_ID L p"] Cons.prems(2) Some by simp
    with m g Some Cons.prems(3) show ?thesis
      by (auto simp: pipeline_metadata_def Let_def printable_gset printable_stage_metadata
          split: sum.splits option.splits if_splits)
  qed (use m Cons.prems(3) in \<open>auto simp: pipeline_metadata_def\<close>)
  have "printable (GMap (pipeline_log L results p plog))"
  proof -
    have "printable (GSlice (map (log_entry L) ss))" if "map_of results j = Some r" "pr_stages r = Some ss" for j r ss
      using assms(5) that by (fastforce simp: printable_slice errors_ok_def dest: map_of_SomeD intro: printable_log_entry)
    then show ?thesis
      using Cons.prems(4) by (auto simp: pipeline_log_def Let_def printable_gset split: option.split)
  qed
  from Cons.IH [OF _ _ _ this] md Cons.prems(1) m show ?case by simp
qed simp

text \<open>C37: What \<open>--json\<close> prints is a typed document that can be encoded: an object that says whether it is a
  result or an error and, alike, whether the build succeeded, whose keys are distinct and whose numbers
  are finite at every depth, when that holds of what stages reported and of the metadata in the store.\<close>

theorem FormatResult_typed:
  assumes "FormatResult Es L m rs visit (Some st) = (st', doc)" "set visit \<subseteq> set (rs_pipelines rs)"
    and "\<forall>(i, r) \<in> set (rs_pipelines rs). errors_ok r" "meta_ok st"
  shows "printable (GMap doc) \<and> map_of doc ''success'' = Some (GBool (rs_success rs))
    \<and> map_of doc ''type'' = Some (GString (if rs_success rs then ''result'' else ''error''))"
proof (cases "rs_success rs")
  case False
  then have doc: "doc = formatFailure L visit" using assms(1) by (simp add: FormatResult_def)
  have "printable (GMap doc)" unfolding doc using assms(2,3) by (intro printable_formatFailure) auto
  with False show ?thesis by (auto simp: doc formatFailure_def bare_error_def split: option.split)
next
  case True
  obtain st1 md plog where f: "format_pipelines Es L (rs_pipelines rs) 0 (mf_Pipelines m) (Some st) [] [] = (st1, md, plog)"
    by (metis prod_cases3)
  have ok: "printable (GMap md)" "printable (GMap plog)" using format_pipelines_ok [OF f] assms(3,4) by simp_all
  have doc: "doc = [(''type'', GString ''result''), (''success'', GBool True)]
      @ (if md \<noteq> [] then [(''metadata'', GMap md)] else []) @ (if plog \<noteq> [] then [(''log'', GMap plog)] else [])"
    using assms(1) True f by (simp add: FormatResult_def formatSuccess_def)
  with True ok show ?thesis by (auto simp: printable_map gmap_ok_def)
qed

definition demo_results :: build_results where
  "demo_results = \<lparr>rs_success = False, rs_pipelines =
     [(''i'', \<lparr>pr_success = True, pr_name = ''build'', pr_stages =
        Some [\<lparr>br_Stage = demo_stage NewOrderedMap, br_ReturnCode = 0, br_Output = [], br_Error = None\<rparr>]\<rparr>),
      (''j'', \<lparr>pr_success = False, pr_name = ''os'', pr_stages =
        Some [\<lparr>br_Stage = demo_stage NewOrderedMap, br_ReturnCode = 1, br_Output = ''no'', br_Error = Some [(''why'', GNil)]\<rparr>]\<rparr>)]\<rparr>"

theorem FormatResult_typed_witness:
  "\<exists>doc. FormatResult (\<lambda>_. demo_env) demo_lib demo_graph demo_results (rs_pipelines demo_results) (Some (bs_store demo_bstate))
      = (Some (bs_store demo_bstate), doc) \<and> printable (GMap doc)"
proof -
  have "meta_ok (bs_store demo_bstate)"
    by (auto simp: meta_ok_def meta_at_def data_at_def demo_bstate_def split: data_path.splits)
  moreover have "\<forall>(i, r) \<in> set (rs_pipelines demo_results). errors_ok r"
    by (simp add: demo_results_def errors_ok_def printable_map gmap_ok_def)
  moreover have "FormatResult (\<lambda>_. demo_env) demo_lib demo_graph demo_results (rs_pipelines demo_results) (Some (bs_store demo_bstate))
      = (Some (bs_store demo_bstate), formatFailure demo_lib (rs_pipelines demo_results))"
    by (simp add: FormatResult_def demo_results_def)
  ultimately show ?thesis using FormatResult_typed [OF _ subset_refl] by blast
qed

section \<open>What a failure reports\<close>

text \<open>The report of a failed build names the last stage of any pipeline in the results, as the map is
  visited: also that of a pipeline that succeeded, since the pipelines before the failed one are in the
  results too.\<close>

theorem formatFailure_any:
  assumes "(i, r) \<in> set (rs_pipelines rs)" "pr_stages r = Some ss" "ss \<noteq> []"
  shows "\<exists>visit. mset visit = mset (rs_pipelines rs)
    \<and> formatFailure L visit = [(''type'', GString ''error''), (''success'', GBool False),
        (''error'', GMap [(''type'', GString ''org.osbuild.error.stage''),
          (''details'', GMap [(''stage'', GMap (failed_stage L (last ss)))])])]"
proof (intro exI conjI)
  show "mset (remove1 (i, r) (rs_pipelines rs) @ [(i, r)]) = mset (rs_pipelines rs)" using assms(1) by simp
  show "formatFailure L (remove1 (i, r) (rs_pipelines rs) @ [(i, r)]) = [(''type'', GString ''error''), (''success'', GBool False),
        (''error'', GMap [(''type'', GString ''org.osbuild.error.stage''),
          (''details'', GMap [(''stage'', GMap (failed_stage L (last ss)))])])]"
    using assms(2,3) by (simp add: formatFailure_def)
qed

theorem formatFailure_any_witness:
  "\<exists>visit. mset visit = mset (rs_pipelines demo_results)
    \<and> map_of (formatFailure demo_lib visit) ''error'' = Some (GMap [(''type'', GString ''org.osbuild.error.stage''),
        (''details'', GMap [(''stage'', GMap (failed_stage demo_lib
           \<lparr>br_Stage = demo_stage NewOrderedMap, br_ReturnCode = 0, br_Output = [], br_Error = None\<rparr>))])])"
proof -
  let ?r = "\<lparr>pr_success = True, pr_name = ''build'', pr_stages =
        Some [\<lparr>br_Stage = demo_stage NewOrderedMap, br_ReturnCode = 0, br_Output = [], br_Error = None\<rparr>]\<rparr>"
  have "(''i'', ?r) \<in> set (rs_pipelines demo_results)" by (simp add: demo_results_def)
  from formatFailure_any [OF this, where L = demo_lib] show ?thesis by fastforce
qed

section \<open>Sources\<close>

definition begun :: "mon_call list \<Rightarrow> mon_module list" where
  "begun calls = concat (map (\<lambda>c. case c of CBegin md \<Rightarrow> [md] | _ \<Rightarrow> []) calls)"

text \<open>The sources are downloaded in order; without an error all were, otherwise those before the one that failed.\<close>

lemma DownloadAll_begun:
  assumes "DownloadAll ctx mg L store_root i srcs = (calls, r)"
  shows "\<exists>k \<le> length srcs. begun calls = map MSource (take k srcs)
    \<and> (r = None \<longrightarrow> k = length srcs \<and> (\<forall>s \<in> set srcs. DownloadSource mg store_root s = None))
    \<and> (\<forall>s \<in> set (butlast (take k srcs)). DownloadSource mg store_root s = None)"
  using assms
proof (induction srcs arbitrary: i calls r)
  case (Cons s srcs)
  show ?case
  proof (cases "ctx i")
    case None
    show ?thesis
    proof (cases "DownloadSource mg store_root s")
      case None
      obtain calls' r' where d: "DownloadAll ctx mg L store_root (Suc i) srcs = (calls', r')" by fastforce
      from Cons.IH [OF this] obtain k where k: "k \<le> length srcs" "begun calls' = map MSource (take k srcs)"
        "r' = None \<longrightarrow> k = length srcs \<and> (\<forall>s \<in> set srcs. DownloadSource mg store_root s = None)"
        "\<forall>s \<in> set (butlast (take k srcs)). DownloadSource mg store_root s = None" by blast
      with Cons.prems \<open>ctx i = None\<close> None d show ?thesis
        by (intro exI [of _ "Suc k"]) (auto simp: begun_def)
    next
      case (Some e)
      with Cons.prems \<open>ctx i = None\<close> show ?thesis by (intro exI [of _ 1]) (auto simp: begun_def)
    qed
  next
    case (Some e)
    with Cons.prems have "calls = []" "r = Some e" by simp_all
    then show ?thesis by (intro exI [of _ 0]) (simp add: begun_def)
  qed
qed (auto simp: begun_def)

end
