(* ===== verification/Flags.thy ===== *)
theory Flags
  imports GoStrings "HOL-Library.Word"
begin

text \<open>
  The options of the command: the flags \<^verbatim>\<open>cmd/osbuild/main.go\<close> defines, what the standard package
  \<^verbatim>\<open>flag\<close> makes of the arguments, and the log levels of \<^verbatim>\<open>internal/log/log.go\<close>.
\<close>

section \<open>Values\<close>

definition ParseBool :: "string \<Rightarrow> bool option" where
  "ParseBool s =
     (if s \<in> {''1'', ''t'', ''T'', ''TRUE'', ''true'', ''True''} then Some True
      else if s \<in> {''0'', ''f'', ''F'', ''FALSE'', ''false'', ''False''} then Some False
      else None)"

text \<open>\<open>strconv.ParseInt(s, 0, 64)\<close>: the base is in the prefix, and underscores may separate digits.\<close>

definition digit36 :: "char \<Rightarrow> nat option" where
  "digit36 c =
     (let n = of_char c in
      if 48 \<le> n \<and> n \<le> 57 then Some (n - 48)
      else if 97 \<le> n \<and> n \<le> 122 then Some (n - 87)
      else if 65 \<le> n \<and> n \<le> 90 then Some (n - 55)
      else None)"

definition int_base :: "string \<Rightarrow> nat \<times> string" where
  "int_base s =
     (if s \<noteq> [] \<and> hd s = CHR ''0'' then
        (if length s \<ge> 3 \<and> s ! 1 \<in> {CHR ''b'', CHR ''B''} then (2, drop 2 s)
         else if length s \<ge> 3 \<and> s ! 1 \<in> {CHR ''o'', CHR ''O''} then (8, drop 2 s)
         else if length s \<ge> 3 \<and> s ! 1 \<in> {CHR ''x'', CHR ''X''} then (16, drop 2 s)
         else (8, drop 1 s))
      else (10, s))"

fun digits_in :: "nat \<Rightarrow> string \<Rightarrow> nat \<Rightarrow> nat option" where
  "digits_in base [] n = Some n"
| "digits_in base (c # cs) n =
     (if c = CHR ''_'' then digits_in base cs n
      else case digit36 c of
             None \<Rightarrow> None
           | Some d \<Rightarrow> if d < base then digits_in base cs (n * base + d) else None)"

text \<open>An underscore has a digit, or the prefix, before it and a digit after it.\<close>

fun underscores_ok :: "bool \<Rightarrow> string \<Rightarrow> bool" where
  "underscores_ok after_digit [] = True"
| "underscores_ok after_digit (c # cs) =
     (if c = CHR ''_'' then after_digit \<and> cs \<noteq> [] \<and> hd cs \<noteq> CHR ''_'' \<and> underscores_ok False cs
      else underscores_ok True cs)"

definition ParseInt :: "string \<Rightarrow> int option" where
  "ParseInt s =
     (let neg = (s \<noteq> [] \<and> hd s = CHR ''-'');
          u = (if s \<noteq> [] \<and> hd s \<in> {CHR ''+'', CHR ''-''} then tl s else s)
      in if u = [] then None
         else
           let (base, body) = int_base u in
           (case digits_in base body 0 of
              None \<Rightarrow> None
            | Some n \<Rightarrow>
                if \<not> underscores_ok (length body < length u) body then None
                else let v = (if neg then - int n else int n)
                     in if min_int64 \<le> v \<and> v \<le> max_int64 then Some v else None))"

section \<open>The options\<close>

record flags =
  fl_inspect :: bool
  fl_libdir :: string
  fl_cache :: string
  fl_checkpoints :: "string list"
  fl_exports :: "string list"
  fl_outputDir :: string
  fl_json :: bool
  fl_monitor :: string
  fl_monitorFD :: int
  fl_stageTimeout :: int
  fl_quiet :: bool
  fl_cacheMaxSize :: string
  fl_logLevel :: string
  fl_version :: bool
  fl_args :: "string list"

definition default_flags :: flags where
  "default_flags = \<lparr>fl_inspect = False, fl_libdir = ''/usr/lib/osbuild'', fl_cache = ''.osbuild'', fl_checkpoints = [],
     fl_exports = [], fl_outputDir = [], fl_json = False, fl_monitor = [], fl_monitorFD = 1, fl_stageTimeout = 0,
     fl_quiet = False, fl_cacheMaxSize = [], fl_logLevel = [], fl_version = False, fl_args = []\<rparr>"

definition is_bool_flag :: "string \<Rightarrow> bool" where
  "is_bool_flag name \<longleftrightarrow> name \<in> {''inspect'', ''json'', ''quiet'', ''q'', ''version''}"

definition known_flag :: "string \<Rightarrow> bool" where
  "known_flag name \<longleftrightarrow> is_bool_flag name \<or> name \<in> {''libdir'', ''cache'', ''checkpoint'', ''export'', ''output-directory'',
     ''monitor'', ''monitor-fd'', ''stage-timeout'', ''cache-max-size'', ''log-level''}"

text \<open>\<open>Set\<close> of a flag; \<open>None\<close> is a value it does not take. \<open>-q\<close> sets \<open>quiet\<close> whatever its value is.\<close>

definition set_flag :: "string \<Rightarrow> string \<Rightarrow> flags \<Rightarrow> flags option" where
  "set_flag name v f =
     (if name = ''inspect'' then map_option (\<lambda>b. f\<lparr>fl_inspect := b\<rparr>) (ParseBool v)
      else if name = ''json'' then map_option (\<lambda>b. f\<lparr>fl_json := b\<rparr>) (ParseBool v)
      else if name = ''quiet'' then map_option (\<lambda>b. f\<lparr>fl_quiet := b\<rparr>) (ParseBool v)
      else if name = ''q'' then Some (f\<lparr>fl_quiet := True\<rparr>)
      else if name = ''version'' then map_option (\<lambda>b. f\<lparr>fl_version := b\<rparr>) (ParseBool v)
      else if name = ''libdir'' then Some (f\<lparr>fl_libdir := v\<rparr>)
      else if name = ''cache'' then Some (f\<lparr>fl_cache := v\<rparr>)
      else if name = ''checkpoint'' then Some (f\<lparr>fl_checkpoints := fl_checkpoints f @ [v]\<rparr>)
      else if name = ''export'' then Some (f\<lparr>fl_exports := fl_exports f @ [v]\<rparr>)
      else if name = ''output-directory'' then Some (f\<lparr>fl_outputDir := v\<rparr>)
      else if name = ''monitor'' then Some (f\<lparr>fl_monitor := v\<rparr>)
      else if name = ''monitor-fd'' then map_option (\<lambda>n. f\<lparr>fl_monitorFD := n\<rparr>) (ParseInt v)
      else if name = ''stage-timeout'' then map_option (\<lambda>n. f\<lparr>fl_stageTimeout := n\<rparr>) (ParseInt v)
      else if name = ''cache-max-size'' then Some (f\<lparr>fl_cacheMaxSize := v\<rparr>)
      else if name = ''log-level'' then Some (f\<lparr>fl_logLevel := v\<rparr>)
      else None)"

datatype flag_error = HelpAsked | BadSyntax string | NotDefined string | NeedsArgument string | BadValue string string

definition flag_name :: "string \<Rightarrow> string option" where
  "flag_name s =
     (let name = (if s ! 1 = CHR ''-'' then drop 2 s else drop 1 s)
      in if name = [] \<or> hd name \<in> {CHR ''-'', CHR ''=''} then None else Some name)"

definition put_flag :: "string \<Rightarrow> string \<Rightarrow> flags \<Rightarrow> flag_error + flags" where
  "put_flag name v f = (case set_flag name v f of None \<Rightarrow> Inl (BadValue name v) | Some f1 \<Rightarrow> Inr f1)"

text \<open>The flags come first; what follows them is kept as arguments.\<close>

fun parse_flags :: "string list \<Rightarrow> flags \<Rightarrow> flag_error + flags" where
  "parse_flags [] f = Inr (f\<lparr>fl_args := []\<rparr>)"
| "parse_flags (s # args) f =
     (if length s < 2 \<or> hd s \<noteq> CHR ''-'' then Inr (f\<lparr>fl_args := s # args\<rparr>)
      else if s = ''--'' then Inr (f\<lparr>fl_args := args\<rparr>)
      else
        (case flag_name s of
           None \<Rightarrow> Inl (BadSyntax s)
         | Some text \<Rightarrow>
             (case (case Cut CHR ''='' text of None \<Rightarrow> (text, None) | Some (n, v) \<Rightarrow> (n, Some v)) of
                (name, given) \<Rightarrow>
                  if \<not> known_flag name then Inl (if name \<in> {''help'', ''h''} then HelpAsked else NotDefined name)
                  else if is_bool_flag name
                  then bindR (put_flag name (case given of None \<Rightarrow> ''true'' | Some v \<Rightarrow> v) f) (parse_flags args)
                  else
                    (case given of
                       Some v \<Rightarrow> bindR (put_flag name v f) (parse_flags args)
                     | None \<Rightarrow>
                         (case args of
                            [] \<Rightarrow> Inl (NeedsArgument name)
                          | v # rest \<Rightarrow> bindR (put_flag name v f) (parse_flags rest))))))"

section \<open>Log levels\<close>

definition upper_char :: "char \<Rightarrow> char" where
  "upper_char c = (let n = of_char c in if 97 \<le> n \<and> n \<le> (122 :: nat) then char_of (n - 32) else c)"

text \<open>\<open>strings.ToUpper\<close> as far as the names of levels go: also the dotless i becomes \<open>I\<close>.\<close>

fun upper_name :: "string \<Rightarrow> string" where
  "upper_name [] = []"
| "upper_name [c] = [upper_char c]"
| "upper_name (c # d # cs) =
     (if c = CHR 0xC4 \<and> d = CHR 0xB1 then CHR ''I'' # upper_name cs else upper_char c # upper_name (d # cs))"

definition LevelTrace :: "64 word" where "LevelTrace = of_int (- 8)"

definition slog_level :: "string \<Rightarrow> int option" where
  "slog_level name =
     (let u = upper_name name in
      if u = ''DEBUG'' then Some (- 4) else if u = ''INFO'' then Some 0
      else if u = ''WARN'' then Some 4 else if u = ''ERROR'' then Some 8 else None)"

definition sign_char :: "char \<Rightarrow> bool" where
  "sign_char c \<longleftrightarrow> c = CHR ''+'' \<or> c = CHR ''-''"

definition ParseLevel :: "string \<Rightarrow> (64 word) option" where
  "ParseLevel s =
     (if map upper_char s = ''TRACE'' then Some LevelTrace
      else
        let name = takeWhile (Not \<circ> sign_char) s; offset = dropWhile (Not \<circ> sign_char) s in
        if offset \<noteq> [] \<and> \<not> Atoi_ok offset then None
        else map_option (\<lambda>l. of_int (l + (if offset = [] then 0 else Atoi_val offset))) (slog_level name))"

text \<open>How a level is printed: \<open>None\<close> is the default of the handler.\<close>

definition ReplaceLevelAttr :: "string \<Rightarrow> (64 word) option \<Rightarrow> string option" where
  "ReplaceLevelAttr key level = (if key = ''level'' \<and> level = Some LevelTrace then Some ''TRACE'' else None)"

text \<open>What is accepted beside the levels the message names.\<close>

lemma ParseLevel_accepts:
  "ParseLevel ''error'' = Some 8" "ParseLevel ''info+2'' = Some 2" "ParseLevel ''Trace'' = Some LevelTrace"
  "ParseLevel ''trace+1'' = None" "ParseLevel ''verbose'' = None"
  by code_simp+

text \<open>The value given to \<open>-q\<close> is ignored.\<close>

lemma q_false_is_quiet: "parse_flags [''-q=false'', ''m.json''] default_flags = Inr (default_flags\<lparr>fl_quiet := True, fl_args := [''m.json'']\<rparr>)"
  by code_simp

lemma demo_arguments:
  "parse_flags [''--export'', ''os'', ''-json'', ''--stage-timeout=0x10'', ''m.json'', ''-q''] default_flags =
     Inr (default_flags\<lparr>fl_exports := [''os''], fl_json := True, fl_stageTimeout := 16, fl_args := [''m.json'', ''-q'']\<rparr>)"
  by code_simp

end
