(* ===== verification/Cli.thy ===== *)
theory Cli
  imports Flags Validate Checkpoint Describe BuildOrder Output
begin

text \<open>
  \<^verbatim>\<open>cmd/osbuild/main.go\<close>: one invocation of the command, from its arguments to its exit code. The
  environment says what is in the files it reads, what the store directory holds, and which system
  calls succeed. \<open>None\<close> is a run that does not come back, because the solver loops for ever.
\<close>

section \<open>Environment and outcome\<close>

datatype cli_poll = PollValidate | PollParse | PollDepsolve | PollDownload | PollBuild

datatype cli_phase = AtOpen | AtLimit | AtExport nat | AtFormat nat

record cli_env =
  ce_open :: "string \<Rightarrow> bool"
  ce_decode :: "string \<Rightarrow> string + gobject"
  ce_vctx :: "string \<Rightarrow> vctx"
  ce_api :: "string \<Rightarrow> registry_api"
  ce_poll :: "cli_poll \<Rightarrow> nat \<Rightarrow> string option"
  ce_encode :: "gobject \<Rightarrow> bool"
  ce_fuel :: nat
  ce_disk :: "string \<Rightarrow> sstore"
  ce_root :: "string \<Rightarrow> string"
  ce_at :: "cli_phase \<Rightarrow> senv"
  ce_sources :: "string \<Rightarrow> source_mgr"
  ce_stages :: "string \<Rightarrow> int option \<Rightarrow> nat \<Rightarrow> benv"
  ce_mkdir :: "string \<Rightarrow> bool"
  ce_dirs :: "string \<Rightarrow> dirtree"
  ce_visit :: "(string, pipeline_result) gmap \<Rightarrow> (string \<times> pipeline_result) list"
  ce_marks :: "string set \<Rightarrow> string list"
  ce_dig :: "gval \<Rightarrow> string"
  ce_mon :: "nat \<Rightarrow> mon_env \<times> log_env"

datatype cli_error = BadFlags flag_error | BadLogLevel string | Usage | OpenFailed string | NotJSON string
  | InvalidManifest vresult | ParseFailed parse_error | UnknownExport string | NoCheckpoints | NotEncoded
  | NoOutputDirectory | StoreFailed serror | BadSize string | SizeFailed serror | DepsolveFailed string
  | NoMonitor string | SourcesFailed string | BuildFailed berror | ExportFailed string berror

datatype printed = PText string | PJSON gobject

text \<open>
  \<open>oc_error\<close> is the error that ended the run, whose message is not in \<open>oc_stderr\<close>. \<open>oc_store\<close> is what is on disk in the end, when the store
  was opened, \<open>oc_dirs\<close> the directories exported to, \<open>oc_monitor\<close> the monitor, when there was one.
\<close>

record outcome =
  oc_code :: int
  oc_error :: "cli_error option"
  oc_store :: "sstore option"
  oc_dirs :: "string \<Rightarrow> dirtree"
  oc_monitor :: "monitor option"
  oc_stdout :: "printed list"
  oc_stderr :: "string list"

text \<open>A panic of Go ends the process with status 2.\<close>

definition exit_code :: "cli_error \<Rightarrow> int" where
  "exit_code e = (case e of
     BadFlags HelpAsked \<Rightarrow> 0
   | BadFlags _ \<Rightarrow> 2
   | BadLogLevel _ \<Rightarrow> 2
   | Usage \<Rightarrow> 2
   | InvalidManifest _ \<Rightarrow> 2
   | ParseFailed p \<Rightarrow> (case p of Panic _ \<Rightarrow> 2 | _ \<Rightarrow> 1)
   | BadSize _ \<Rightarrow> 2
   | SizeFailed s \<Rightarrow> (case s of PanicNilMap \<Rightarrow> 2 | _ \<Rightarrow> 1)
   | _ \<Rightarrow> 1)"

definition idle_outcome :: "cli_env \<Rightarrow> outcome" where
  "idle_outcome E = \<lparr>oc_code = 0, oc_error = None, oc_store = None, oc_dirs = ce_dirs E, oc_monitor = None,
     oc_stdout = [], oc_stderr = []\<rparr>"

definition failed :: "cli_error \<Rightarrow> outcome \<Rightarrow> outcome" where
  "failed e oc = oc\<lparr>oc_code := exit_code e, oc_error := Some e\<rparr>"

section \<open>Before anything is opened\<close>

text \<open>The manifest of a path, decoded.\<close>

definition load_manifest :: "cli_env \<Rightarrow> flags \<Rightarrow> cli_error + string \<times> gobject" where
  "load_manifest E f =
     (let path = (case fl_args f of [] \<Rightarrow> [] | a # _ \<Rightarrow> a) in
      if path = [] then Inl Usage
      else if path \<noteq> ''-'' \<and> \<not> ce_open E path then Inl (OpenFailed path)
      else case ce_decode E path of Inl e \<Rightarrow> Inl (NotJSON e) | Inr desc \<Rightarrow> Inr (path, desc))"

definition check_manifest :: "golib \<Rightarrow> cli_env \<Rightarrow> flags \<Rightarrow> gobject \<Rightarrow> cli_error + manifest" where
  "check_manifest L E f desc =
     (let vr = Validate (ce_vctx E (fl_libdir f)) (ce_poll E PollValidate) desc in
      if \<not> Valid vr then Inl (InvalidManifest vr)
      else case Parse L (ce_poll E PollParse) (ce_api E (fl_libdir f)) desc of
             Inl e \<Rightarrow> Inl (ParseFailed e)
           | Inr m \<Rightarrow> Inr m)"

fun unknown_export :: "golib \<Rightarrow> manifest \<Rightarrow> string list \<Rightarrow> string option" where
  "unknown_export L m [] = None"
| "unknown_export L m (e # es) =
     (case (case Pipeline_lookup m e of Some p \<Rightarrow> Some p | None \<Rightarrow> PipelineByID L m e) of
        None \<Rightarrow> Some e
      | Some _ \<Rightarrow> unknown_export L m es)"

text \<open>The path of the manifest, the manifest with its checkpoints marked, and the IDs marked.\<close>

definition prepare :: "golib \<Rightarrow> cli_env \<Rightarrow> flags \<Rightarrow> cli_error + string \<times> manifest \<times> string set" where
  "prepare L E f =
     (if fl_logLevel f \<noteq> [] \<and> ParseLevel (fl_logLevel f) = None then Inl (BadLogLevel (fl_logLevel f))
      else
        (case load_manifest E f of
           Inl e \<Rightarrow> Inl e
         | Inr (path, desc) \<Rightarrow>
             (case check_manifest L E f desc of
                Inl e \<Rightarrow> Inl e
              | Inr m \<Rightarrow>
                  (case unknown_export L m (fl_exports f) of
                     Some e \<Rightarrow> Inl (UnknownExport e)
                   | None \<Rightarrow>
                       if fl_checkpoints f = [] then Inr (path, m, {})
                       else
                         (case MarkCheckpoints L m (fl_checkpoints f) of
                            (m1, marked) \<Rightarrow> if marked = {} then Inl NoCheckpoints else Inr (path, m1, marked))))))"

section \<open>The work\<close>

definition tell :: "golib \<Rightarrow> cli_env \<Rightarrow> mon_call list \<Rightarrow> monitor \<times> nat \<Rightarrow> monitor \<times> nat" where
  "tell L E calls mn = fold (\<lambda>c (mon, n). (monitor_call (ce_dig E) L (ce_mon E n) c mon, Suc n)) calls mn"

definition set_limit :: "cli_env \<Rightarrow> flags \<Rightarrow> sstore \<Rightarrow> sstore \<times> cli_error option" where
  "set_limit E f st =
     (if fl_cacheMaxSize f = [] then (st, None)
      else
        (case ParseSize (fl_cacheMaxSize f) of
           Inl e \<Rightarrow> (st, Some (BadSize e))
         | Inr n \<Rightarrow>
             (case SetMaximumSize (ce_at E AtLimit) st (sint n) of
                (st1, Some e) \<Rightarrow> (st1, Some (SizeFailed e))
              | (st1, None) \<Rightarrow> (st1, None))))"

definition planned :: "manifest \<Rightarrow> string list \<Rightarrow> string list" where
  "planned m names = (if names = [] then map pl_Name (mf_Pipelines m) else names)"

definition monitor_name :: "flags \<Rightarrow> string" where
  "monitor_name f =
     (if fl_monitor f \<noteq> [] then fl_monitor f
      else if fl_json f \<or> fl_quiet f then ''NullMonitor'' else ''LogMonitor'')"

definition stage_timeout :: "flags \<Rightarrow> int option" where
  "stage_timeout f = (if fl_stageTimeout f > 0 then Some (fl_stageTimeout f) else None)"

definition main_log :: "string \<Rightarrow> mon_call" where
  "main_log message = CLog (message @ nl) ''osbuild.main_cli''"

fun export_all ::
    "cli_env \<Rightarrow> golib \<Rightarrow> manifest \<Rightarrow> string \<Rightarrow> nat \<Rightarrow> string list \<Rightarrow> sstore \<Rightarrow> (string \<Rightarrow> dirtree)
     \<Rightarrow> sstore \<times> (string \<Rightarrow> dirtree) \<times> cli_error option" where
  "export_all E L m outputDir i [] st dirs = (st, dirs, None)"
| "export_all E L m outputDir i (e # es) st dirs =
     (let dest = path_Join [outputDir, e] in
      case Export (ce_at E (AtExport i)) L m e (ce_mkdir E dest) (dirs dest) st of
        (st1, Inl err) \<Rightarrow> (st1, dirs, Some (ExportFailed e err))
      | (st1, Inr dir) \<Rightarrow> export_all E L m outputDir (Suc i) es st1 (dirs(dest := dir)))"

section \<open>What is printed\<close>

function rune_count :: "string \<Rightarrow> nat" where
  "rune_count s = (if s = [] then 0 else Suc (rune_count (drop (max 1 (rune_width s)) s)))"
  by auto

termination
  by (relation "measure length") (auto simp: diff_less)

declare rune_count.simps [simp del]

definition pad_right :: "nat \<Rightarrow> string \<Rightarrow> string" where
  "pad_right n s = s @ replicate (n - rune_count s) CHR '' ''"

definition pipeline_line :: "golib \<Rightarrow> pipeline \<Rightarrow> string" where
  "pipeline_line L p = ''  '' @ pad_right 10 (pl_Name p @ '':'') @ [CHR 9] @ Pipeline_ID L p @ nl"

definition checkpoint_line :: "sstore \<Rightarrow> string \<Rightarrow> string" where
  "checkpoint_line st i = ''  '' @ i @ (if Contains st i then '': cached'' else '': not cached'') @ nl"

definition summary :: "golib \<Rightarrow> cli_env \<Rightarrow> manifest \<Rightarrow> string set \<Rightarrow> sstore \<Rightarrow> string list" where
  "summary L E m marked st =
     [nl @ ''Pipelines'' @ nl] @ map (pipeline_line L) (mf_Pipelines m)
     @ (if marked \<noteq> {} then [nl @ ''Checkpoints'' @ nl] @ map (checkpoint_line st) (ce_marks E marked) else [])"

text \<open>After the build: the exports, the result, and the exit code.\<close>

definition finish :: "golib \<Rightarrow> cli_env \<Rightarrow> flags \<Rightarrow> manifest \<Rightarrow> string set \<Rightarrow> build_results \<Rightarrow> sstore \<Rightarrow> outcome \<Rightarrow> sstore \<times> outcome" where
  "finish L E f m marked rs st oc =
     (let (st1, dirs, err) =
            (if rs_success rs then export_all E L m (fl_outputDir f) 0 (fl_exports f) st (oc_dirs oc)
             else (st, oc_dirs oc, None));
          oc1 = oc\<lparr>oc_dirs := dirs\<rparr>; code = (if rs_success rs then 0 else 1)
      in case err of
           Some e \<Rightarrow> (st1, failed e oc1)
         | None \<Rightarrow>
             if fl_json f
             then (case FormatResult (\<lambda>i. ce_at E (AtFormat i)) L m rs (ce_visit E (rs_pipelines rs)) (Some st1) of
                     (st2, doc) \<Rightarrow>
                       if ce_encode E doc then (the st2, oc1\<lparr>oc_code := code, oc_stdout := [PJSON doc]\<rparr>)
                       else (the st2, failed NotEncoded oc1))
             else (st1, oc1\<lparr>oc_code := code,
                     oc_stderr := (if fl_quiet f then []
                                   else if rs_success rs then summary L E m marked st1 else [''Failed'' @ nl])\<rparr>))"

text \<open>From the opened store on: the store before it is closed, and the outcome.\<close>

definition work :: "golib \<Rightarrow> cli_env \<Rightarrow> flags \<Rightarrow> string \<Rightarrow> manifest \<Rightarrow> string set \<Rightarrow> sstore \<Rightarrow> (sstore \<times> outcome) option" where
  "work L E f path m marked st =
     (case set_limit E f st of
        (st1, Some e) \<Rightarrow> Some (st1, failed e (idle_outcome E))
      | (st1, None) \<Rightarrow>
        (case Depsolve (ce_fuel E) L (ce_poll E PollDepsolve) m (Contains st1) (fl_exports f) of
           None \<Rightarrow> None
         | Some (Inl e) \<Rightarrow> Some (st1, failed (DepsolveFailed e) (idle_outcome E))
         | Some (Inr names) \<Rightarrow>
           (let pipelines = planned m names in
            case Make_monitor (monitor_name f) (int (length (mf_Sources m) + length pipelines)) of
              Inl e \<Rightarrow> Some (st1, failed (NoMonitor e) (idle_outcome E))
            | Inr mon \<Rightarrow>
              (let mn1 = tell L E [main_log (''starting '' @ path)] (mon, 0);
                   (calls, down) = DownloadAll (ce_poll E PollDownload) (ce_sources E (fl_libdir f)) L (ce_root E (fl_cache f)) 0 (mf_Sources m);
                   mn2 = tell L E calls mn1
               in case down of
                    Some e \<Rightarrow> Some (st1, failed (SourcesFailed e) ((idle_outcome E)\<lparr>oc_monitor := Some (fst mn2)\<rparr>))
                  | None \<Rightarrow>
                    (let (b, r) = Build (ce_poll E PollBuild) (ce_stages E (fl_libdir f) (stage_timeout f)) L m st1 pipelines;
                         mn3 = tell L E (map (monitor_of_event L) (bs_events b)) mn2
                     in case r of
                          Inl e \<Rightarrow> Some (bs_store b, failed (BuildFailed e) ((idle_outcome E)\<lparr>oc_monitor := Some (fst mn3)\<rparr>))
                        | Inr rs \<Rightarrow>
                          (let mn4 = tell L E [main_log (''manifest '' @ path @ (if rs_success rs then '' finished successfully'' else '' failed''))] mn3
                           in Some (finish L E f m marked rs (bs_store b) ((idle_outcome E)\<lparr>oc_monitor := Some (fst mn4)\<rparr>))))))))"

section \<open>An invocation\<close>

definition version_text :: string where
  "version_text = ''osbuild (image-assembler) 0.1.0'' @ nl"

definition run_flags :: "golib \<Rightarrow> cli_env \<Rightarrow> flags \<Rightarrow> outcome option" where
  "run_flags L E f =
     (if fl_version f then Some ((idle_outcome E)\<lparr>oc_stdout := [PText version_text]\<rparr>)
      else
        (case prepare L E f of
           Inl e \<Rightarrow> Some (failed e (idle_outcome E))
         | Inr (path, m, marked) \<Rightarrow>
             if fl_inspect f
             then (let doc = Describe L m True in
                   Some (if ce_encode E doc then (idle_outcome E)\<lparr>oc_stdout := [PJSON doc]\<rparr> else failed NotEncoded (idle_outcome E)))
             else if fl_exports f \<noteq> [] \<and> fl_outputDir f = [] then Some (failed NoOutputDirectory (idle_outcome E))
             else
               (case Open (ce_at E AtOpen) (ce_disk E (fl_cache f)) False of
                  Inl e \<Rightarrow> Some (failed (StoreFailed e) (idle_outcome E))
                | Inr st \<Rightarrow> map_option (\<lambda>(st1, oc). oc\<lparr>oc_store := Some (Close st1)\<rparr>) (work L E f path m marked st))))"

definition run :: "golib \<Rightarrow> cli_env \<Rightarrow> string list \<Rightarrow> outcome option" where
  "run L E args =
     (case parse_flags args default_flags of
        Inl e \<Rightarrow> Some (failed (BadFlags e) (idle_outcome E))
      | Inr f \<Rightarrow> run_flags L E f)"

end
