(* ===== verification/BuildHeap.thy ===== *)
theory BuildHeap
  imports BuildSound
begin

text \<open>
  What a build does to the objects the store has in memory, and that a successful one leaves all of
  them readable.
\<close>

section \<open>Objects in memory\<close>

text \<open>
  What the operations of a build do to the objects in memory: all but the one being built stay what
  they are, new ones lie in the cache, and the one being built is not moved to a stage directory.
\<close>

definition heap_step :: "nat \<Rightarrow> sstore \<Rightarrow> sstore \<Rightarrow> bool" where
  "heap_step a st st' \<longleftrightarrow> s_objs st' = s_objs st \<and> s_next st \<le> s_next st'
     \<and> (\<forall>b. b < s_next st \<longrightarrow> b \<noteq> a \<longrightarrow> s_heap st' b = s_heap st b)
     \<and> (\<forall>b u. ob_path (s_heap st' b) = InStage u \<longrightarrow> s_next st \<le> b \<longrightarrow> b < s_next st' \<longrightarrow> False)
     \<and> (\<forall>u. ob_path (s_heap st' a) = InStage u \<longrightarrow> a < s_next st \<longrightarrow> ob_path (s_heap st a) = InStage u)"

lemma heap_stepI:
  assumes "s_objs st' = s_objs st" "s_next st \<le> s_next st'"
    and "\<And>b. b < s_next st \<Longrightarrow> b \<noteq> a \<Longrightarrow> s_heap st' b = s_heap st b"
    and "\<And>b u. s_next st \<le> b \<Longrightarrow> b < s_next st' \<Longrightarrow> ob_path (s_heap st' b) \<noteq> InStage u"
    and "\<And>u. ob_path (s_heap st' a) = InStage u \<Longrightarrow> a < s_next st \<Longrightarrow> ob_path (s_heap st a) = InStage u"
  shows "heap_step a st st'"
  using assms unfolding heap_step_def by blast

lemma heap_stepD:
  assumes "heap_step a st st'"
  shows "s_objs st' = s_objs st" "s_next st \<le> s_next st'"
    "b < s_next st \<Longrightarrow> b \<noteq> a \<Longrightarrow> s_heap st' b = s_heap st b"
    "s_next st \<le> b \<Longrightarrow> b < s_next st' \<Longrightarrow> ob_path (s_heap st' b) \<noteq> InStage u"
    "ob_path (s_heap st' a) = InStage u \<Longrightarrow> a < s_next st \<Longrightarrow> ob_path (s_heap st a) = InStage u"
  using assms unfolding heap_step_def by blast+

lemma heap_step_same: "s_objs st' = s_objs st \<Longrightarrow> s_next st' = s_next st \<Longrightarrow> s_heap st' = s_heap st \<Longrightarrow> heap_step a st st'"
  by (simp add: heap_step_def)

lemma heap_step_refl [simp]: "heap_step a st st"
  by (simp add: heap_step_same)

lemma heap_step_trans:
  assumes "heap_step a st st1" "heap_step a st1 st2" "a < s_next st"
  shows "heap_step a st st2"
proof (rule heap_stepI)
  note 1 = heap_stepD [OF assms(1)] and 2 = heap_stepD [OF assms(2)]
  show "s_objs st2 = s_objs st" "s_next st \<le> s_next st2" using 1(1,2) 2(1,2) by simp_all
  show "s_heap st2 b = s_heap st b" if "b < s_next st" "b \<noteq> a" for b
    using 1(2) 1(3) [OF that] 2(3) [of b] that by simp
  show "ob_path (s_heap st2 b) \<noteq> InStage u" if "s_next st \<le> b" "b < s_next st2" for b u
  proof (cases "b < s_next st1")
    case True
    then have "s_heap st2 b = s_heap st1 b" using assms(3) that(1) by (intro 2(3)) simp_all
    then show ?thesis using 1(4) [OF that(1) True] by simp
  next
    case False
    then show ?thesis using 2(4) [OF _ that(2)] by simp
  qed
  show "ob_path (s_heap st a) = InStage u" if "ob_path (s_heap st2 a) = InStage u" "a < s_next st" for u
    using 1(5) [OF 2(5) [OF that(1)]] 1(2) that(2) by simp
qed

lemma heap_step_Get: "heap_step a st (fst (Get E st i))"
proof -
  have "ob_path (s_heap (fst (Get E st i)) b) \<noteq> InStage u" if "s_next st \<le> b" "b < s_next (fst (Get E st i))" for b u
    using that by (auto simp: Get_def Let_def alloc_def case_prod_beta split: option.splits if_splits)
  then show ?thesis by (intro heap_stepI) (simp_all add: Get_heap)
qed

lemma Object_Init_heap: "Object_Init E st a base = (st', e) \<Longrightarrow> s_objs st' = s_objs st \<and> s_next st' = s_next st \<and> s_heap st' = s_heap st"
  by (auto simp: Object_Init_def Let_def split: if_splits option.splits)

lemma Object_Close_heap: "s_objs (Object_Close a st) = s_objs st" "s_next (Object_Close a st) = s_next st"
  "s_heap (Object_Close a st) = s_heap st"
  by (simp_all add: Object_Close_def Let_def split: option.split)

lemma heap_step_Close: "heap_step a st (Object_Close a st)"
  by (simp add: heap_step_same Object_Close_heap)

lemma heap_step_closed: "heap_step a st st1 \<Longrightarrow> a < s_next st \<Longrightarrow> heap_step a st (Object_Close a st1)"
  using heap_step_Close heap_step_trans by blast

lemma walk_back_heap:
  assumes "walk_back B L stages a i todo st = (st', r)" "a < s_next st"
  shows "heap_step a st st'"
  using assms
proof (induction i arbitrary: todo st)
  case (Suc i)
  obtain st1 q where g: "Get (be_at B (AtWalk i)) st (Stage_ID L (stages ! i)) = (st1, q)" by fastforce
  have h: "heap_step a st st1" using heap_step_Get [of a st "be_at B (AtWalk i)" "Stage_ID L (stages ! i)"] g by simp
  then have a: "a < s_next st1" using Suc.prems(2) by (simp add: heap_step_def)
  have more: "heap_step a st st'" if "walk_back B L stages a i todo' st1 = (st', r)" for todo'
    using heap_step_trans [OF h Suc.IH [OF that a] Suc.prems(2)] .
  show ?case
  proof (cases q)
    case (Inl e)
    with Suc.prems g h show ?thesis by (auto intro: heap_step_closed)
  next
    case (Inr o1)
    show ?thesis
    proof (cases o1)
      case None
      with Suc.prems(1) g Inr more show ?thesis by simp
    next
      case (Some base)
      obtain st2 e where i: "Object_Init (be_at B (AtInit i)) st1 a base = (st2, e)" by fastforce
      have "heap_step a st1 st2" using Object_Init_heap [OF i] by (simp add: heap_step_same)
      then have h2: "heap_step a st st2" using h Suc.prems(2) by (blast intro: heap_step_trans)
      with Suc.prems g Inr Some i more show ?thesis
        by (cases e) (auto split: if_splits intro: heap_step_closed)
    qed
  qed
qed simp

lemma run_stage_heap:
  assumes "run_stage B L p bt a i b = (b1, r)"
  shows "s_objs (bs_store b1) = s_objs (bs_store b) \<and> s_next (bs_store b1) = s_next (bs_store b)
    \<and> s_heap (bs_store b1) = s_heap (bs_store b)"
proof -
  have sw: "s_objs (stage_writes ob t st) = s_objs st" "s_next (stage_writes ob t st) = s_next st"
    "s_heap (stage_writes ob t st) = s_heap st" for ob t st
    by (simp_all add: stage_writes_def split: option.split)
  have cw: "s_objs (close_writer E ob w st) = s_objs st" "s_next (close_writer E ob w st) = s_next st"
    "s_heap (close_writer E ob w st) = s_heap st" for E ob w st
    by (simp_all add: close_writer_def split: option.split)
  show ?thesis
    using assms by (auto simp: run_stage_def Let_def Object_Close_heap sw cw split: option.splits sum.splits prod.splits)
qed

lemma heap_step_Commit:
  assumes "Commit E st a i = (st', e)"
  shows "heap_step a st st'"
proof -
  define st0 where "st0 = fst (clamp_object E st (s_heap st a))"
  have 0: "s_objs st0 = s_objs st" "s_next st0 = s_next st" "s_heap st0 = s_heap st"
    by (simp_all add: st0_def)
  have put: "s_heap (put_object i od s) = s_heap s" "s_next (put_object i od s) = s_next s" "s_objs (put_object i od s) = s_objs s" for od s
    by (simp_all add: put_object_def)
  have fin: "heap_step a s (commit_finish E (put_object i od s) a i n)" for s od n
    by (auto simp: heap_step_def put)
  have "heap_step a st0 st' \<or> st' = st"
    using assms unfolding Commit_def Let_def st0_def [symmetric]
    by (auto simp: heap_step_same put split: if_splits option.splits intro: fin)
  moreover have "heap_step a st0 st' \<Longrightarrow> heap_step a st st'" by (simp add: heap_step_def 0)
  ultimately show ?thesis by auto
qed

lemma run_stages_heap:
  assumes "run_stages B L p bt a todo results b = (b', Inr (True, rs))" "a < s_next (bs_store b)"
  shows "heap_step a (bs_store b) (bs_store b')"
  using assms
proof (induction todo arbitrary: results b)
  case (Cons i todo)
  obtain b1 q where q: "run_stage B L p bt a i b = (b1, q)" by fastforce
  have 1: "heap_step a (bs_store b) (bs_store b1)" using run_stage_heap [OF q] by (simp add: heap_step_same)
  then have a1: "a < s_next (bs_store b1)" using Cons.prems(2) heap_stepD(2) by fastforce
  obtain res where res: "q = Inr res" "Success res" using Cons.prems(1) q by (cases q) (auto split: if_splits)
  show ?case
  proof (cases "st_Checkpoint (pl_Stages p ! i)")
    case True
    obtain st2 e where c: "Commit (be_at B (AtStage i)) (bs_store b1) a (Stage_ID L (pl_Stages p ! i)) = (st2, e)" by fastforce
    then have "heap_step a (bs_store b1) st2" by (rule heap_step_Commit)
    then have 2: "heap_step a (bs_store b) st2" "a < s_next st2"
      using 1 Cons.prems(2) a1 heap_stepD(2) by (blast intro: heap_step_trans, fastforce)
    have "run_stages B L p bt a todo (results @ [res]) (with_store st2 b1) = (b', Inr (True, rs))"
      using Cons.prems(1) q res True c by (cases e) simp_all
    from Cons.IH [OF this] 2 Cons.prems(2) show ?thesis by (auto intro: heap_step_trans)
  next
    case False
    have "run_stages B L p bt a todo (results @ [res]) b1 = (b', Inr (True, rs))" using Cons.prems(1) q res False by simp
    from Cons.IH [OF this a1] 1 Cons.prems(2) show ?thesis by (auto intro: heap_step_trans)
  qed
qed simp

lemma build_in_heap:
  assumes "build_in B L p bt a b = (b', Inr res)" "pr_success res" "a < s_next (bs_store b)"
  shows "heap_step a (bs_store b) (bs_store b') \<and> ob_mode (s_heap (bs_store b') a) = ModeRead"
proof -
  obtain st1 todo where w: "walk_back B L (pl_Stages p) a (length (pl_Stages p)) [] (bs_store b) = (st1, Inr todo)"
    using assms(1) by (auto simp: build_in_def split: prod.splits sum.splits)
  have 1: "heap_step a (bs_store b) st1" using walk_back_heap [OF w assms(3)] .
  then have a1: "a < s_next st1" using assms(3) heap_stepD(2) by fastforce
  obtain b2 rs where r: "run_stages B L p bt a (rev todo) [] (with_store st1 b) = (b2, Inr (True, rs))"
    using assms(1,2) w by (auto simp: build_in_def split: prod.splits sum.splits bool.splits)
  have 2: "heap_step a st1 (bs_store b2)" using run_stages_heap [OF r] a1 by simp
  obtain st3 where f: "Object_Finalize (be_at B AtFinalize) (bs_store b2) a = (st3, None)" "bs_store b' = st3"
    using assms(1,2) w r by (auto simp: build_in_def split: prod.splits option.splits)
  have 3: "heap_step a (bs_store b2) st3 \<and> ob_mode (s_heap st3 a) = ModeRead"
  proof (cases "ob_mode (s_heap (bs_store b2) a)")
    case ModeRead
    with f(1) show ?thesis by (simp add: Object_Finalize_def Let_def)
  next
    case ModeWrite
    obtain st0 e where c: "clamp_object (be_at B AtFinalize) (bs_store b2) (s_heap (bs_store b2) a) = (st0, e)" by fastforce
    then have frame: "s_objs st0 = s_objs (bs_store b2)" "s_next st0 = s_next (bs_store b2)" "s_heap st0 = s_heap (bs_store b2)"
      using clamp_object_frame [of "be_at B AtFinalize" "bs_store b2" "s_heap (bs_store b2) a"] by simp_all
    have "st3 = st0\<lparr>s_heap := (s_heap st0)(a := (s_heap (bs_store b2) a)\<lparr>ob_mode := ModeRead\<rparr>)\<rparr>"
      using f(1) ModeWrite c by (auto simp: Object_Finalize_def Let_def split: option.splits)
    with frame show ?thesis by (simp add: heap_step_def)
  qed
  with 1 2 f(2) assms(3) show ?thesis by (blast intro: heap_step_trans)
qed

section \<open>A pipeline\<close>

text \<open>Every object the store knows is readable, and only the stage directories in \<open>U\<close> were ever used.\<close>

definition settled :: "string set \<Rightarrow> sstore \<Rightarrow> bool" where
  "settled U st \<longleftrightarrow> (\<forall>i a. map_of (s_objs st) i = Some a \<longrightarrow> a < s_next st \<and> ob_mode (s_heap st a) = ModeRead)
     \<and> (\<forall>b u. b < s_next st \<longrightarrow> ob_path (s_heap st b) = InStage u \<longrightarrow> u \<in> U)"

lemma settled_fresh: "settled U st \<Longrightarrow> u \<notin> U \<Longrightarrow> fresh_uuid u st"
  by (auto simp: settled_def fresh_uuid_def)

lemma settled_mono: "settled U st \<Longrightarrow> U \<subseteq> U' \<Longrightarrow> settled U' st"
  by (auto simp: settled_def)

lemma settled_step:
  assumes "settled U st" "heap_step a st st'" "s_next st \<le> a"
  shows "settled U st'"
proof -
  note h = heap_stepD [OF assms(2)]
  have same: "s_heap st' b = s_heap st b" if "b < s_next st" for b using h(3) [OF that] assms(3) that by simp
  have "u \<in> U" if "b < s_next st'" "ob_path (s_heap st' b) = InStage u" for b u
    using h(4) [of b u] that same [of b] assms(1) by (cases "b < s_next st") (auto simp: settled_def)
  with assms(1) same h(1,2) show ?thesis by (fastforce simp: settled_def)
qed

lemma settled_Get: "settled U st \<Longrightarrow> settled U (fst (Get E st i))"
  using settled_step [OF _ heap_step_Get [of "s_next st"]] by blast

text \<open>A pipeline the build passes over: there is nothing to do, or its tree is in the store.\<close>

definition passed_over :: "golib \<Rightarrow> sstore \<Rightarrow> pipeline \<Rightarrow> bool" where
  "passed_over L st p \<longleftrightarrow> pl_Stages p = [] \<or> Contains st (Pipeline_ID L p)"

lemma BuildPipeline_leaves:
  assumes "BuildPipeline B L p b = (b', Inr res)" "pr_success res" "settled U (bs_store b)"
  shows "settled (insert (be_uuid B) U) (bs_store b') \<and> (\<not> passed_over L (bs_store b) p \<longrightarrow> usable (bs_store b') (Pipeline_ID L p))"
proof (cases "passed_over L (bs_store b) p")
  case True
  then have "b' = b" using assms(1) by (auto simp: BuildPipeline_def passed_over_def Let_def split: if_splits)
  with assms(3) True show ?thesis by (auto intro: settled_mono)
next
  case False
  note False = False [unfolded passed_over_def]
  obtain st1 bt where t: "build_tree_of B p (bs_store b) = (st1, Inr bt)"
    using assms(1) False by (auto simp: BuildPipeline_def Let_def split: prod.splits sum.splits)
  have s1: "settled U st1"
  proof (cases "pl_Build p")
    case None
    with t have "s_objs st1 = s_objs (bs_store b) \<and> s_heap st1 = s_heap (bs_store b) \<and> s_next st1 = s_next (bs_store b)"
      by (auto simp: build_tree_of_def GetHostTree_def split: if_splits prod.splits option.splits)
    with assms(3) show ?thesis by (simp add: settled_def)
  next
    case (Some bid)
    then have "st1 = fst (Get (be_at B AtBuildTree) (bs_store b) bid)"
      using t by (auto simp: build_tree_of_def split: prod.splits sum.splits option.splits)
    with settled_Get [OF assms(3)] show ?thesis by simp
  qed
  obtain st2 a where n: "New_object (be_at B AtNew) st1 (be_uuid B) (Pipeline_ID L p) = (st2, Inr a)"
    using assms(1) False t by (auto simp: BuildPipeline_def Let_def split: prod.splits sum.splits)
  define st3 where "st3 = set_epoch a (pl_SourceEpoch p) st2"
  have bi: "build_in B L p bt a (with_store st3 b) = (b', Inr res)"
    using assms(1) False t n by (simp add: BuildPipeline_def Let_def st3_def)
  note N = New_writing [OF n, where e = "pl_SourceEpoch p", folded st3_def]
  have a: "a = s_next st1"
    using n by (auto simp: New_object_def Let_def alloc_def split: if_splits prod.splits option.splits)
  have next3: "s_next st3 = Suc a" using N(6) a by simp
  have heap: "heap_step a st3 (bs_store b')" and ro: "ob_mode (s_heap (bs_store b') a) = ModeRead"
    using build_in_heap [OF bi assms(2)] next3 by simp_all
  note h = heap_stepD [OF heap]
  have same: "s_heap (bs_store b') c = s_heap st1 c" if "c < s_next st1" for c
    using h(3) [of c] N(5) [OF that] that next3 a by simp
  have "map_of (s_objs (bs_store b')) (Pipeline_ID L p) = Some a" using h(1) N(2) by simp
  then have us: "usable (bs_store b') (Pipeline_ID L p)" using ro by (simp add: usable_def)
  show ?thesis
    unfolding settled_def
  proof (intro conjI allI impI us)
    fix i c assume "map_of (s_objs (bs_store b')) i = Some c"
    then have "map_of (s_objs st3) i = Some c" using h(1) by simp
    then have "c = a \<or> map_of (s_objs st1) i = Some c" using N(2) by (auto split: if_splits)
    then have "c = a \<or> (c < s_next st1 \<and> ob_mode (s_heap st1 c) = ModeRead)" using s1 by (auto simp: settled_def)
    then show "c < s_next (bs_store b')" "ob_mode (s_heap (bs_store b') c) = ModeRead"
      using ro same h(2) next3 a by auto
  next
    fix c u assume c: "c < s_next (bs_store b')" "ob_path (s_heap (bs_store b') c) = InStage u"
    consider "c < s_next st1" | "c = a" | "s_next st3 \<le> c" using a next3 by linarith
    then show "u \<in> insert (be_uuid B) U"
    proof cases
      case 1
      then show ?thesis using same c(2) s1 by (auto simp: settled_def)
    next
      case 2
      then have "ob_path (s_heap st3 a) = InStage u" using h(5) c(2) next3 by simp
      then show ?thesis using writingD [OF N(1)] by simp
    next
      case 3
      then show ?thesis using h(4) c by blast
    qed
  qed
qed

lemmas BuildPipeline_settled = BuildPipeline_leaves [THEN conjunct1]

end
