(* ===== verification/BuildRuns.thy ===== *)
theory BuildRuns
  imports BuildOrder BuildHeap
begin

text \<open>
  A whole build and what is exported of it: the store stays sound from pipeline to pipeline, every
  object a lookup gives is finished, and an exported directory holds the tree of its pipeline.
\<close>

section \<open>From pipeline to pipeline\<close>

definition sound_store :: "(string \<Rightarrow> string \<rightharpoonup> string) \<Rightarrow> string set \<Rightarrow> sstore \<Rightarrow> bool" where
  "sound_store D U st \<longleftrightarrow> disk_sound D st \<and> mem_sound D st \<and> settled U st"

lemma sound_storeD:
  assumes "sound_store D U st"
  shows "disk_sound D st" "mem_sound D st" "settled U st"
  using assms by (simp_all add: sound_store_def)

lemma sound_store_Get: "sound_store D U st \<Longrightarrow> sound_store D U (fst (Get E st i))"
  using Get_sound settled_Get by (auto simp: sound_store_def)

lemma BuildPipeline_sound_store:
  assumes "BuildPipeline B L p b = (b', Inr res)" "pr_success res" "sound_store D U (bs_store b)"
    and "be_uuid B \<notin> U" "stages_refine F B p" "ids_denote D F L p" "removes B"
  shows "sound_store D (insert (be_uuid B) U) (bs_store b')"
proof -
  note S = sound_storeD [OF assms(3)]
  have "fresh_uuid (be_uuid B) (bs_store b)" using S(3) assms(4) by (rule settled_fresh)
  from BuildPipeline_sound [OF assms(1) S(1,2) this assms(5,6,7)] assms(2)
  show ?thesis using BuildPipeline_settled [OF assms(1,2) S(3)] by (simp add: sound_store_def)
qed

text \<open>What the run relies on: the stages of the pipelines named refine \<open>F\<close>, their IDs stand for trees, no UUID comes twice, and entries can be removed.\<close>

definition run_ok ::
    "(string \<Rightarrow> string \<rightharpoonup> string) \<Rightarrow> (stage \<Rightarrow> (string \<rightharpoonup> string) \<Rightarrow> string \<rightharpoonup> string) \<Rightarrow> golib \<Rightarrow> manifest \<Rightarrow> (nat \<Rightarrow> benv) \<Rightarrow> bool" where
  "run_ok D F L m Bs \<longleftrightarrow> inj (\<lambda>k. be_uuid (Bs k)) \<and> (\<forall>k. removes (Bs k))
     \<and> (\<forall>k name p. found L m name = Some p \<longrightarrow> stages_refine F (Bs k) p \<and> ids_denote D F L p)"

lemma build_loop_sound:
  assumes "build_loop ctx Bs L m i names results b = (b', Inr rs)" "rs_success rs" "sound_store D U (bs_store b)"
    and "run_ok D F L m Bs" "\<And>k. i \<le> k \<Longrightarrow> be_uuid (Bs k) \<notin> U"
  shows "\<exists>U'. sound_store D U' (bs_store b')"
  using assms(1,3,5)
proof (induction names arbitrary: i results b U)
  case (Cons name names)
  obtain p b1 res where p: "found L m name = Some p" "BuildPipeline (Bs i) L p (emit (EBegin p) b) = (b1, Inr res)"
    and ok: "pr_success res"
    and rest: "build_loop ctx Bs L m (Suc i) names (gset (Pipeline_ID L p) res results) (emit (EFinish (pr_name res) (pr_success res)) b1) = (b', Inr rs)"
    using Cons.prems(1) assms(2)
    by (auto simp: found_def Let_def split: option.splits prod.splits sum.splits if_splits)
  have R: "stages_refine F (Bs i) p" "ids_denote D F L p" "removes (Bs i)" using assms(4) p(1) by (auto simp: run_ok_def)
  have "sound_store D U (bs_store (emit (EBegin p) b))" using Cons.prems(2) by simp
  from BuildPipeline_sound_store [OF p(2) ok this Cons.prems(3) [OF order_refl] R]
  have "sound_store D (insert (be_uuid (Bs i)) U) (bs_store (emit (EFinish (pr_name res) (pr_success res)) b1))" by simp
  moreover have "be_uuid (Bs k) \<notin> insert (be_uuid (Bs i)) U" if "Suc i \<le> k" for k
    using Cons.prems(3) [of k] that assms(4) by (auto simp: run_ok_def dest: injD)
  ultimately show ?case by (rule Cons.IH [OF rest])
qed auto

lemma Build_sound:
  assumes "Build ctx Bs L m st names = (b', Inr rs)" "rs_success rs" "sound_store D {} st" "run_ok D F L m Bs"
  shows "\<exists>U. sound_store D U (bs_store b')"
  using build_loop_sound [OF assms(1) [unfolded Build_def] assms(2) _ assms(4), where U = "{}"] assms(3) by simp

section \<open>Every pipeline of a build\<close>

text \<open>
  A build that got through: the pipelines of these names, in this order, each found in the manifest.
  One that is passed over shows only its begin and its end; any other ran its stages, all of them
  after the last one cached in the store of its turn, without a failure, and is in the store of the
  next turn.
\<close>

inductive all_built :: "golib \<Rightarrow> manifest \<Rightarrow> string list \<Rightarrow> sstore \<Rightarrow> mevent list \<Rightarrow> sstore \<Rightarrow> bool" for L m where
  finished: "all_built L m [] st [] st"
| passed: "found L m name = Some p \<Longrightarrow> passed_over L st p \<Longrightarrow> all_built L m names st evs st'
    \<Longrightarrow> all_built L m (name # names) st ([EBegin p, EFinish (pl_Name p) True] @ evs) st'"
| ran: "found L m name = Some p \<Longrightarrow> \<not> passed_over L st p \<Longrightarrow> ran_from L st p True rs sevs
    \<Longrightarrow> usable st1 (Pipeline_ID L p) \<Longrightarrow> all_built L m names st1 evs st'
    \<Longrightarrow> all_built L m (name # names) st ([EBegin p] @ sevs @ [EFinish (pl_Name p) True] @ evs) st'"

text \<open>The result filed for each name.\<close>

definition succeeded :: "golib \<Rightarrow> manifest \<Rightarrow> (string, pipeline_result) gmap \<Rightarrow> string \<Rightarrow> bool" where
  "succeeded L m results name \<longleftrightarrow>
     (case found L m name of
        None \<Rightarrow> False
      | Some p \<Rightarrow> (case map_of results (Pipeline_ID L p) of None \<Rightarrow> False | Some r \<Rightarrow> pr_success r))"

lemma BuildPipeline_result:
  assumes "BuildPipeline B L p b = (b', Inr r)"
  shows "pr_name r = pl_Name p \<and> (if passed_over L (bs_store b) p then b' = b else \<exists>rs. pr_stages r = Some rs)"
proof (cases "passed_over L (bs_store b) p")
  case True
  then have "b' = b" "pr_name r = pl_Name p" using assms by (auto simp: BuildPipeline_def passed_over_def Let_def split: if_splits)
  with True show ?thesis by simp
next
  case False
  then obtain bt tree b1 where "build_in B L p bt tree b1 = (b', Inr r)"
    using assms by (auto simp: BuildPipeline_def passed_over_def Let_def split: prod.splits sum.splits)
  with False show ?thesis by (auto simp: build_in_def split: prod.splits sum.splits bool.splits option.splits)
qed

lemma build_loop_all:
  assumes "build_loop ctx Bs L m i names results b = (b', Inr rs)" "rs_success rs"
    and "settled UNIV (bs_store b)" "\<forall>k r. map_of results k = Some r \<longrightarrow> pr_success r"
  shows "\<exists>evs. all_built L m names (bs_store b) evs (bs_store b') \<and> bs_events b' = bs_events b @ evs
    \<and> (\<forall>name \<in> set names. succeeded L m (rs_pipelines rs) name)
    \<and> (\<forall>k. map_of results k \<noteq> None \<longrightarrow> (\<exists>r. map_of (rs_pipelines rs) k = Some r \<and> pr_success r))"
  using assms(1,3,4)
proof (induction names arbitrary: i results b)
  case Nil
  then show ?case by (auto intro: all_built.finished)
next
  case (Cons name names)
  obtain p b1 res where p: "found L m name = Some p" "BuildPipeline (Bs i) L p (emit (EBegin p) b) = (b1, Inr res)"
    and ok: "pr_success res"
    and rest: "build_loop ctx Bs L m (Suc i) names (gset (Pipeline_ID L p) res results) (emit (EFinish (pr_name res) (pr_success res)) b1) = (b', Inr rs)"
    using Cons.prems(1) assms(2)
    by (auto simp: found_def Let_def split: option.splits prod.splits sum.splits if_splits)
  let ?b2 = "emit (EFinish (pr_name res) (pr_success res)) b1"
  note pr = BuildPipeline_result [OF p(2)]
  have st: "settled UNIV (bs_store b1)" "\<not> passed_over L (bs_store b) p \<Longrightarrow> usable (bs_store b1) (Pipeline_ID L p)"
    using BuildPipeline_leaves [OF p(2) ok, of UNIV] Cons.prems(2) by simp_all
  have "\<forall>k r. map_of (gset (Pipeline_ID L p) res results) k = Some r \<longrightarrow> pr_success r" using Cons.prems(3) ok by simp
  with Cons.IH [OF rest] st(1) obtain evs where evs: "all_built L m names (bs_store b1) evs (bs_store b')"
    "bs_events b' = bs_events ?b2 @ evs" "\<forall>name \<in> set names. succeeded L m (rs_pipelines rs) name"
    "\<forall>k. map_of (gset (Pipeline_ID L p) res results) k \<noteq> None \<longrightarrow> (\<exists>r. map_of (rs_pipelines rs) k = Some r \<and> pr_success r)"
    by auto
  have "succeeded L m (rs_pipelines rs) name" using evs(4) [rule_format, of "Pipeline_ID L p"] p(1) by (auto simp: succeeded_def)
  moreover have "\<forall>k. map_of results k \<noteq> None \<longrightarrow> (\<exists>r. map_of (rs_pipelines rs) k = Some r \<and> pr_success r)"
    using evs(4) by auto
  moreover have "\<exists>new. all_built L m (name # names) (bs_store b) new (bs_store b') \<and> bs_events b' = bs_events b @ new"
  proof (cases "passed_over L (bs_store b) p")
    case True
    then have b1: "b1 = emit (EBegin p) b" using pr by simp
    then have "bs_events b' = bs_events b @ [EBegin p, EFinish (pl_Name p) True] @ evs" using evs(2) pr ok by (simp add: emit_def)
    moreover have "all_built L m (name # names) (bs_store b) ([EBegin p, EFinish (pl_Name p) True] @ evs) (bs_store b')"
      using all_built.passed [OF p(1) True] evs(1) b1 by simp
    ultimately show ?thesis by blast
  next
    case False
    then obtain xs where xs: "pr_stages res = Some xs" using pr by auto
    have "heap_ok (bs_store (emit (EBegin p) b))" using Cons.prems(2) by (simp add: settled_def heap_ok_def)
    then obtain sevs where r: "ran_from L (bs_store b) p True xs sevs" "bs_events b1 = bs_events b @ [EBegin p] @ sevs"
      using BuildPipeline_ran [OF p(2) xs] ok by (auto simp: emit_def)
    then have "bs_events b' = bs_events b @ [EBegin p] @ sevs @ [EFinish (pl_Name p) True] @ evs" using evs(2) pr ok by (simp add: emit_def)
    moreover have "all_built L m (name # names) (bs_store b) ([EBegin p] @ sevs @ [EFinish (pl_Name p) True] @ evs) (bs_store b')"
      using all_built.ran [OF p(1) False r(1) st(2) [OF False] evs(1)] .
    ultimately show ?thesis by blast
  qed
  ultimately show ?case using evs(3) by auto
qed

lemma Build_all:
  assumes "Build ctx Bs L m st names = (b, Inr rs)" "rs_success rs" "s_objs st = []"
  shows "all_built L m names st (bs_events b) (bs_store b) \<and> (\<forall>name \<in> set names. succeeded L m (rs_pipelines rs) name)"
proof -
  have "settled UNIV st" using assms(3) by (simp add: settled_def)
  with build_loop_all [OF assms(1) [unfolded Build_def] assms(2)] show ?thesis by auto
qed

text \<open>A store just opened knows no objects.\<close>

lemma sound_store_opened: "disk_sound D st \<Longrightarrow> s_objs st = [] \<Longrightarrow> s_next st = 0 \<Longrightarrow> sound_store D {} st"
  by (simp add: sound_store_def mem_sound_def settled_def)

section \<open>Exports\<close>

lemma settled_Get_read:
  assumes "settled U st" "Get E st i = (st1, Inr (Some a))"
  shows "ob_mode (s_heap st1 a) = ModeRead"
proof (cases "map_of (s_objs st) i")
  case (Some c)
  with assms show ?thesis by (simp add: Get_in_memory settled_def)
next
  case None
  with assms(2) show ?thesis
    by (auto simp: Get_def Let_def alloc_def split: option.splits if_splits prod.splits)
qed

lemma Export_gives:
  assumes "Export E L m e mk toDir st = (st', Inr dir)" "sound_store D U st" "found L m e = Some p"
    and "ids_denote D F L p" "pl_Stages p \<noteq> []"
  shows "sound_store D U st'" "\<exists>t. holds_tree t (run_abstract F (pl_Stages p)) \<and> dir = overlay toDir t"
proof -
  obtain a where g: "Get E st (Pipeline_ID L p) = (st', Inr (Some a))" and x: "Object_Export E st' a toDir = Inr dir"
    using assms(1,3) by (auto simp: Export_def found_def split: option.splits prod.splits sum.splits if_splits)
  note S = sound_storeD [OF assms(2)]
  show "sound_store D U st'" using sound_store_Get [OF assms(2), of E "Pipeline_ID L p"] g by simp
  obtain d where d: "data_at st' (ob_path (s_heap st' a)) = Some d" "dir = overlay toDir (dd_tree d)"
    using x by (auto simp: Object_Export_def split: option.splits if_splits)
  from Get_result [OF g S(1,2) settled_Get_read [OF S(3) g] d(1)] d(2)
  show "\<exists>t. holds_tree t (run_abstract F (pl_Stages p)) \<and> dir = overlay toDir t"
    using ids_denote_pipeline [OF assms(4,5)] by auto
qed

end
