(* ===== verification/CliFacts.thy ===== *)
theory CliFacts
  imports Cli BuildRuns
begin

text \<open>
  What an invocation of the command promises: when it touches the store, what it exports, when it
  comes back and with which exit code.
\<close>

section \<open>Preparation\<close>

lemma unknown_export_None:
  "unknown_export L m es = None \<longleftrightarrow> (\<forall>e \<in> set es. found L m e \<noteq> None)"
  by (induction es) (auto simp: found_def split: option.split)

text \<open>The checks an invocation has passed when its preparation succeeds.\<close>

lemma prepare_checks:
  assumes "prepare L E f = Inr (path, m, marked)"
  obtains desc m0 where "load_manifest E f = Inr (path, desc)"
    "Valid (Validate (ce_vctx E (fl_libdir f)) (ce_poll E PollValidate) desc)"
    "Parse L (ce_poll E PollParse) (ce_api E (fl_libdir f)) desc = Inr m0"
    "\<forall>e \<in> set (fl_exports f). found L m0 e \<noteq> None"
    "if fl_checkpoints f = [] then m = m0 \<and> marked = {} else MarkCheckpoints L m0 (fl_checkpoints f) = (m, marked) \<and> marked \<noteq> {}"
    "fl_logLevel f = [] \<or> ParseLevel (fl_logLevel f) \<noteq> None"
proof -
  have log: "fl_logLevel f = [] \<or> ParseLevel (fl_logLevel f) \<noteq> None"
    using assms by (auto simp: prepare_def split: if_splits)
  obtain p desc where l: "load_manifest E f = Inr (p, desc)"
    using assms log by (auto simp: prepare_def split: sum.splits)
  obtain m0 where c: "check_manifest L E f desc = Inr m0"
    using assms log l by (cases "check_manifest L E f desc") (auto simp: prepare_def)
  have u: "unknown_export L m0 (fl_exports f) = None"
    using assms log l c by (cases "unknown_export L m0 (fl_exports f)") (auto simp: prepare_def)
  have rest: "p = path" "if fl_checkpoints f = [] then m = m0 \<and> marked = {}
      else MarkCheckpoints L m0 (fl_checkpoints f) = (m, marked) \<and> marked \<noteq> {}"
    using assms log l c u by (auto simp: prepare_def split: if_splits prod.splits)
  have v: "Valid (Validate (ce_vctx E (fl_libdir f)) (ce_poll E PollValidate) desc)"
    "Parse L (ce_poll E PollParse) (ce_api E (fl_libdir f)) desc = Inr m0"
    using c by (auto simp: check_manifest_def Let_def split: if_splits sum.splits)
  show ?thesis by (rule that [of desc m0]) (use l rest v u log in \<open>simp_all add: unknown_export_None\<close>)
qed

section \<open>The shape of a run\<close>

lemma failed_fields [simp]:
  "oc_code (failed e oc) = exit_code e" "oc_error (failed e oc) = Some e" "oc_store (failed e oc) = oc_store oc"
  "oc_dirs (failed e oc) = oc_dirs oc" "oc_monitor (failed e oc) = oc_monitor oc"
  by (simp_all add: failed_def)

lemma idle_fields [simp]:
  "oc_code (idle_outcome E) = 0" "oc_error (idle_outcome E) = None" "oc_store (idle_outcome E) = None"
  "oc_dirs (idle_outcome E) = ce_dirs E" "oc_monitor (idle_outcome E) = None"
  by (simp_all add: idle_outcome_def)

text \<open>A run either ends idle, or opens the store and works on it.\<close>

lemma run_flags_cases:
  assumes "run_flags L E f = Some oc"
  obtains (idle) "oc_store oc = None" "oc_dirs oc = ce_dirs E" "oc_monitor oc = None"
      "\<And>q. \<not> fl_version f \<and> \<not> fl_inspect f \<and> prepare L E f = Inr q \<Longrightarrow> oc_code oc \<noteq> 0"
  | (worked) path m marked st st1 oc1 where "\<not> fl_version f" "\<not> fl_inspect f" "fl_exports f = [] \<or> fl_outputDir f \<noteq> []"
      "prepare L E f = Inr (path, m, marked)" "Open (ce_at E AtOpen) (ce_disk E (fl_cache f)) False = Inr st"
      "work L E f path m marked st = Some (st1, oc1)" "oc = oc1\<lparr>oc_store := Some (Close st1)\<rparr>"
proof (cases "fl_version f")
  case False
  show thesis
  proof (cases "prepare L E f")
    case (Inl e)
    with assms False show thesis by (intro idle) (auto simp: run_flags_def)
  next
    case (Inr q)
    then obtain path m marked where q: "prepare L E f = Inr (path, m, marked)" by (cases q) auto
    show thesis
    proof (cases "fl_inspect f \<or> (fl_exports f \<noteq> [] \<and> fl_outputDir f = [])")
      case True
      with assms False q show thesis by (intro idle) (auto simp: run_flags_def Let_def exit_code_def split: if_splits)
    next
      case ok: False
      show thesis
      proof (cases "Open (ce_at E AtOpen) (ce_disk E (fl_cache f)) False")
        case (Inl e)
        with assms False q ok show thesis by (intro idle) (auto simp: run_flags_def exit_code_def)
      next
        case (Inr st)
        obtain w where "work L E f path m marked st = Some w" "oc = (case w of (st1, oc1) \<Rightarrow> oc1\<lparr>oc_store := Some (Close st1)\<rparr>)"
          using assms False q ok Inr by (auto simp: run_flags_def)
        then show thesis using worked False ok q Inr by (cases w) auto
      qed
    qed
  qed
qed (use assms in \<open>auto intro: idle simp: run_flags_def\<close>)

text \<open>The work either ends with an error before the build has a result, or finishes the build.\<close>

lemma work_cases:
  assumes "work L E f path m marked st = Some (st', oc)"
  obtains (failed) e mon where "oc = failed e ((idle_outcome E)\<lparr>oc_monitor := mon\<rparr>)" "exit_code e \<noteq> 0"
  | (built) st1 names b rs mon where "set_limit E f st = (st1, None)"
      "Depsolve (ce_fuel E) L (ce_poll E PollDepsolve) m (Contains st1) (fl_exports f) = Some (Inr names)"
      "Build (ce_poll E PollBuild) (ce_stages E (fl_libdir f) (stage_timeout f)) L m st1 (planned m names) = (b, Inr rs)"
      "(st', oc) = finish L E f m marked rs (bs_store b) ((idle_outcome E)\<lparr>oc_monitor := mon\<rparr>)"
proof -
  obtain st1 lim where lim: "set_limit E f st = (st1, lim)" by fastforce
  have nomon: "(idle_outcome E)\<lparr>oc_monitor := None\<rparr> = idle_outcome E" by (simp add: idle_outcome_def)
  show thesis
  proof (cases lim)
    case (Some e)
    then have "oc = failed e ((idle_outcome E)\<lparr>oc_monitor := None\<rparr>)" unfolding nomon using assms lim by (simp add: work_def)
    moreover have "exit_code e \<noteq> 0"
      using lim Some
      by (auto simp: set_limit_def exit_code_def split: if_splits sum.splits prod.splits option.splits serror.splits)
    ultimately show thesis by (rule failed)
  next
    case None
    obtain d where d: "Depsolve (ce_fuel E) L (ce_poll E PollDepsolve) m (Contains st1) (fl_exports f) = Some d"
      using assms lim None by (auto simp: work_def split: option.splits)
    show thesis
    proof (cases d)
      case (Inl e)
      then have "oc = failed (DepsolveFailed e) ((idle_outcome E)\<lparr>oc_monitor := None\<rparr>)"
        unfolding nomon using assms lim None d by (simp add: work_def)
      then show thesis by (rule failed) (simp add: exit_code_def)
    next
      case (Inr names)
      show thesis
      proof (cases "Make_monitor (monitor_name f) (int (length (mf_Sources m) + length (planned m names)))")
        case (Inl e)
        then have "oc = failed (NoMonitor e) ((idle_outcome E)\<lparr>oc_monitor := None\<rparr>)"
          unfolding nomon using assms lim None d Inr by (simp add: work_def Let_def)
        then show thesis by (rule failed) (simp add: exit_code_def)
      next
        case mon: (Inr mon)
        obtain calls down where down: "DownloadAll (ce_poll E PollDownload) (ce_sources E (fl_libdir f)) L (ce_root E (fl_cache f)) 0 (mf_Sources m) = (calls, down)"
          by fastforce
        obtain b r where b: "Build (ce_poll E PollBuild) (ce_stages E (fl_libdir f) (stage_timeout f)) L m st1 (planned m names) = (b, r)"
          by fastforce
        note facts = assms lim [unfolded None] d [unfolded Inr] mon down b
        show thesis
        proof (cases down)
          case (Some e)
          with facts obtain mn where "oc = failed (SourcesFailed e) ((idle_outcome E)\<lparr>oc_monitor := Some mn\<rparr>)"
            by (simp add: work_def Let_def) blast
          then show thesis by (rule failed) (simp add: exit_code_def)
        next
          case down': None
          show thesis
          proof (cases r)
            case (Inl e)
            with facts down' obtain mn where "oc = failed (BuildFailed e) ((idle_outcome E)\<lparr>oc_monitor := Some mn\<rparr>)"
              by (simp add: work_def Let_def) blast
            then show thesis by (rule failed) (simp add: exit_code_def)
          next
            case rs: (Inr rs)
            with facts down' obtain mn where "(st', oc) = finish L E f m marked rs (bs_store b) ((idle_outcome E)\<lparr>oc_monitor := Some mn\<rparr>)"
              by (simp add: work_def Let_def) metis
            with lim None d Inr b rs show thesis by (intro built) auto
          qed
        qed
      qed
    qed
  qed
qed

section \<open>Checks come first\<close>

text \<open>C2: Nothing is opened, started or exported before the checks have passed. Either a run ends with no store
  opened, no monitor and every output directory as it was, or its options were understood, neither the
  version nor an inspection was asked for, the manifest was read, valid and parsed, every export is
  a pipeline of it, the checkpoints matched something, and exports have a directory to go to.\<close>

theorem run_checks_first:
  assumes "run L E args = Some oc"
  shows "oc_store oc = None \<and> oc_dirs oc = ce_dirs E \<and> oc_monitor oc = None
    \<or> (\<exists>f path desc m. parse_flags args default_flags = Inr f \<and> \<not> fl_version f \<and> \<not> fl_inspect f
        \<and> load_manifest E f = Inr (path, desc)
        \<and> Valid (Validate (ce_vctx E (fl_libdir f)) (ce_poll E PollValidate) desc)
        \<and> Parse L (ce_poll E PollParse) (ce_api E (fl_libdir f)) desc = Inr m
        \<and> (\<forall>e \<in> set (fl_exports f). found L m e \<noteq> None)
        \<and> (fl_checkpoints f = [] \<or> snd (MarkCheckpoints L m (fl_checkpoints f)) \<noteq> {})
        \<and> (fl_exports f = [] \<or> fl_outputDir f \<noteq> []))"
proof (cases "parse_flags args default_flags")
  case (Inl e)
  with assms show ?thesis by (auto simp: run_def)
next
  case (Inr f)
  then have "run_flags L E f = Some oc" using assms by (simp add: run_def)
  then show ?thesis
  proof (cases rule: run_flags_cases)
    case (worked path m marked st st1 oc1)
    from worked(4) obtain desc m0 where d: "load_manifest E f = Inr (path, desc)"
      "Valid (Validate (ce_vctx E (fl_libdir f)) (ce_poll E PollValidate) desc)"
      "Parse L (ce_poll E PollParse) (ce_api E (fl_libdir f)) desc = Inr m0" "\<forall>e \<in> set (fl_exports f). found L m0 e \<noteq> None"
      "if fl_checkpoints f = [] then m = m0 \<and> marked = {} else MarkCheckpoints L m0 (fl_checkpoints f) = (m, marked) \<and> marked \<noteq> {}"
      by (rule prepare_checks)
    with Inr worked(1,2,3) show ?thesis by (intro disjI2 exI [of _ f] exI [of _ path] exI [of _ desc] exI [of _ m0]) (auto split: if_splits)
  qed simp_all
qed

section \<open>Success\<close>

lemma Open_fields:
  "Open E disk ro = Inr st \<Longrightarrow> s_objs st = [] \<and> s_next st = s_next disk \<and> d_objects st = d_objects disk"
  by (auto simp: Open_def Let_def split: if_splits)

lemma SetMaximumSize_fields [simp]:
  "s_objs (fst (SetMaximumSize E st n)) = s_objs st" "s_next (fst (SetMaximumSize E st n)) = s_next st"
  "d_objects (fst (SetMaximumSize E st n)) = d_objects st"
  by (auto simp: SetMaximumSize_def Let_def)

lemma set_limit_fields:
  assumes "set_limit E f st = (st1, e)"
  shows "s_objs st1 = s_objs st \<and> s_next st1 = s_next st \<and> d_objects st1 = d_objects st"
proof -
  have "st1 = st \<or> (\<exists>n. st1 = fst (SetMaximumSize (ce_at E AtLimit) st n))"
    using assms by (auto simp: set_limit_def split: if_splits sum.splits prod.splits option.splits) (metis fst_conv)+
  then show ?thesis by auto
qed

lemma finish_fields:
  assumes "(st', oc') = finish L E f m marked rs st oc" "oc_error oc = None"
  shows "rs_success rs \<Longrightarrow> \<exists>st1 err. export_all E L m (fl_outputDir f) 0 (fl_exports f) st (oc_dirs oc) = (st1, oc_dirs oc', err)
      \<and> (oc_code oc' = 0 \<longrightarrow> err = None)"
    "\<not> rs_success rs \<Longrightarrow> oc_dirs oc' = oc_dirs oc \<and> oc_code oc' = 1"
    "oc_code oc' = 0 \<longleftrightarrow> rs_success rs \<and> oc_error oc' = None"
proof -
  have code: "exit_code (ExportFailed e b) = 1" "exit_code NotEncoded = 1" for e b by (simp_all add: exit_code_def)
  have err: "\<exists>e b. x = ExportFailed e b" if "snd (snd (export_all E L m out i es st dirs)) = Some x" for out i es dirs x
    using that by (induction E L m out i es st dirs rule: export_all.induct) (auto simp: Let_def split: prod.splits sum.splits)
  obtain st1 dirs e where x: "export_all E L m (fl_outputDir f) 0 (fl_exports f) st (oc_dirs oc) = (st1, dirs, e)"
    by (metis prod_cases3)
  then have "e = None \<or> (\<exists>a b. e = Some (ExportFailed a b))"
    using err [of "fl_outputDir f" 0 "fl_exports f" "oc_dirs oc"] by (cases e) auto
  then show "rs_success rs \<Longrightarrow> \<exists>st1 err. export_all E L m (fl_outputDir f) 0 (fl_exports f) st (oc_dirs oc) = (st1, oc_dirs oc', err)
      \<and> (oc_code oc' = 0 \<longrightarrow> err = None)"
    "\<not> rs_success rs \<Longrightarrow> oc_dirs oc' = oc_dirs oc \<and> oc_code oc' = 1"
    "oc_code oc' = 0 \<longleftrightarrow> rs_success rs \<and> oc_error oc' = None"
    using assms x code
    by (auto simp: finish_def Let_def failed_def split: if_splits prod.splits option.splits)
qed

text \<open>C3: A run that opened the store and exits with 0, and one that changed an output directory at all, has
  built every pipeline it planned. The monitor's events show them one after the other, in the order of
  the plan: a pipeline without stages or with its tree in the store only begins and finishes; any other
  runs all its stages after the last that is cached at its turn, none of which fails, and its tree is in
  the store when the next one begins. A success is filed for each of them. So a build that fails, or
  leaves a pipeline out, exports nothing.\<close>

theorem run_success_built:
  assumes "run L E args = Some oc" "oc_store oc \<noteq> None \<and> oc_code oc = 0 \<or> oc_dirs oc \<noteq> ce_dirs E"
  shows "\<exists>f path m marked st st1 names b rs. parse_flags args default_flags = Inr f
    \<and> prepare L E f = Inr (path, m, marked) \<and> Open (ce_at E AtOpen) (ce_disk E (fl_cache f)) False = Inr st
    \<and> set_limit E f st = (st1, None)
    \<and> Depsolve (ce_fuel E) L (ce_poll E PollDepsolve) m (Contains st1) (fl_exports f) = Some (Inr names)
    \<and> Build (ce_poll E PollBuild) (ce_stages E (fl_libdir f) (stage_timeout f)) L m st1 (planned m names) = (b, Inr rs)
    \<and> rs_success rs \<and> all_built L m (planned m names) st1 (bs_events b) (bs_store b)
    \<and> (\<forall>name \<in> set (planned m names). succeeded L m (rs_pipelines rs) name)"
proof (cases "parse_flags args default_flags")
  case (Inl e)
  with assms show ?thesis by (auto simp: run_def)
next
  case (Inr f)
  then have "run_flags L E f = Some oc" using assms(1) by (simp add: run_def)
  then show ?thesis
  proof (cases rule: run_flags_cases)
    case (worked path m marked st st' oc1)
    from worked(6) show ?thesis
    proof (cases rule: work_cases)
      case (failed e mon)
      with assms(2) worked(7) show ?thesis by simp
    next
      case (built st1 names b rs mon)
      have "rs_success rs"
        using finish_fields [OF built(4)] assms(2) worked(7) by (cases "rs_success rs") auto
      moreover have "s_objs st1 = []" using Open_fields [OF worked(5)] set_limit_fields [OF built(1)] by simp
      ultimately have "all_built L m (planned m names) st1 (bs_events b) (bs_store b)"
        "\<forall>name \<in> set (planned m names). succeeded L m (rs_pipelines rs) name"
        using Build_all [OF built(3)] by simp_all
      with \<open>rs_success rs\<close> Inr worked(4,5) built(1,2,3) show ?thesis by blast
    qed
  qed (use assms(2) in auto)
qed

section \<open>Exports\<close>

lemma Export_sound_store:
  assumes "Export E L m e mk toDir st = (st', r)" "sound_store D U st"
  shows "sound_store D U st'"
proof (cases "found L m e")
  case (Some p)
  obtain st1 q where g: "Get E st (Pipeline_ID L p) = (st1, q)" by fastforce
  then have "sound_store D U st1" using sound_store_Get [OF assms(2), of E "Pipeline_ID L p"] by simp
  moreover have "st' = st1"
    using assms(1) Some g
    by (auto simp: Export_def found_def split: option.splits prod.splits sum.splits if_splits)
  ultimately show ?thesis by simp
qed (use assms in \<open>auto simp: Export_def found_def split: option.splits\<close>)

lemma export_all_other:
  "export_all E L m out i es st dirs = (st', dirs', err) \<Longrightarrow> d \<notin> (\<lambda>e. path_Join [out, e]) ` set es \<Longrightarrow> dirs' d = dirs d"
  by (induction E L m out i es st dirs rule: export_all.induct) (auto simp: Let_def split: prod.splits sum.splits)

lemma export_all_gives:
  assumes "export_all E L m out i es st dirs = (st', dirs', None)" "sound_store D U st"
    and "distinct (map (\<lambda>e. path_Join [out, e]) es)" "e \<in> set es" "found L m e = Some p"
    and "ids_denote D F L p" "pl_Stages p \<noteq> []"
  shows "\<exists>t. holds_tree t (run_abstract F (pl_Stages p)) \<and> dirs' (path_Join [out, e]) = overlay (dirs (path_Join [out, e])) t"
  using assms(1-4)
proof (induction es arbitrary: i st dirs)
  case (Cons x es)
  let ?d = "path_Join [out, x]"
  obtain st1 dir where x: "Export (ce_at E (AtExport i)) L m x (ce_mkdir E ?d) (dirs ?d) st = (st1, Inr dir)"
    and rest: "export_all E L m out (Suc i) es st1 (dirs(?d := dir)) = (st', dirs', None)"
    using Cons.prems(1) by (auto simp: Let_def split: prod.splits sum.splits)
  have s1: "sound_store D U st1" using x Cons.prems(2) by (rule Export_sound_store)
  have new: "?d \<notin> (\<lambda>e. path_Join [out, e]) ` set es" using Cons.prems(3) by simp
  show ?case
  proof (cases "e = x")
    case True
    with Export_gives(2) [OF x Cons.prems(2) _ assms(6,7)] assms(5) export_all_other [OF rest new] show ?thesis by simp
  next
    case False
    then have e: "e \<in> set es" using Cons.prems(4) by simp
    then have "path_Join [out, e] \<noteq> ?d" using new by (metis imageI)
    with Cons.IH [OF rest s1 _ e] Cons.prems(3) show ?thesis by simp
  qed
qed simp

text \<open>C1: What is exported is what the manifest says. When a run exits with 0, the directory of every export
  holds the tree the stages of its pipeline give, one after the other, from an empty root: whatever was
  in the cache, from whatever checkpoint the build started, and whatever else was built or exported.
  This needs a cache that is sound to begin with and whose entries can be removed, stages that are
  functions of the tree, and new directories to export to.\<close>

theorem run_exports_images:
  assumes "run L E args = Some oc" "oc_code oc = 0"
    and "parse_flags args default_flags = Inr f" "\<not> fl_version f" "\<not> fl_inspect f" "prepare L E f = Inr (path, m, marked)"
    and "disk_sound D (ce_disk E (fl_cache f))" "s_next (ce_disk E (fl_cache f)) = 0"
    and "run_ok D F L m (ce_stages E (fl_libdir f) (stage_timeout f))"
    and "distinct (map (\<lambda>e. path_Join [fl_outputDir f, e]) (fl_exports f))"
    and "e \<in> set (fl_exports f)" "found L m e = Some p" "pl_Stages p \<noteq> []"
    and "holds_tree (ce_dirs E (path_Join [fl_outputDir f, e])) empty_root"
  shows "holds_tree (oc_dirs oc (path_Join [fl_outputDir f, e])) (run_abstract F (pl_Stages p))"
proof -
  have "run_flags L E f = Some oc" using assms(1,3) by (simp add: run_def)
  then obtain st st' oc1 where o: "Open (ce_at E AtOpen) (ce_disk E (fl_cache f)) False = Inr st"
    and w: "work L E f path m marked st = Some (st', oc1)" "oc = oc1\<lparr>oc_store := Some (Close st')\<rparr>"
  proof (cases rule: run_flags_cases)
    case idle
    from idle(4) [of "(path, m, marked)"] assms(2,4,5,6) show ?thesis by simp
  qed (use assms(6) that in auto)
  from w(1) show ?thesis
  proof (cases rule: work_cases)
    case (failed x mon)
    with assms(2) w(2) show ?thesis by simp
  next
    case (built st1 names b rs mon)
    have ok: "rs_success rs" using finish_fields [OF built(4)] assms(2) w(2) by auto
    obtain st2 where x: "export_all E L m (fl_outputDir f) 0 (fl_exports f) (bs_store b) (ce_dirs E) = (st2, oc_dirs oc, None)"
      using finish_fields(1) [OF built(4) _ ok] assms(2) w(2) by auto
    have "disk_sound D st1" using assms(7) by (rule disk_sound_same) (use Open_fields [OF o] set_limit_fields [OF built(1)] in simp)
    then have "sound_store D {} st1"
      using Open_fields [OF o] set_limit_fields [OF built(1)] assms(8) by (intro sound_store_opened) simp_all
    from Build_sound [OF built(3) ok this assms(9)] obtain U where "sound_store D U (bs_store b)" by blast
    moreover have "ids_denote D F L p" using assms(9,12) by (auto simp: run_ok_def)
    ultimately obtain t where "holds_tree t (run_abstract F (pl_Stages p))"
      "oc_dirs oc (path_Join [fl_outputDir f, e]) = overlay (ce_dirs E (path_Join [fl_outputDir f, e])) t"
      using export_all_gives [OF x _ assms(10,11,12) _ assms(13)] by blast
    then show ?thesis using holds_tree_overlay [OF _ assms(14)] by simp
  qed
qed

section \<open>Coming back\<close>

lemma fuel_irrelevant [simp]:
  "load_manifest (E\<lparr>ce_fuel := n\<rparr>) f = load_manifest E f" "check_manifest L (E\<lparr>ce_fuel := n\<rparr>) f desc = check_manifest L E f desc"
  "set_limit (E\<lparr>ce_fuel := n\<rparr>) f st = set_limit E f st" "idle_outcome (E\<lparr>ce_fuel := n\<rparr>) = idle_outcome E"
  "tell L (E\<lparr>ce_fuel := n\<rparr>) calls mn = tell L E calls mn" "summary L (E\<lparr>ce_fuel := n\<rparr>) m marked st = summary L E m marked st"
  by (simp_all add: load_manifest_def check_manifest_def set_limit_def idle_outcome_def tell_def summary_def Let_def
      split: sum.split prod.split)

lemma fuel_prepare [simp]: "prepare L (E\<lparr>ce_fuel := n\<rparr>) f = prepare L E f"
  by (simp add: prepare_def split: sum.split option.split)

lemma fuel_export_all [simp]: "export_all (E\<lparr>ce_fuel := n\<rparr>) L m out i es st dirs = export_all E L m out i es st dirs"
  by (induction es arbitrary: i st dirs) (auto simp: Let_def split: prod.split sum.split)

lemma fuel_finish [simp]: "finish L (E\<lparr>ce_fuel := n\<rparr>) f m marked rs st oc = finish L E f m marked rs st oc"
  by (simp add: finish_def Let_def split: prod.split option.split)

text \<open>The fuel of the solver is the only way a run depends on fuel.\<close>

lemma work_fuel:
  assumes "\<forall>n' \<ge> n. Depsolve n' L (ce_poll E PollDepsolve) m (Contains (fst (set_limit E f st))) (fl_exports f) = Some d" "n \<le> n'"
  shows "work L (E\<lparr>ce_fuel := n'\<rparr>) f path m marked st = work L (E\<lparr>ce_fuel := n\<rparr>) f path m marked st
    \<and> (\<exists>w. work L (E\<lparr>ce_fuel := n\<rparr>) f path m marked st = Some w)"
proof -
  have D: "Depsolve k L (ce_poll E PollDepsolve) m (Contains (fst (set_limit E f st))) (fl_exports f) = Some d" if "n \<le> k" for k
    using assms(1) that by simp
  obtain st1 e where lim: "set_limit E f st = (st1, e)" by fastforce
  show ?thesis
    using D [OF order_refl] D [OF assms(2)] unfolding lim
    by (cases e; cases d) (auto simp: work_def lim Let_def split: sum.split prod.split option.split)
qed

text \<open>A run that opens no store does not depend on the fuel at all.\<close>

lemma run_flags_early:
  assumes "\<nexists>path m marked st. prepare L E f = Inr (path, m, marked)
      \<and> Open (ce_at E AtOpen) (ce_disk E (fl_cache f)) False = Inr st"
  shows "\<exists>oc. \<forall>n. run_flags L (E\<lparr>ce_fuel := n\<rparr>) f = Some oc"
proof (cases "prepare L E f")
  case (Inl e)
  then show ?thesis by (cases "fl_version f") (simp_all add: run_flags_def)
next
  case (Inr q)
  then obtain path m marked x where "prepare L E f = Inr (path, m, marked)"
    "Open (ce_at E AtOpen) (ce_disk E (fl_cache f)) False = Inl x"
    using assms by (cases q; cases "Open (ce_at E AtOpen) (ce_disk E (fl_cache f)) False") auto
  then show ?thesis
    by (cases "fl_version f"; cases "fl_inspect f"; cases "fl_exports f \<noteq> [] \<and> fl_outputDir f = []")
      (auto simp: run_flags_def Let_def)
qed

text \<open>What the model leaves open about coming back is the loop of the solver, which has fuel: when the
  references between the pipelines of the manifest have a rank, that is no cycle, enough fuel gives every
  invocation an outcome, whatever the arguments are. The calls that may block (a stage without a time
  limit, a service that does not answer, the lock of the store) are functions with a value here, so this
  says nothing about them.\<close>

lemma run_returns:
  assumes "\<And>f path m marked has p q. parse_flags args default_flags = Inr f \<Longrightarrow> prepare L E f = Inr (path, m, marked) \<Longrightarrow>
      wanted L m has (fl_exports f) p \<Longrightarrow> q \<in> deps L m has p \<Longrightarrow> needed L has q \<Longrightarrow> (rank q :: nat) < rank p"
  shows "\<exists>fuel oc. \<forall>fuel' \<ge> fuel. run L (E\<lparr>ce_fuel := fuel'\<rparr>) args = Some oc"
proof (cases "parse_flags args default_flags")
  case (Inl e)
  then show ?thesis by (auto simp: run_def)
next
  case (Inr f)
  show ?thesis
  proof (cases "\<exists>path m marked st. prepare L E f = Inr (path, m, marked)
      \<and> Open (ce_at E AtOpen) (ce_disk E (fl_cache f)) False = Inr st")
    case False
    from run_flags_early [OF this] show ?thesis by (auto simp: run_def Inr)
  next
    case True
    then obtain path m marked st where p: "prepare L E f = Inr (path, m, marked)"
      and o: "Open (ce_at E AtOpen) (ce_disk E (fl_cache f)) False = Inr st" by blast
    let ?has = "Contains (fst (set_limit E f st))"
    have "\<exists>n d. \<forall>n' \<ge> n. Depsolve n' L (ce_poll E PollDepsolve) m ?has (fl_exports f) = Some d"
      by (rule Depsolve_returns) (rule assms [OF Inr p])
    then obtain n d where "\<forall>n' \<ge> n. Depsolve n' L (ce_poll E PollDepsolve) m ?has (fl_exports f) = Some d" by blast
    note W = work_fuel [OF this, where path = path and marked = marked]
    obtain w where w0: "work L (E\<lparr>ce_fuel := n\<rparr>) f path m marked st = Some w" using W [OF order_refl] by blast
    have w: "work L (E\<lparr>ce_fuel := n'\<rparr>) f path m marked st = Some w" if "n \<le> n'" for n' using W [OF that] w0 by simp
    have same: "run L (E\<lparr>ce_fuel := n'\<rparr>) args = run L (E\<lparr>ce_fuel := n\<rparr>) args" if "n \<le> n'" for n'
      by (simp add: run_def Inr run_flags_def p o w [OF that] w0 Let_def)
    obtain oc where "run L (E\<lparr>ce_fuel := n\<rparr>) args = Some oc"
    proof (cases "run L (E\<lparr>ce_fuel := n\<rparr>) args")
      case None
      then show ?thesis by (auto simp: run_def Inr run_flags_def p o w0 Let_def split: if_splits)
    qed
    with same show ?thesis by auto
  qed
qed

section \<open>What is built\<close>

lemma depsolve_loop_cached:
  assumes "\<And>i. ctx i = None" "\<forall>p. Some p \<in> set check \<longrightarrow> \<not> needed L has p" "length check \<le> fuel"
  shows "depsolve_loop fuel L m has ctx i check keys bm = Some (Inr (keys, bm))"
  using assms(2,3)
proof (induction check arbitrary: fuel i)
  case (Cons pl check)
  then obtain n where n: "fuel = Suc n" by (cases fuel) auto
  show ?case
  proof (cases pl)
    case (Some p)
    with Cons have "Pipeline_ID L p = [] \<or> has (Pipeline_ID L p)" by (auto simp: needed_def)
    then show ?thesis using Cons n Some assms(1) by (auto simp: Let_def)
  qed (use Cons n assms(1) in auto)
qed simp

text \<open>C36: When all the pipelines to export are in the store already, everything is built: the solver gives the
  empty list, which is taken for no targets, and all pipelines of the manifest are planned.\<close>

theorem cached_exports_build_all:
  assumes "\<And>i. ctx i = None" "\<And>e p. e \<in> set targets \<Longrightarrow> found L m e = Some p \<Longrightarrow> \<not> needed L has p" "length targets \<le> fuel"
  shows "\<exists>names. Depsolve fuel L ctx m has targets = Some (Inr names) \<and> planned m names = map pl_Name (mf_Pipelines m)"
proof -
  have "length (depsolve_targets L m targets) \<le> length targets"
  proof -
    have "length (fold (\<lambda>t check. case find_pipeline L m t of None \<Rightarrow> check | Some p \<Rightarrow> Some p # check) ts check) \<le> length check + length ts" for ts check
    proof (induction ts arbitrary: check)
      case (Cons t ts)
      show ?case using Cons [of "case find_pipeline L m t of None \<Rightarrow> check | Some p \<Rightarrow> Some p # check"]
        by (auto split: option.splits)
    qed simp
    from this [of targets "[]"] show ?thesis by (simp add: depsolve_targets_def)
  qed
  moreover have "\<not> needed L has p" if "Some p \<in> set (depsolve_targets L m targets)" for p
    using that assms(2) by (auto simp: in_depsolve_targets found_def find_pipeline_def)
  ultimately have "depsolve_loop fuel L m has ctx 0 (depsolve_targets L m targets) [] Map.empty = Some (Inr ([], Map.empty))"
    using assms(1,3) by (intro depsolve_loop_cached) auto
  then show ?thesis by (simp add: Depsolve_def planned_def)
qed

section \<open>An example\<close>

text \<open>An image of one pipeline that is in the store already, exported to a new directory.\<close>

definition demo_image :: gobject where
  "demo_image = [(''version'', GString ''2''), (''pipelines'', GSlice
     [GMap [(''name'', GString ''os''), (''stages'', GSlice [GMap [(''type'', GString ''tar'')]])]])]"

definition demo_args :: "string list" where
  "demo_args = [''-q'', ''--export=os'', ''--output-directory'', ''out'', ''m.json'']"

definition demo_flags :: flags where
  "demo_flags = default_flags\<lparr>fl_quiet := True, fl_exports := [''os''], fl_outputDir := ''out'', fl_args := [''m.json'']\<rparr>"

lemma demo_args_parse: "parse_flags demo_args default_flags = Inr demo_flags"
  by code_simp

definition demo_tree :: dirtree where
  "demo_tree = [([], \<lparr>fn_mtime = 0, fn_blocks = 0, fn_data = [], fn_locked = False\<rparr>)]"

definition cached_disk :: "string \<Rightarrow> sstore" where
  "cached_disk i = demo_store\<lparr>s_objs := [], s_next := 0, d_stage := [], d_objects :=
     [(i, \<lparr>od_lock = Some 5, od_data = Some \<lparr>dd_tree = demo_tree, dd_meta = Some []\<rparr>, od_info = Some 0\<rparr>)]\<rparr>"

definition demo_cli :: "string \<Rightarrow> cli_env" where
  "demo_cli i = \<lparr>ce_open = \<lambda>_. True, ce_decode = \<lambda>_. Inr demo_image, ce_vctx = \<lambda>_. (\<lambda>_ _. SchemaOk, \<lambda>_ _. Some []),
     ce_api = \<lambda>_. demo_api, ce_poll = \<lambda>_ _. None, ce_encode = \<lambda>_. True, ce_fuel = 2, ce_disk = \<lambda>_. cached_disk i,
     ce_root = \<lambda>p. ''/'' @ p, ce_at = \<lambda>_. demo_env, ce_sources = \<lambda>_. \<lparr>sm_start = \<lambda>_ _. None, sm_call = \<lambda>_ _ _. None\<rparr>,
     ce_stages = \<lambda>_ _ k. (demo_build_env 0)\<lparr>be_uuid := replicate k CHR ''u''\<rparr>, ce_mkdir = \<lambda>_. True,
     ce_dirs = \<lambda>_. demo_tree, ce_visit = id, ce_marks = \<lambda>_. [], ce_dig = \<lambda>_. [],
     ce_mon = \<lambda>_. (\<lparr>me_Marshal = \<lambda>_. None, me_now = FFin 0, me_since = FFin 0\<rparr>,
       \<lparr>le_time = \<lambda>_. [], le_indent = \<lambda>_. [], le_seconds = []\<rparr>)\<rparr>"

lemma demo_image_parses:
  "\<exists>m a. Parse demo_lib (\<lambda>_. None) demo_api demo_image = Inr m \<and> mf_Pipelines m = [a] \<and> mf_Sources m = []
     \<and> pl_Name a = ''os'' \<and> Pipeline_lookup m ''os'' = Some a \<and> length (pl_Stages a) = 1
     \<and> pl_Build a = None \<and> Stage_Dependencies (last (pl_Stages a)) = []"
  by (simp add: image_eval demo_image_def)

lemma demo_valid: "Valid (Validate (\<lambda>_ _. SchemaOk, \<lambda>_ _. Some []) (\<lambda>_. None) demo_image)"
  by code_simp


lemma demo_flags_fields [simp]:
  "fl_version demo_flags = False" "fl_inspect demo_flags = False" "fl_exports demo_flags = [''os'']"
  "fl_outputDir demo_flags = ''out''" "fl_quiet demo_flags = True" "fl_json demo_flags = False"
  "fl_cacheMaxSize demo_flags = []" "fl_logLevel demo_flags = []" "fl_checkpoints demo_flags = []"
  "fl_args demo_flags = [''m.json'']" "fl_monitor demo_flags = []"
  by (simp_all add: demo_flags_def default_flags_def)

lemma demo_cli_fields [simp]:
  "ce_open (demo_cli i) x = True" "ce_decode (demo_cli i) x = Inr demo_image"
  "ce_vctx (demo_cli i) x = (\<lambda>_ _. SchemaOk, \<lambda>_ _. Some [])" "ce_api (demo_cli i) x = demo_api"
  "ce_poll (demo_cli i) ph = (\<lambda>_. None)" "ce_fuel (demo_cli i) = 2" "ce_disk (demo_cli i) x = cached_disk i"
  "ce_at (demo_cli i) y = demo_env" "ce_mkdir (demo_cli i) x = True" "ce_dirs (demo_cli i) x = demo_tree"
  "ce_stages (demo_cli i) x z k = (demo_build_env 0)\<lparr>be_uuid := replicate k CHR ''u''\<rparr>"
  by (simp_all add: demo_cli_def)

lemma demo_prepare:
  assumes "Parse demo_lib (\<lambda>_. None) demo_api demo_image = Inr m" "Pipeline_lookup m ''os'' = Some a"
  shows "prepare demo_lib (demo_cli i) demo_flags = Inr (''m.json'', m, {})"
  using assms demo_valid
  by (simp add: prepare_def load_manifest_def check_manifest_def Let_def)

definition opened :: "string \<Rightarrow> sstore" where
  "opened i = (cached_disk i)\<lparr>s_readOnly := False, s_maximumSize := maximum_of_info (InfoObject []), s_hostTree := False, s_locked := True\<rparr>"

lemma demo_Open: "Open demo_env (cached_disk i) False = Inr (opened i)"
  by (simp add: Open_def opened_def cached_disk_def demo_env_def demo_store_def Let_def)

lemma opened_Contains [simp]: "Contains (opened i) j \<longleftrightarrow> j = i \<and> i \<noteq> []"
  by (auto simp: Contains_def opened_def cached_disk_def)

lemma demo_export:
  assumes "Pipeline_lookup m ''os'' = Some a" "Pipeline_ID demo_lib a = i"
  shows "\<exists>st. Export demo_env demo_lib m ''os'' True demo_tree (opened i) = (st, Inr (overlay demo_tree demo_tree))"
  using assms
  by (simp add: Export_def Get_def opened_def cached_disk_def Let_def alloc_def NewMetadata_def Object_Export_def data_at_def
      demo_env_def)

lemma cached_Depsolve:
  assumes "Pipeline_lookup m ''os'' = Some a" "Pipeline_ID demo_lib a = i" "i \<noteq> []"
  shows "Depsolve 2 demo_lib (\<lambda>_. None) m (Contains (opened i)) [''os''] = Some (Inr [])"
  using assms by (simp add: Depsolve_def depsolve_targets_def find_pipeline_def numeral_2_eq_2 Let_def)

lemma demo_Build:
  assumes "Pipeline_lookup m ''os'' = Some a" "Pipeline_ID demo_lib a = i" "i \<noteq> []" "pl_Name a = ''os''"
  shows "\<exists>b. Build (\<lambda>_. None) Bs demo_lib m (opened i) [''os'']
      = (b, Inr \<lparr>rs_success = True, rs_pipelines = [(i, \<lparr>pr_success = True, pr_name = ''os'', pr_stages = None\<rparr>)]\<rparr>)
      \<and> bs_store b = opened i"
  using assms by (simp add: Build_def BuildPipeline_def Let_def gset_def)

lemma demo_run:
  assumes "Parse demo_lib (\<lambda>_. None) demo_api demo_image = Inr m" "mf_Pipelines m = [a]" "mf_Sources m = []"
    "Pipeline_lookup m ''os'' = Some a" "Pipeline_ID demo_lib a = i" "i \<noteq> []" "pl_Name a = ''os''"
  shows "\<exists>oc. run demo_lib (demo_cli i) demo_args = Some oc \<and> oc_code oc = 0 \<and> oc_store oc \<noteq> None"
proof -
  obtain b where b: "Build (\<lambda>_. None) (ce_stages (demo_cli i) (fl_libdir demo_flags) (stage_timeout demo_flags)) demo_lib m (opened i) [''os'']
      = (b, Inr \<lparr>rs_success = True, rs_pipelines = [(i, \<lparr>pr_success = True, pr_name = ''os'', pr_stages = None\<rparr>)]\<rparr>)"
    "bs_store b = opened i"
    using demo_Build [OF assms(4-7)] by blast
  obtain st where x: "Export demo_env demo_lib m ''os'' True demo_tree (opened i) = (st, Inr (overlay demo_tree demo_tree))"
    using demo_export [OF assms(4,5)] by blast
  have "\<exists>w. work demo_lib (demo_cli i) demo_flags ''m.json'' m {} (opened i) = Some w \<and> oc_code (snd w) = 0"
    using assms(2,3,7) b x
    by (simp add: work_def set_limit_def cached_Depsolve [OF assms(4,5,6)] planned_def monitor_name_def Make_monitor_def Let_def
        finish_def case_prod_beta)
  then show ?thesis
    using demo_prepare [OF assms(1,4)] demo_Open
    by (auto simp: run_def demo_args_parse run_flags_def)
qed

lemma demo_cli_run:
  obtains m a oc where "Parse demo_lib (\<lambda>_. None) demo_api demo_image = Inr m" "Pipeline_lookup m ''os'' = Some a"
    "pl_Stages a \<noteq> []" "Pipeline_ID demo_lib a \<noteq> []" "prepare demo_lib (demo_cli (Pipeline_ID demo_lib a)) demo_flags = Inr (''m.json'', m, {})"
    "run demo_lib (demo_cli (Pipeline_ID demo_lib a)) demo_args = Some oc" "oc_code oc = 0" "oc_store oc \<noteq> None"
proof -
  obtain m a where m: "Parse demo_lib (\<lambda>_. None) demo_api demo_image = Inr m" "mf_Pipelines m = [a]" "mf_Sources m = []"
    "pl_Name a = ''os''" "Pipeline_lookup m ''os'' = Some a" "length (pl_Stages a) = 1"
    using demo_image_parses by blast
  have ne: "pl_Stages a \<noteq> []" using m(6) by auto
  then have id': "Pipeline_ID demo_lib a \<noteq> []" by (simp add: Pipeline_ID_def Stage_ID_nonempty)
  obtain oc where "run demo_lib (demo_cli (Pipeline_ID demo_lib a)) demo_args = Some oc \<and> oc_code oc = 0 \<and> oc_store oc \<noteq> None"
    using demo_run [OF m(1,2,3,5) HOL.refl id' m(4)] by blast
  then show thesis using that [OF m(1,5) ne id' demo_prepare [OF m(1,5)]] by blast
qed

theorem run_checks_first_witness:
  "\<exists>m i oc f. run demo_lib (demo_cli i) demo_args = Some oc \<and> parse_flags demo_args default_flags = Inr f
     \<and> Parse demo_lib (\<lambda>_. None) demo_api demo_image = Inr m \<and> found demo_lib m ''os'' \<noteq> None"
proof -
  obtain m a oc where r: "run demo_lib (demo_cli (Pipeline_ID demo_lib a)) demo_args = Some oc" "oc_store oc \<noteq> None"
    by (rule demo_cli_run)
  have "set (fl_exports demo_flags) = {''os''}" by simp
  with run_checks_first [OF r(1)] r show ?thesis
    by (auto simp: demo_args_parse load_manifest_def Let_def)
qed

theorem run_success_built_witness:
  "\<exists>i m names b rs. Depsolve 2 demo_lib (\<lambda>_. None) m (Contains (opened i)) [''os''] = Some (Inr names)
     \<and> Build (\<lambda>_. None) (ce_stages (demo_cli i) [] None) demo_lib m (opened i) (planned m names) = (b, Inr rs) \<and> rs_success rs
     \<and> all_built demo_lib m (planned m names) (opened i) (bs_events b) (bs_store b)"
proof -
  obtain m a oc where r: "run demo_lib (demo_cli (Pipeline_ID demo_lib a)) demo_args = Some oc" "oc_code oc = 0" "oc_store oc \<noteq> None"
    by (rule demo_cli_run)
  from run_success_built [OF r(1)] r(2,3) show ?thesis
    by (auto simp: demo_args_parse demo_Open set_limit_def demo_cli_def) blast
qed

lemma fold_same: "fold (\<lambda>s c. c) xs x = x"
  by (induction xs) auto

theorem run_exports_images_witness:
  "\<exists>i oc. run demo_lib (demo_cli i) demo_args = Some oc \<and> holds_tree (oc_dirs oc ''out/os'') empty_root"
proof -
  obtain m a oc where r: "Pipeline_lookup m ''os'' = Some a" "pl_Stages a \<noteq> []" "Pipeline_ID demo_lib a \<noteq> []"
    "prepare demo_lib (demo_cli (Pipeline_ID demo_lib a)) demo_flags = Inr (''m.json'', m, {})"
    "run demo_lib (demo_cli (Pipeline_ID demo_lib a)) demo_args = Some oc" "oc_code oc = 0"
    by (rule demo_cli_run)
  let ?i = "Pipeline_ID demo_lib a" and ?D = "\<lambda>_. empty_root" and ?F = "\<lambda>s c. c"
  have tree: "holds_tree demo_tree empty_root"
    by (auto simp: holds_tree_def tree_ok_def content_def tcontent_def demo_tree_def empty_root_def gmap_ok_def)
  have disk: "disk_sound ?D (cached_disk ?i)"
    using tree by (auto simp: disk_sound_def tree_of_def data_at_def cached_disk_def split: if_splits)
  have ok: "run_ok ?D ?F demo_lib m (ce_stages (demo_cli ?i) (fl_libdir demo_flags) (stage_timeout demo_flags))"
    by (auto simp: run_ok_def inj_def removes_def demo_env_def stages_refine_def ids_denote_def run_abstract_def fold_same demo_build_env_def
        dest: arg_cong [where f = length])
  have path: "path_Join [''out'', ''os''] = ''out/os''" by code_simp
  have "holds_tree (oc_dirs oc (path_Join [fl_outputDir demo_flags, ''os''])) (run_abstract ?F (pl_Stages a))"
    by (rule run_exports_images [OF r(5,6) demo_args_parse _ _ r(4) _ _ ok])
      (use disk tree r(1,2) in \<open>simp_all add: found_def cached_disk_def\<close>)
  then have "holds_tree (oc_dirs oc ''out/os'') empty_root" by (simp add: path run_abstract_def fold_same)
  with r(5) show ?thesis by blast
qed

lemma demo_wanted_one:
  assumes "wanted demo_lib m has [''os''] p" "Pipeline_lookup m ''os'' = Some a" "pl_Stages a = [s]" "pl_Build a = None"
    "Stage_Dependencies s = []"
  shows "p = a \<and> deps demo_lib m has a = {}"
proof -
  have d: "deps demo_lib m has a = {}" using assms(3-5) by (auto simp: deps_def dep_ids_def live_stages_def)
  from assms(1) show ?thesis
    by induction (use assms(2) d in \<open>auto simp: find_pipeline_def\<close>)
qed

lemma run_returns_demo:
  "\<exists>fuel oc. run demo_lib ((demo_cli [])\<lparr>ce_fuel := fuel\<rparr>) demo_args = Some oc"
proof -
  obtain m a s where m: "Parse demo_lib (\<lambda>_. None) demo_api demo_image = Inr m" "Pipeline_lookup m ''os'' = Some a"
    "pl_Stages a = [s]" "pl_Build a = None" "Stage_Dependencies s = []"
    using demo_image_parses by (auto simp: length_Suc_conv)
  have "\<exists>fuel oc. \<forall>fuel' \<ge> fuel. run demo_lib ((demo_cli [])\<lparr>ce_fuel := fuel'\<rparr>) demo_args = Some oc"
  proof (rule run_returns [where rank = "\<lambda>_. 0"])
    fix f path m' marked has p q
    assume a: "parse_flags demo_args default_flags = Inr f" "prepare demo_lib (demo_cli []) f = Inr (path, m', marked)"
      "wanted demo_lib m' has (fl_exports f) p" "q \<in> deps demo_lib m' has p"
    then have "f = demo_flags" "m' = m" using demo_prepare [OF m(1,2)] by (simp_all add: demo_args_parse)
    with a(3,4) demo_wanted_one [OF _ m(2-5)] show "(0::nat) < 0" by auto
  qed
  then show ?thesis by blast
qed

theorem cached_exports_build_all_witness:
  "\<exists>m i names. Depsolve 1 demo_lib (\<lambda>_. None) m (Contains (opened i)) [''os''] = Some (Inr names)
     \<and> planned m names = map pl_Name (mf_Pipelines m) \<and> mf_Pipelines m \<noteq> []"
proof -
  obtain m a where m: "mf_Pipelines m = [a]" "Pipeline_lookup m ''os'' = Some a" using demo_image_parses by blast
  have "\<exists>names. Depsolve 1 demo_lib (\<lambda>_. None) m (Contains (opened (Pipeline_ID demo_lib a))) [''os''] = Some (Inr names)
      \<and> planned m names = map pl_Name (mf_Pipelines m)"
    by (rule cached_exports_build_all) (use m in \<open>auto simp: found_def needed_def\<close>)
  with m show ?thesis by force
qed

end
