(* ===== verification/Floating.thy ===== *)
theory Floating
  imports ApiStore Paths
begin

text \<open>
  The objects of a store that are handed to another process (\<^verbatim>\<open>ToDict\<close>, \<^verbatim>\<open>ObjectFromDict\<close>,
  \<^verbatim>\<open>ExportFloating\<close> and \<^verbatim>\<open>LoadFloating\<close> of \<^verbatim>\<open>store/\<close>), and the names of stage directories. The other
  process has the store under the same root; \<open>ok\<close> says of a data directory whether its metadata
  directory is there or can be made.
\<close>

section \<open>Handing objects over\<close>

definition mode_int :: "object_mode \<Rightarrow> int" where
  "mode_int m = (case m of ModeRead \<Rightarrow> 0 | ModeWrite \<Rightarrow> 1)"

definition ToDict :: "string \<Rightarrow> object \<Rightarrow> gobject" where
  "ToDict rt ob =
     [(''mode'', GInt (mode_int (ob_mode ob))), (''id'', GString (ob_id ob)),
      (''path'', GString (case Rel rt (data_dir rt (ob_path ob)) of Some p \<Rightarrow> p | None \<Rightarrow> []))]"

definition ExportFloating :: "string \<Rightarrow> sstore \<Rightarrow> gobject list" where
  "ExportFloating rt st =
     map (\<lambda>(i, a). ToDict rt (s_heap st a)) (filter (\<lambda>(i, a). ob_mode (s_heap st a) = ModeRead) (s_objs st))"

record floating =
  fo_id :: string
  fo_mode :: int
  fo_path :: string

text \<open>\<open>int(x)\<close> of a \<open>float64\<close>: towards zero; on this platform what does not fit is the least integer.\<close>

definition float_to_int :: "gofloat \<Rightarrow> int" where
  "float_to_int x =
     (case x of
        FFin q \<Rightarrow> let n = (if q < 0 then \<lceil>q\<rceil> else \<lfloor>q\<rfloor>) in if min_int64 \<le> n \<and> n \<le> max_int64 then n else min_int64
      | _ \<Rightarrow> min_int64)"

definition ObjectFromDict :: "(string \<Rightarrow> bool) \<Rightarrow> string \<Rightarrow> gobject \<Rightarrow> string + floating" where
  "ObjectFromDict ok rt data =
     (let modeVal = (case map_of data ''mode'' of Some (GFloat x) \<Rightarrow> x | _ \<Rightarrow> FFin 0);
          absPath = path_Join [rt, get_string0 data ''path'']
      in if \<not> ok absPath then Inl (''loading floating object metadata: '' @ absPath)
         else Inr \<lparr>fo_id = get_string0 data ''id'', fo_mode = float_to_int modeVal, fo_path = absPath\<rparr>)"

text \<open>The objects the store then has, and the error.\<close>

fun load_floating :: "(string \<Rightarrow> bool) \<Rightarrow> string \<Rightarrow> gobject list \<Rightarrow> (string, floating) gmap \<Rightarrow> (string, floating) gmap \<times> string option" where
  "load_floating ok rt [] objs = (objs, None)"
| "load_floating ok rt (data # rest) objs =
     (case ObjectFromDict ok rt data of
        Inl e \<Rightarrow> (objs, Some e)
      | Inr ob \<Rightarrow> load_floating ok rt rest (gset (fo_id ob) ob objs))"

definition LoadFloating ::
    "(string \<Rightarrow> bool) \<Rightarrow> string \<Rightarrow> bool \<Rightarrow> gobject list \<Rightarrow> (string, floating) gmap \<Rightarrow> (string, floating) gmap \<times> string option" where
  "LoadFloating ok rt readOnly dicts objs =
     (if \<not> readOnly then (objs, Some ''store must be read-only to use LoadFloating'')
      else load_floating ok rt dicts [])"

text \<open>A dictionary that went through JSON: its integers are floating-point numbers.\<close>

definition json_trip :: "gobject \<Rightarrow> gobject" where
  "json_trip d = map (\<lambda>(k, v). (k, case v of GInt n \<Rightarrow> GFloat (FFin (of_int (to_float64 n))) | _ \<Rightarrow> v)) d"

section \<open>The same objects arrive\<close>

text \<open>The components of the path of a data directory under the root.\<close>

definition data_parts :: "data_path \<Rightarrow> string list" where
  "data_parts p = (case p of InStage u \<Rightarrow> [''stage'', ''uuid-'' @ u, ''data''] | InObjects i \<Rightarrow> [''objects'', i, ''data''])"

definition plain_path :: "data_path \<Rightarrow> bool" where
  "plain_path p \<longleftrightarrow> (\<forall>c \<in> set (data_parts p). plain c)"

lemma path_Join_split: "s \<noteq> [] \<Longrightarrow> ts \<noteq> [] \<Longrightarrow> path_Join (s # ts) = path_Join [s, Join ts ''/'']"
  by (cases ts) (auto simp: path_Join_def)

lemma data_dir_abs:
  assumes "\<forall>c \<in> set cs. plain c" "cs \<noteq> []" "plain_path p"
  shows "data_dir (abs_path cs) p = abs_path (cs @ data_parts p)"
proof -
  have two: "data_dir (abs_path cs) p = abs_path (cs @ [a, b, ''data''])"
    if "data_dir (abs_path cs) p = path_Join [path_Join [abs_path cs, a, b], ''data'']" "plain a" "plain b" for a b
  proof -
    have d: "plain ''data''" by (simp add: plain_def)
    have "path_Join [abs_path cs, a, b] = abs_path (cs @ [a, b])"
      using path_Join_below [of cs "[a, b]"] assms(1,2) that(2,3) path_Join_split [of "abs_path cs" "[a, b]"]
      by (auto simp: abs_path_def)
    then show ?thesis
      using that path_Join_below [of "cs @ [a, b]" "[''data'']"] assms(1) d by auto
  qed
  show ?thesis
    using assms(3) two
    by (cases p) (auto simp: data_dir_def data_parts_def plain_path_def)
qed

lemma ToDict_path:
  assumes "\<forall>c \<in> set cs. plain c" "cs \<noteq> []" "plain_path (ob_path ob)"
  shows "path_Join [abs_path cs, get_string0 (ToDict (abs_path cs) ob) ''path''] = data_dir (abs_path cs) (ob_path ob)"
proof -
  have ne: "data_parts (ob_path ob) \<noteq> []" by (simp add: data_parts_def split: data_path.split)
  have all: "\<forall>c \<in> set (cs @ data_parts (ob_path ob)). plain c" using assms(1,3) by (auto simp: plain_path_def)
  note D = data_dir_abs [OF assms]
  have "Rel (abs_path cs) (data_dir (abs_path cs) (ob_path ob)) = Some (Join (data_parts (ob_path ob)) ''/'')"
    unfolding D using all assms(2) ne by (rule Rel_below)
  then have "get_string0 (ToDict (abs_path cs) ob) ''path'' = Join (data_parts (ob_path ob)) ''/''"
    by (simp add: ToDict_def get_string0_def get_string_def)
  then show ?thesis unfolding D using path_Join_below [OF all assms(2) ne] by simp
qed

text \<open>A dictionary that went through JSON says the same, since only objects that can be read are handed over.\<close>

lemma get_string0_trip [simp]: "get_string0 (json_trip (ToDict rt ob)) k = get_string0 (ToDict rt ob) k"
  by (simp add: json_trip_def ToDict_def get_string0_def get_string_def)

lemma trip_mode:
  assumes "ob_mode ob = ModeRead" "d \<in> {ToDict rt ob, json_trip (ToDict rt ob)}"
  shows "float_to_int (case map_of d ''mode'' of Some (GFloat x) \<Rightarrow> x | _ \<Rightarrow> FFin 0) = 0"
proof -
  have z: "float_to_int (FFin 0) = 0" by (simp add: float_to_int_def min_int64_def max_int64_def)
  have "to_float64 0 = 0" by code_simp
  with assms z show ?thesis by (auto simp: ToDict_def json_trip_def mode_int_def)
qed

lemma ObjectFromDict_ToDict:
  assumes "\<forall>c \<in> set cs. plain c" "cs \<noteq> []" "plain_path (ob_path ob)" "ob_mode ob = ModeRead"
    and "d \<in> {ToDict (abs_path cs) ob, json_trip (ToDict (abs_path cs) ob)}" "ok (data_dir (abs_path cs) (ob_path ob))"
  shows "ObjectFromDict ok (abs_path cs) d = Inr \<lparr>fo_id = ob_id ob, fo_mode = 0, fo_path = data_dir (abs_path cs) (ob_path ob)\<rparr>"
proof -
  have s: "get_string0 d k = get_string0 (ToDict (abs_path cs) ob) k" for k using assms(5) by auto
  have "get_string0 d ''id'' = ob_id ob" unfolding s by (simp add: ToDict_def get_string0_def get_string_def)
  then show ?thesis
    using ToDict_path [OF assms(1-3)] trip_mode [OF assms(4,5)] assms(6) s
    by (simp add: ObjectFromDict_def Let_def)
qed

lemma load_floating_all:
  "list_all2 (\<lambda>d x. ObjectFromDict ok rt d = Inr x) ds xs \<Longrightarrow>
   load_floating ok rt ds objs = (fold (\<lambda>x m. gset (fo_id x) x m) xs objs, None)"
  by (induction ds xs arbitrary: objs rule: list_all2_induct) auto

lemma map_of_fold_gset:
  "distinct (map fo_id xs) \<Longrightarrow>
   map_of (fold (\<lambda>x m. gset (fo_id x) x m) xs objs) = map_of objs ++ map_of (map (\<lambda>x. (fo_id x, x)) xs)"
proof (induction xs arbitrary: objs)
  case (Cons x xs)
  have "fo_id x \<notin> dom (map_of (map (\<lambda>x. (fo_id x, x)) xs))" using Cons.prems by (simp add: dom_map_of_conv_image_fst image_image)
  then have "map_of (map (\<lambda>x. (fo_id x, x)) xs) (fo_id x) = None" by (simp add: domIff)
  with Cons show ?case by (auto simp: map_add_def fun_eq_iff split: option.split)
qed simp

lemma map_of_filter_map:
  "gmap_ok m \<Longrightarrow> map_of (map (\<lambda>(i, a). (i, g a)) (filter (\<lambda>(i, a). P a) m)) i
    = (case map_of m i of None \<Rightarrow> None | Some a \<Rightarrow> if P a then Some (g a) else None)"
proof (induction m)
  case (Cons x m)
  obtain k b where x: "x = (k, b)" by (cases x)
  have "map_of m k = None" using Cons.prems x by (simp add: gmap_ok_def map_of_eq_None_iff)
  with Cons x show ?case by (auto simp: gmap_ok_def)
qed simp

text \<open>The object of an entry as the other process has it.\<close>

definition handed :: "string \<Rightarrow> object \<Rightarrow> floating" where
  "handed rt ob = \<lparr>fo_id = ob_id ob, fo_mode = 0, fo_path = data_dir rt (ob_path ob)\<rparr>"

text \<open>C38: Handing a store over is a round trip. Loading what was exported, whether the dictionaries went through
  JSON or not, gives a read-only store with exactly the objects that could be read, under the same IDs,
  readable and with the same paths.\<close>

theorem Floating_roundtrip:
  assumes "\<forall>c \<in> set cs. plain c" "cs \<noteq> []" "gmap_ok (s_objs st)"
    and "\<And>i a. (i, a) \<in> set (s_objs st) \<Longrightarrow> ob_id (s_heap st a) = i \<and> plain_path (ob_path (s_heap st a))"
    and "\<And>p. ok p" "trip = id \<or> trip = json_trip"
  shows "\<exists>objs'. LoadFloating ok (abs_path cs) True (map trip (ExportFloating (abs_path cs) st)) objs = (objs', None)
    \<and> (\<forall>i. map_of objs' i = (case map_of (s_objs st) i of
          None \<Rightarrow> None
        | Some a \<Rightarrow> if ob_mode (s_heap st a) = ModeRead then Some (handed (abs_path cs) (s_heap st a)) else None))"
proof -
  let ?rt = "abs_path cs" and ?rd = "filter (\<lambda>(i, a). ob_mode (s_heap st a) = ModeRead) (s_objs st)"
  let ?xs = "map (\<lambda>(i, a). handed ?rt (s_heap st a)) ?rd"
  have "ObjectFromDict ok ?rt (trip (ToDict ?rt (s_heap st a))) = Inr (handed ?rt (s_heap st a))"
    if "(i, a) \<in> set (s_objs st)" "ob_mode (s_heap st a) = ModeRead" for i a
    unfolding handed_def using assms(1,2) assms(4) [OF that(1)] that(2) assms(5,6) by (intro ObjectFromDict_ToDict) auto
  then have "list_all2 (\<lambda>d x. ObjectFromDict ok ?rt d = Inr x) (map trip (ExportFloating ?rt st)) ?xs"
    by (auto simp: ExportFloating_def list_all2_map1 list_all2_map2 intro!: list.rel_refl_strong)
  then have load: "load_floating ok ?rt (map trip (ExportFloating ?rt st)) [] = (fold (\<lambda>x m. gset (fo_id x) x m) ?xs [], None)"
    by (rule load_floating_all)
  have ids: "map (\<lambda>x. (fo_id x, x)) ?xs = map (\<lambda>(i, a). (i, handed ?rt (s_heap st a))) ?rd" "map fo_id ?xs = map fst ?rd"
    using assms(4) by (auto simp: handed_def)
  have "distinct (map fo_id ?xs)" unfolding ids(2) using assms(3) by (auto simp: gmap_ok_def intro: distinct_map_filter)
  note M = map_of_fold_gset [OF this, of "[]", unfolded ids(1)]
  show ?thesis
    using load M map_of_filter_map [OF assms(3), where g = "\<lambda>a. handed ?rt (s_heap st a)" and P = "\<lambda>a. ob_mode (s_heap st a) = ModeRead"]
    by (simp add: LoadFloating_def)
qed

theorem Floating_roundtrip_witness:
  "\<exists>objs'. LoadFloating (\<lambda>_. True) ''/var/store'' True (map json_trip (ExportFloating ''/var/store''
        (demo_store\<lparr>s_heap := \<lambda>_. \<lparr>ob_id = ''p'', ob_mode = ModeRead, ob_path = InObjects ''p'', ob_stagePath = None,
           ob_meta = InObjects ''p'', ob_SourceEpoch = None\<rparr>\<rparr>))) [] = (objs', None)
     \<and> map_of objs' ''p'' = Some \<lparr>fo_id = ''p'', fo_mode = 0, fo_path = ''/var/store/objects/p/data''\<rparr>"
proof -
  let ?ob = "\<lparr>ob_id = ''p'', ob_mode = ModeRead, ob_path = InObjects ''p'', ob_stagePath = None, ob_meta = InObjects ''p'', ob_SourceEpoch = None\<rparr>"
  let ?st = "demo_store\<lparr>s_heap := \<lambda>_. ?ob\<rparr>"
  have rt: "abs_path [''var'', ''store''] = ''/var/store''" by (simp add: abs_path_def)
  have objs: "s_objs ?st = [(''p'', 0)]" by (simp add: demo_store_def)
  have "\<exists>objs'. LoadFloating (\<lambda>_. True) (abs_path [''var'', ''store'']) True (map json_trip (ExportFloating (abs_path [''var'', ''store'']) ?st)) [] = (objs', None)
    \<and> (\<forall>i. map_of objs' i = (case map_of (s_objs ?st) i of
          None \<Rightarrow> None
        | Some a \<Rightarrow> if ob_mode (s_heap ?st a) = ModeRead then Some (handed (abs_path [''var'', ''store'']) (s_heap ?st a)) else None))"
    by (rule Floating_roundtrip) (auto simp: objs plain_def gmap_ok_def plain_path_def data_parts_def)
  then obtain objs' where o: "LoadFloating (\<lambda>_. True) ''/var/store'' True (map json_trip (ExportFloating ''/var/store'' ?st)) [] = (objs', None)"
    "map_of objs' ''p'' = Some (handed ''/var/store'' ?ob)"
    unfolding rt objs by auto
  have "handed ''/var/store'' ?ob = \<lparr>fo_id = ''p'', fo_mode = 0, fo_path = ''/var/store/objects/p/data''\<rparr>"
    by code_simp
  with o show ?thesis by auto
qed

section \<open>Names and temporary directories\<close>

text \<open>\<open>b\<close> is the sixteen random bytes; the version and the variant are written over two of them.\<close>

definition newUUID :: "string \<Rightarrow> string" where
  "newUUID b =
     (let b1 = b[6 := char_of (byte (b ! 6) mod 16 + 64)]
      in hex_encode (b1[8 := char_of (byte (b1 ! 8) mod 64 + 128)]))"

lemma newUUID_plain: "length b = 16 \<Longrightarrow> plain (''uuid-'' @ newUUID b)"
proof -
  have "CHR ''/'' \<notin> set (hex_encode s)" for s
    using is_hex_hex_encode [of s] by (auto simp: list_all_iff is_hex_def is_digit_def)
  then show ?thesis by (simp add: plain_def newUUID_def Let_def)
qed

text \<open>The directories there are, and the one \<open>os.MkdirTemp\<close> made; the function returned with it removes what is in it, too.\<close>

definition TempDir :: "string option \<Rightarrow> string set \<Rightarrow> string set \<times> string option" where
  "TempDir chosen dirs = (case chosen of None \<Rightarrow> (dirs, None) | Some d \<Rightarrow> (insert d dirs, Some d))"

definition temp_cleanup :: "string \<Rightarrow> string set \<Rightarrow> string set" where
  "temp_cleanup d dirs = {p \<in> dirs. p \<noteq> d \<and> \<not> HasPrefix p (d @ ''/'')}"

end
