(* ===== verification/SocketLife.thy ===== *)
theory SocketLife
  imports Socket
begin

text \<open>
  The life of a socket (\<^verbatim>\<open>ipc/socket.go\<close>): how \<open>Dial\<close>, \<open>Listen\<close>, \<open>Pair\<close>, \<open>FromFD\<close> and \<open>Accept\<close> come by one,
  what they leave behind when a system call fails, and what \<open>Close\<close> takes away. A file is named by its
  directory and its name in it; \<open>.\<close> is the working directory.
\<close>

section \<open>The process\<close>

datatype open_file = OSocket bool | ODir string

record proc =
  pc_fds :: "(int, open_file) gmap"
  pc_files :: "(string \<times> string) set"

datatype sock_call = CSocket | CAutoBind | CConnect | CBind | CNonblock | COpenDir | CPair | CDup | CAccept

record sock =
  sk_fd :: int
  sk_unlink :: "(int \<times> string) option"

definition free_fd :: "(int, 'a) gmap \<Rightarrow> int" where
  "free_fd tab = first_free (map (\<lambda>(fd, x). (fd, 0)) tab)"

definition open_fd :: "open_file \<Rightarrow> proc \<Rightarrow> proc \<times> int" where
  "open_fd x p = (let fd = free_fd (pc_fds p) in (p\<lparr>pc_fds := gset fd x (pc_fds p)\<rparr>, fd))"

definition shut_fd :: "int \<Rightarrow> proc \<Rightarrow> proc" where
  "shut_fd fd p = p\<lparr>pc_fds := gdel fd (pc_fds p)\<rparr>"

text \<open>Where the kernel finds a path: the directory and the name.\<close>

definition dir_of :: "string \<Rightarrow> string" where
  "dir_of path = Join (butlast (Split (CHR ''/'') path)) ''/''"

definition name_of :: "string \<Rightarrow> string" where
  "name_of path = last (Split (CHR ''/'') path)"

definition locate :: "string \<Rightarrow> string \<times> string" where
  "locate path =
     (if CHR ''/'' \<notin> set path then (''.'', path)
      else (if dir_of path = [] then ''/'' else dir_of path, name_of path))"

text \<open>
  An empty path or one that starts with \<^verbatim>\<open>@\<close> or a zero byte is an abstract address of the kernel, which
  is no file.
\<close>

definition is_abstract :: "string \<Rightarrow> bool" where
  "is_abstract path \<longleftrightarrow> path = [] \<or> hd path = CHR ''@'' \<or> hd path = CHR 0x00"

definition bound_files :: "string \<Rightarrow> (string \<times> string) set" where
  "bound_files path = (if is_abstract path then {} else {locate path})"

section \<open>Operations\<close>

definition Dial :: "(sock_call \<Rightarrow> bool) \<Rightarrow> proc \<Rightarrow> proc \<times> (sock_call + sock)" where
  "Dial ok p =
     (if \<not> ok CSocket then (p, Inl CSocket)
      else
        (let (p1, fd) = open_fd (OSocket True) p in
         if \<not> ok CAutoBind then (shut_fd fd p1, Inl CAutoBind)
         else if \<not> ok CConnect then (shut_fd fd p1, Inl CConnect)
         else (p1, Inr \<lparr>sk_fd = fd, sk_unlink = None\<rparr>)))"

text \<open>Binding to a path makes the file, or fails when it is there. The descriptor is set non-blocking.\<close>

definition Listen :: "(sock_call \<Rightarrow> bool) \<Rightarrow> string \<Rightarrow> proc \<Rightarrow> proc \<times> (sock_call + sock)" where
  "Listen ok path p =
     (if \<not> ok CSocket then (p, Inl CSocket)
      else
        (let (p1, fd) = open_fd (OSocket True) p in
         if \<not> ok CBind \<or> bound_files path \<inter> pc_files p1 \<noteq> {} then (shut_fd fd p1, Inl CBind)
         else
           let p2 = p1\<lparr>pc_files := pc_files p1 \<union> bound_files path\<rparr> in
           if \<not> ok CNonblock then (shut_fd fd p2, Inl CNonblock)
           else
             let p3 = p2\<lparr>pc_fds := gset fd (OSocket False) (pc_fds p2)\<rparr>;
                 dir = (if dir_of path = [] then ''.'' else dir_of path) in
             if \<not> ok COpenDir then (shut_fd fd p3, Inl COpenDir)
             else
               (let (p4, dirfd) = open_fd (ODir dir) p3
                in (p4, Inr \<lparr>sk_fd = fd, sk_unlink = Some (dirfd, name_of path)\<rparr>))))"

definition Pair :: "(sock_call \<Rightarrow> bool) \<Rightarrow> proc \<Rightarrow> proc \<times> (sock_call + sock \<times> sock)" where
  "Pair ok p =
     (if \<not> ok CPair then (p, Inl CPair)
      else
        (let (p1, a) = open_fd (OSocket True) p; (p2, b) = open_fd (OSocket True) p1
         in (p2, Inr (\<lparr>sk_fd = a, sk_unlink = None\<rparr>, \<lparr>sk_fd = b, sk_unlink = None\<rparr>))))"

definition FromFD :: "(sock_call \<Rightarrow> bool) \<Rightarrow> int \<Rightarrow> bool \<Rightarrow> proc \<Rightarrow> proc \<times> (sock_call + sock)" where
  "FromFD ok fd closeFD p =
     (case map_of (pc_fds p) fd of
        None \<Rightarrow> (p, Inl CDup)
      | Some x \<Rightarrow>
          if \<not> ok CDup then (p, Inl CDup)
          else
            (let (p1, newfd) = open_fd x p
             in (if closeFD then shut_fd fd p1 else p1, Inr \<lparr>sk_fd = newfd, sk_unlink = None\<rparr>)))"

definition Accept :: "(sock_call \<Rightarrow> bool) \<Rightarrow> sock \<Rightarrow> proc \<Rightarrow> proc \<times> (sock_call + sock)" where
  "Accept ok s p =
     (if \<not> ok CAccept then (p, Inl CAccept)
      else (let (p1, nfd) = open_fd (OSocket True) p in (p1, Inr \<lparr>sk_fd = nfd, sk_unlink = None\<rparr>)))"

definition SetBlocking :: "sock \<Rightarrow> bool \<Rightarrow> proc \<Rightarrow> proc \<times> bool" where
  "SetBlocking s blocking p =
     (case map_of (pc_fds p) (sk_fd s) of
        Some (OSocket b) \<Rightarrow> (p\<lparr>pc_fds := gset (sk_fd s) (OSocket blocking) (pc_fds p)\<rparr>, True)
      | Some _ \<Rightarrow> (p, True)
      | None \<Rightarrow> (p, False))"

text \<open>\<open>unlinkat\<close> takes the file of that name out of the directory the descriptor is open on.\<close>

definition unlink_at :: "int \<Rightarrow> string \<Rightarrow> proc \<Rightarrow> proc" where
  "unlink_at dirfd name p =
     (case map_of (pc_fds p) dirfd of Some (ODir d) \<Rightarrow> p\<lparr>pc_files := pc_files p - {(d, name)}\<rparr> | _ \<Rightarrow> p)"

definition Socket_Close :: "sock \<Rightarrow> proc \<Rightarrow> proc \<times> sock" where
  "Socket_Close s p =
     (if sk_fd s < 0 then (p, s)
      else
        let p1 = shut_fd (sk_fd s) p in
        (case sk_unlink s of
           Some (dirfd, name) \<Rightarrow> (shut_fd dirfd (unlink_at dirfd name p1), \<lparr>sk_fd = -1, sk_unlink = None\<rparr>)
         | None \<Rightarrow> (p1, s\<lparr>sk_fd := -1\<rparr>)))"

section \<open>What is left\<close>

lemma free_fd_fresh: "free_fd tab \<notin> set (gkeys tab)" and free_fd_nonneg: "0 \<le> free_fd tab"
proof -
  have "gkeys (map (\<lambda>(fd, x). (fd, 0)) tab) = gkeys tab" by (induction tab) auto
  then show "free_fd tab \<notin> set (gkeys tab)" "0 \<le> free_fd tab"
    using first_free_fresh [of "map (\<lambda>(fd, x). (fd, 0)) tab"] first_free_nonneg [of "map (\<lambda>(fd, x). (fd, 0)) tab"]
    unfolding free_fd_def by metis+
qed

lemma gdel_gset_fresh: "k \<notin> set (gkeys m) \<Longrightarrow> gdel k (gset k v m) = m"
  unfolding gset_def gdel_def by (induction m) (auto simp: delete_idem)

lemma open_shut: "open_fd x p = (p1, fd) \<Longrightarrow> shut_fd fd p1 = p"
  using free_fd_fresh [of "pc_fds p"] by (auto simp: open_fd_def shut_fd_def Let_def gdel_gset_fresh)

text \<open>A file in the root directory is looked for in the working directory.\<close>

definition found_again :: "string \<Rightarrow> bool" where
  "found_again path \<longleftrightarrow> CHR ''/'' \<notin> set path \<or> dir_of path \<noteq> []"

lemma Split_plain: "c \<notin> set s \<Longrightarrow> Split c s = [s]"
  by (induction s) auto

text \<open>Where \<open>Close\<close> looks for the file.\<close>

definition unlink_place :: "string \<Rightarrow> string \<times> string" where
  "unlink_place path = (if dir_of path = [] then ''.'' else dir_of path, name_of path)"

lemma locate_unlink: "found_again path \<Longrightarrow> locate path = unlink_place path"
  by (auto simp: unlink_place_def locate_def found_again_def dir_of_def name_of_def Split_plain)

lemma shut_twice: "shut_fd a (shut_fd b p) = shut_fd b (shut_fd a p)"
  by (simp add: shut_fd_def gdel_def delete_twist)

lemma open_fd_fields:
  assumes "open_fd x p = (p1, fd)"
  shows "pc_files p1 = pc_files p" "pc_fds p1 = gset fd x (pc_fds p)" "fd \<notin> set (gkeys (pc_fds p))" "0 \<le> fd"
  using assms free_fd_fresh [of "pc_fds p"] free_fd_nonneg [of "pc_fds p"] by (auto simp: open_fd_def Let_def)

lemma gset_gset_same: "gset k v (gset k w m) = gset k v m"
  unfolding gset_def by (induction m) auto

text \<open>The parts of a successful \<open>Listen\<close>.\<close>

lemma Listen_ok:
  assumes "Listen ok path p = (p1, Inr s)"
  obtains fd dirfd where "s = \<lparr>sk_fd = fd, sk_unlink = Some (dirfd, name_of path)\<rparr>" "0 \<le> fd" "fd \<noteq> dirfd"
    "bound_files path \<inter> pc_files p = {}" "pc_files p1 = pc_files p \<union> bound_files path"
    "pc_fds p1 = gset dirfd (ODir (if dir_of path = [] then ''.'' else dir_of path)) (gset fd (OSocket False) (pc_fds p))"
    "fd \<notin> set (gkeys (pc_fds p))" "dirfd \<notin> set (gkeys (gset fd (OSocket False) (pc_fds p)))"
proof -
  obtain q fd where o: "open_fd (OSocket True) p = (q, fd)" by fastforce
  let ?dir = "if dir_of path = [] then ''.'' else dir_of path"
  define r where "r = q\<lparr>pc_files := pc_files q \<union> bound_files path, pc_fds := gset fd (OSocket False) (pc_fds q)\<rparr>"
  obtain t dirfd where d: "open_fd (ODir ?dir) r = (t, dirfd)" by fastforce
  note O = open_fd_fields [OF o] and D = open_fd_fields [OF d]
  have l: "p1 = t" "s = \<lparr>sk_fd = fd, sk_unlink = Some (dirfd, name_of path)\<rparr>" "bound_files path \<inter> pc_files q = {}"
    using assms o d by (auto simp: Listen_def Let_def r_def split: if_splits)
  have r: "pc_fds r = gset fd (OSocket False) (pc_fds p)" "pc_files r = pc_files p \<union> bound_files path"
    by (simp_all add: r_def O(1,2) gset_gset_same)
  have "fd \<noteq> dirfd" using D(3) r(1) by (auto simp: gset_def dom_update)
  then show thesis using that [of fd dirfd] l O D r by simp
qed

lemma close_both:
  assumes "fd \<notin> set (gkeys m)" "dirfd \<notin> set (gkeys (gset fd x m))"
  shows "gdel dirfd (gdel fd (gset dirfd y (gset fd x m))) = m"
proof -
  have "gdel dirfd (gdel fd (gset dirfd y (gset fd x m))) = gdel fd (gdel dirfd (gset dirfd y (gset fd x m)))"
    by (simp add: gdel_def delete_twist)
  then show ?thesis using gdel_gset_fresh [OF assms(2)] gdel_gset_fresh [OF assms(1)] by simp
qed

text \<open>C39: A listening socket takes back what it made: \<open>Close\<close> after \<open>Listen\<close> closes both descriptors and removes
  exactly the file that was bound, unless the path is in the root directory. An abstract address has no
  file, but what is found under its name is removed as if it were. A \<open>Listen\<close> that fails leaves no
  descriptor open; but when it fails after binding, the file of the socket stays.\<close>

theorem Listen_Close:
  assumes "Listen ok path p = (p1, r)"
  shows "case r of
      Inr s \<Rightarrow> if is_abstract path
        then Socket_Close s p1 = (p\<lparr>pc_files := pc_files p - {unlink_place path}\<rparr>, \<lparr>sk_fd = -1, sk_unlink = None\<rparr>)
        else found_again path \<longrightarrow> Socket_Close s p1 = (p, \<lparr>sk_fd = -1, sk_unlink = None\<rparr>)
    | Inl c \<Rightarrow> pc_fds p1 = pc_fds p
        \<and> pc_files p1 = (if c \<in> {CNonblock, COpenDir} then pc_files p \<union> bound_files path else pc_files p)"
proof (cases r)
  case (Inl c)
  obtain q fd where o: "open_fd (OSocket True) p = (q, fd)" by fastforce
  note O = open_fd_fields [OF o]
  have "pc_fds (shut_fd fd q) = pc_fds p" "pc_files (shut_fd fd q) = pc_files p"
    using open_shut [OF o] by simp_all
  moreover have "gdel fd (gset fd (OSocket False) (pc_fds q)) = pc_fds p"
    using gdel_gset_fresh [OF O(3)] by (simp add: O(2) gset_gset_same)
  ultimately show ?thesis
    using assms Inl o by (auto simp: Listen_def Let_def shut_fd_def O(1) split: if_splits prod.splits)
next
  case (Inr s)
  obtain fd dirfd where L: "s = \<lparr>sk_fd = fd, sk_unlink = Some (dirfd, name_of path)\<rparr>" "0 \<le> fd" "fd \<noteq> dirfd"
    "bound_files path \<inter> pc_files p = {}" "pc_files p1 = pc_files p \<union> bound_files path"
    "pc_fds p1 = gset dirfd (ODir (fst (unlink_place path))) (gset fd (OSocket False) (pc_fds p))"
    "fd \<notin> set (gkeys (pc_fds p))" "dirfd \<notin> set (gkeys (gset fd (OSocket False) (pc_fds p)))"
    using assms [unfolded Inr] by (rule Listen_ok) (simp add: unlink_place_def)
  have c: "Socket_Close s p1 = (p\<lparr>pc_files := pc_files p \<union> bound_files path - {unlink_place path}\<rparr>, \<lparr>sk_fd = -1, sk_unlink = None\<rparr>)"
    using L(1-3,5) close_both [OF L(7,8)]
    by (simp add: Socket_Close_def shut_fd_def unlink_at_def L(6) unlink_place_def)
  show ?thesis
  proof (cases "is_abstract path")
    case True
    with c Inr show ?thesis by (simp add: bound_files_def)
  next
    case False
    have "Socket_Close s p1 = (p, \<lparr>sk_fd = -1, sk_unlink = None\<rparr>)" if "found_again path"
      using c L(4) locate_unlink [OF that] False by (simp add: bound_files_def)
    with Inr False show ?thesis by simp
  qed
qed

lemma Dial_Close:
  assumes "Dial ok p = (p1, r)"
  shows "case r of Inr s \<Rightarrow> fst (Socket_Close s p1) = p | Inl _ \<Rightarrow> p1 = p"
proof -
  obtain q fd where o: "open_fd (OSocket True) p = (q, fd)" by fastforce
  show ?thesis
    using assms o open_shut [OF o] open_fd_fields(4) [OF o]
    by (auto simp: Dial_def Socket_Close_def Let_def split: if_splits)
qed

text \<open>In the root directory the file stays, and a file of the same name in the working directory is removed.\<close>

lemma Listen_Close_root:
  assumes "Listen ok (CHR ''/'' # n) p = (p1, Inr s)" "CHR ''/'' \<notin> set n"
  shows "pc_files (fst (Socket_Close s p1)) = insert (''/'', n) (pc_files p) - {(''.'', n)}"
proof -
  have path: "dir_of (CHR ''/'' # n) = []" "name_of (CHR ''/'' # n) = n"
    using assms(2) by (simp_all add: dir_of_def name_of_def Split_plain)
  have loc: "bound_files (CHR ''/'' # n) = {(''/'', n)}" by (simp add: locate_def path bound_files_def is_abstract_def)
  show ?thesis
    by (rule Listen_ok [OF assms(1)]) (auto simp: path loc Socket_Close_def shut_fd_def unlink_at_def)
qed

theorem Listen_Close_witness:
  "\<exists>p1 s. Listen (\<lambda>_. True) ''/run/osbuild/api'' \<lparr>pc_fds = [], pc_files = {}\<rparr> = (p1, Inr s)
     \<and> Socket_Close s p1 = (\<lparr>pc_fds = [], pc_files = {}\<rparr>, \<lparr>sk_fd = -1, sk_unlink = None\<rparr>)"
proof -
  let ?p = "\<lparr>pc_fds = [], pc_files = {}\<rparr>"
  obtain p1 r where l: "Listen (\<lambda>_. True) ''/run/osbuild/api'' ?p = (p1, r)" by fastforce
  then obtain s where s: "r = Inr s" by (auto simp: Listen_def Let_def open_fd_def split: prod.splits)
  have "found_again ''/run/osbuild/api''" "\<not> is_abstract ''/run/osbuild/api''" by code_simp+
  with Listen_Close [OF l] l s show ?thesis by auto
qed

end
