(* ===== verification/Spec2Isabelle.thy ===== *)
theory Spec2Isabelle
  imports JsonPython Depsolve Checkpoint Describe Validate ParseFacts HostTree BuildOrder
    ServiceManager ApiFacts ApiStore SandboxFacts StageFacts MonitorFacts OutputFacts CliFacts Floating SocketLife
begin

text \<open>
  A model of image-assembler, the Go reimplementation of osbuild: a command that reads a manifest, runs the
  stages of its pipelines in sandboxes on top of a cache of trees, and exports the results.

  \<^bold>\<open>The program.\<close> \<^verbatim>\<open>cmd/osbuild/main.go\<close> reads flags and a manifest, has it validated against the schemas of the
  modules (\<^verbatim>\<open>manifest/validate.go\<close>, \<^verbatim>\<open>registry/\<close>) and parsed (\<^verbatim>\<open>manifest/parse.go\<close>), opens the object store
  (\<^verbatim>\<open>store/\<close>), asks the solver for the order of the pipelines (\<^verbatim>\<open>manifest/depsolve.go\<close>), downloads sources and
  builds (\<^verbatim>\<open>build/\<close>), telling a monitor about it (\<^verbatim>\<open>monitor/\<close>), and exports trees. A pipeline is built by
  starting from the last of its stages whose tree is cached and running the others, each in a sandbox
  (\<^verbatim>\<open>sandbox/\<close>) with its devices, inputs and mounts, which are services of their own (\<^verbatim>\<open>service/\<close>) reached over
  packet sockets (\<^verbatim>\<open>ipc/\<close>); a stage in turn calls servers of the program (\<^verbatim>\<open>api/\<close>) for its arguments, loop
  devices (\<^verbatim>\<open>loop/\<close>) and trees of the store. Trees are cached under IDs, digests of what a stage is given.

  \<^bold>\<open>Conventions.\<close> A Go function that returns \<open>(T, error)\<close> is a function into a sum, \<open>Inl\<close> the error; a
  pointer that may be nil is an option; a Go map is an association list, and where the code ranges over one
  and the order shows, the order is an argument or a permutation the theorem quantifies over. Strings are
  byte lists. State is passed explicitly. Panics are outcomes (\<open>Panic\<close>, \<open>SlicePanic\<close>, \<open>PanicNilMap\<close>). What is
  not under \<^verbatim>\<open>src\<close> is a parameter: the digest and number formatting (\<open>golib\<close>), the file system and system
  calls (which calls succeed: \<open>senv\<close>, \<open>run_env\<close>, \<open>cli_env\<close>), the JSON schema checker, the services, what a
  stage does to its tree (\<open>be_run\<close>), the polls of a context.

  \<^bold>\<open>Theories, in the order of the code's layers.\<close>
    \<^item> \<open>Prelude\<close> (results, loops with early return, association lists) and \<open>GoStrings\<close>, \<open>Paths\<close> (what the
      program uses of \<^verbatim>\<open>strings\<close>, \<^verbatim>\<open>strconv\<close>, \<^verbatim>\<open>unicode/utf8\<close>, \<^verbatim>\<open>path/filepath\<close>).
    \<^item> \<open>Jsonutil\<close>, \<open>JsonPython\<close>: \<^verbatim>\<open>internal/jsonutil\<close>, canonical JSON; that it is Python's where it is
      claimed to be, and where it is not.
    \<^item> \<open>OrderedMap\<close>, \<open>Manifest\<close>: \<^verbatim>\<open>manifest/orderedmap.go\<close>, \<^verbatim>\<open>manifest.go\<close>, \<^verbatim>\<open>id.go\<close>; stage IDs do not depend
      on map order, and equal pipeline IDs mean equal histories unless the digest collides. The locale
      \<open>ordered_dict\<close> is the interface of the ordered map.
    \<^item> \<open>Registry\<close>: \<^verbatim>\<open>registry/\<close>; modules, their schemas, runners; the caches do not show. The locale
      \<open>module_provider\<close> is what validator and parser use of it.
    \<^item> \<open>Parse\<close>, \<open>ParseFacts\<close>: \<^verbatim>\<open>manifest/parse.go\<close>; every parsed manifest is well formed, devices come parents
      first, and the parser panics only on device entries that are not objects.
    \<^item> \<open>Depsolve\<close>, \<open>Checkpoint\<close>, \<open>Describe\<close>, \<open>Validate\<close>: the files of the same names under \<^verbatim>\<open>manifest/\<close>.
    \<^item> \<open>HostTree\<close>, \<open>Size\<close>, \<open>Mtime\<close>, \<open>Metadata\<close>, \<open>ObjectStore\<close>, \<open>Floating\<close>: \<^verbatim>\<open>store/\<close>. The state \<open>sstore\<close> has the
      fields of \<open>Store\<close>, the objects by address (\<open>s_heap\<close>) and the directories on disk (\<open>d_...\<close>).
      System calls fail as \<open>senv\<close> says, the removal of an entry too (\<open>remove_entry\<close>, with what is left of it
      in \<open>e_left\<close>). \<open>StoreFacts\<close> has complete entries over all operations, eviction and the size limit;
      \<open>StoreLimits\<close> the immutability of committed trees (locale \<open>stable_cache\<close>) and the commits that store
      nothing. \<open>Store_LoadFloating\<close> is what loading objects from another store does to the cache,
      \<open>Floating\<close> has the dictionaries they travel in.
    \<^item> \<open>Ipc\<close>, \<open>Socket\<close>, \<open>SocketFacts\<close>, \<open>SocketLife\<close>: \<^verbatim>\<open>ipc/\<close>; descriptor sets, messages through packets or
      memory files, and the life of a socket.
    \<^item> \<open>Service\<close>, \<open>ServiceManager\<close>: \<^verbatim>\<open>service/\<close>; the protocol, a call and what it does with descriptors, the
      processes of a manager. \<open>LoopDev\<close>: \<^verbatim>\<open>loop/\<close>. \<open>ApiServers\<close>, \<open>ApiFacts\<close>, \<open>ApiStore\<close>: \<^verbatim>\<open>api/\<close>.
      \<open>Sandbox\<close>, \<open>SandboxFacts\<close>: \<^verbatim>\<open>sandbox/\<close>; the command of a stage, and every directory and mount a sandbox
      makes, with those it leaves.
    \<^item> \<open>StageRun\<close>, \<open>StageFacts\<close>: \<^verbatim>\<open>build/stage.go\<close>, \<^verbatim>\<open>device.go\<close>, \<^verbatim>\<open>input.go\<close>, \<^verbatim>\<open>mount.go\<close>; one stage, as the
      sequence of what is set up, with the outcome of each step, and taken down by the deferred calls.
    \<^item> \<open>Build\<close>: \<^verbatim>\<open>build/build.go\<close> and \<^verbatim>\<open>export.go\<close>. \<open>BuildFacts\<close> says which stages run and after which
      cached one (\<open>ran_from\<close>); \<open>BuildSound\<close> refines a
      pipeline to the composition of functions on the contents of trees; \<open>BuildOrder\<close> composes parser, solver
      and build; \<open>BuildHeap\<close> and \<open>BuildRuns\<close> carry soundness through a whole build to the exports,
      and say that a build that succeeds built every pipeline it was given (\<open>all_built\<close>).
    \<^item> \<open>Monitor\<close>, \<open>MonitorFacts\<close>: \<^verbatim>\<open>monitor/\<close>; each record of the JSON sequence has the context of its call.
    \<^item> \<open>Output\<close>, \<open>OutputFacts\<close>: \<^verbatim>\<open>build/output.go\<close>, \<^verbatim>\<open>result.go\<close>, \<^verbatim>\<open>source.go\<close>; the printed document, the
      downloads.
    \<^item> \<open>Flags\<close>, \<open>Cli\<close>, \<open>CliFacts\<close>: \<^verbatim>\<open>cmd/osbuild/main.go\<close> and \<^verbatim>\<open>internal/log\<close>; a whole invocation. Its theorems
      rest on those of all layers below: the checks come before any effect, exit code 0 means that
      everything planned was built, and what is exported is what the stages of the manifest give.

  \<^bold>\<open>Abstract specifications.\<close> A stage is a function \<open>F\<close> on contents (path to data), a pipeline the composition
  \<open>run_abstract F\<close> from an empty root. \<open>disk_sound D\<close> says that what the store holds under an ID is the tree
  \<open>D\<close> gives it; \<open>ids_denote\<close> that \<open>D\<close> gives a stage's ID the tree of the pipeline up to it, which is what
  content addressing means; \<open>stages_refine\<close> that running a stage does to the tree what \<open>F\<close> says. Under
  these, building from checkpoints and caches gives what building from nothing gives
  (\<open>BuildPipeline_refines\<close>), through a whole run (\<open>run_exports_images\<close>). These theorems, and the order of
  \<open>Build_finds_trees\<close>, ask that entries of the cache can be removed (\<open>removes\<close>): when they cannot, the code
  takes what is left of a failed commit for the object (\<open>Commit_leftover\<close>). The graph of pipelines (\<open>deps\<close>,
  \<open>wanted\<close>) specifies the solver; \<open>fragments\<close> the validator; \<open>position\<close> the contexts of the monitor.

  \<^bold>\<open>Loops and fuel.\<close> All functions are total. \<open>Depsolve\<close> alone takes fuel, one for each element taken off the
  work list: it does not end on a cyclic graph, and then \<open>None\<close> is its result for every amount. On a graph
  whose references have a rank there is an amount from which on the result is there and the same
  (\<open>Depsolve_terminates\<close>). Calls that can block (a stage without a time limit, a service that
  does not answer, the lock of the store) are parameters with a value, so nothing is said of whether they
  return. Retry loops of the kernel interfaces
  (loop devices, reading, receiving) run over the list of the answers they get.

  \<^bold>\<open>Machine integers.\<close> Sizes are parsed in \<open>64 word\<close>, with the overflow of the code; loop device fields have
  their widths; \<open>to_float64\<close> rounds to 53 bits, for numbers that pass through JSON. Other counters are
  mathematical integers: they count lists in memory.

  \<^bold>\<open>Where the code falls short.\<close> Lemmas and properties of kind error state what the code does where that is not
  what it means to do: among others a checkpoint before the last stage of a pipeline that cannot be built in
  one run, a commit that evicts its own object, a failed commit whose remains pass for the object, host files deleted when unmounting fails, paths beside the
  inputs directory, descriptors of loop requests never closed, a failed build that reports a stage that
  succeeded, and exports that are cached making the command build everything.

  \<^bold>\<open>Not modelled.\<close> The owners of files (the switch of \<^verbatim>\<open>Export\<close> that does not preserve them shows nowhere),
  the order \<^verbatim>\<open>sort.Slice\<close> gives entries used at the same second (by name here), the overflow of the 64-bit
  sum of cache sizes. Logging (\<^verbatim>\<open>slog\<close> loggers and the context that carries them), signal set-up, goroutines as
  such (readers that copy the output of a process; where interleaving matters, as between two calls of
  \<open>Manager.Start\<close> or between processes on one store, the steps are separate definitions), the JSON decoder
  and encoder of the standard library, the JSON Schema compiler and the regular expressions of third-party
  packages, and the bodies of the stages, which are Python.
\<close>

end
